(* ===== verification/Prelude.thy ===== *)
theory Prelude
  imports Main "HOL-Library.Word"
begin

text \<open>
  Shared vocabulary of the development: the machine integers of the Rust code as
  words, big-endian byte encodings of a number (\<open>to_be_bytes\<close> / \<open>from_be_bytes\<close>),
  generic list, map and sum lemmas, and the collections of rewrite rules the
  component theories add to.

  It also holds the two interfaces that do not belong to one component: a
  \<open>canonical\<close> form (the code compares addresses after normalising them) and an
  \<open>invariant_system\<close> (a transition system together with a property that its
  initial states have and its steps keep).
\<close>

section \<open>Machine integers\<close>

type_synonym u8 = "8 word"
type_synonym u16 = "16 word"
type_synonym u32 = "32 word"
type_synonym u64 = "64 word"
type_synonym u128 = "128 word"

named_theorems io_simps \<open>equations of the stream operations\<close>
named_theorems wire_simps \<open>equations of the wire format\<close>
named_theorems addr_simps \<open>equations of the address operations\<close>

lemma u8_unat_less [simp]: "unat (b :: u8) < 256"
  using unsigned_less [of b] by simp

lemma u16_unat_less [simp]: "unat (p :: u16) < 65536"
  using unsigned_less [of p] by simp

lemma u32_unat_less: "unat (a :: u32) < 4294967296"
proof -
  have "unat a < 2 ^ LENGTH(32)" by (rule unsigned_less)
  then show ?thesis by simp
qed

lemma unat_drop_bit: "unat (drop_bit n (a :: 'a :: len word)) = unat a div 2 ^ n"
proof -
  have "unat (drop_bit n a) = drop_bit n (take_bit LENGTH('a) (unat a))"
    by (rule unsigned_drop_bit_eq)
  also have "take_bit LENGTH('a) (unat a) = unat a"
    using unsigned_less [of a] by (simp add: take_bit_eq_mod)
  finally show ?thesis
    by (simp only: drop_bit_eq_div)
qed

lemma u8_of_nat_eq [simp]: "n < 256 \<Longrightarrow> unat (word_of_nat n :: u8) = n"
  by (simp add: unat_of_nat)

section \<open>Big-endian bytes\<close>

text \<open>
  \<open>be_bytes n v\<close> is the number \<open>v\<close> in \<open>n\<close> bytes, most significant first;
  \<open>be_val\<close> reads such bytes back. They model \<open>octets\<close>, \<open>to_be_bytes\<close>,
  \<open>from_be_bytes\<close> and \<open>From<[u8; N]>\<close> of the address types.
\<close>

primrec be_bytes :: "nat \<Rightarrow> nat \<Rightarrow> u8 list" where
  "be_bytes 0 v = []"
| "be_bytes (Suc n) v = be_bytes n (v div 256) @ [word_of_nat (v mod 256)]"

lemma be_bytes_numeral:
  "be_bytes (numeral k) v = be_bytes (pred_numeral k) (v div 256) @ [word_of_nat (v mod 256)]"
  by (simp only: numeral_eq_Suc [of k] be_bytes.simps)

definition be_val :: "u8 list \<Rightarrow> nat" where
  "be_val bs = foldl (\<lambda>a b. a * 256 + unat b) 0 bs"

lemma length_be_bytes [simp]: "length (be_bytes n v) = n"
  by (induction n arbitrary: v) auto

lemma be_val_Nil [simp]: "be_val [] = 0"
  by (simp add: be_val_def)

lemma be_val_snoc [simp]: "be_val (bs @ [b]) = be_val bs * 256 + unat b"
  by (simp add: be_val_def)

lemma be_val_bytes: "be_val (be_bytes n v) = v mod 256 ^ n"
proof (induction n arbitrary: v)
  case 0
  then show ?case by simp
next
  case (Suc n)
  have "be_val (be_bytes (Suc n) v) = v div 256 mod 256 ^ n * 256 + v mod 256"
    using Suc.IH [of "v div 256"] by simp
  also have "\<dots> = v mod (256 * 256 ^ n)"
    by (simp add: mod_mult2_eq mult.commute)
  finally show ?case by simp
qed

lemma be_bytes_val: "be_bytes (length bs) (be_val bs) = bs"
  by (induction bs rule: rev_induct) auto

lemma be_val_less: "be_val bs < 256 ^ length bs"
proof -
  have "be_val (be_bytes (length bs) (be_val bs)) = be_val bs mod 256 ^ length bs"
    by (rule be_val_bytes)
  then have "be_val bs = be_val bs mod 256 ^ length bs"
    by (simp add: be_bytes_val)
  then show ?thesis
    by (metis mod_less_divisor zero_less_numeral zero_less_power)
qed

lemma be_bytes_inj:
  assumes "v < 256 ^ n" and "w < 256 ^ n" and "be_bytes n v = be_bytes n w"
  shows "v = w"
proof -
  have "v mod 256 ^ n = w mod 256 ^ n"
    by (metis assms(3) be_val_bytes)
  with assms(1,2) show ?thesis
    by (simp only: mod_less)
qed

section \<open>Lists and sums\<close>

lemma take_append_exact [simp]: "length xs = n \<Longrightarrow> take n (xs @ ys) = xs"
  by simp

lemma drop_append_exact [simp]: "length xs = n \<Longrightarrow> drop n (xs @ ys) = ys"
  by simp

lemma list_split_at: "n \<le> length xs \<Longrightarrow> \<exists>ys zs. xs = ys @ zs \<and> length ys = n"
  by (metis append_take_drop_id length_take min.absorb2)

definition is_ok :: "'e + 'a \<Rightarrow> bool" where
  "is_ok r = (case r of Inl _ \<Rightarrow> False | Inr _ \<Rightarrow> True)"

lemma is_ok_simps [simp]: "\<not> is_ok (Inl e)" "is_ok (Inr x)"
  by (simp_all add: is_ok_def)

section \<open>Finite maps by size\<close>

text \<open>The number of entries of a \<open>HashMap\<close>.\<close>

definition map_len :: "('k \<rightharpoonup> 'v) \<Rightarrow> nat" where
  "map_len m = card (dom m)"

lemma map_len_empty [simp]: "map_len Map.empty = 0"
  by (simp add: map_len_def)

lemma map_len_upd_old: "k \<in> dom m \<Longrightarrow> map_len (m(k \<mapsto> v)) = map_len m"
  by (simp add: map_len_def insert_absorb)

lemma map_len_upd_new:
  "finite (dom m) \<Longrightarrow> k \<notin> dom m \<Longrightarrow> map_len (m(k \<mapsto> v)) = Suc (map_len m)"
  by (simp add: map_len_def)

lemma map_len_upd_le: "finite (dom m) \<Longrightarrow> map_len (m(k \<mapsto> v)) \<le> Suc (map_len m)"
  by (cases "k \<in> dom m") (simp_all add: map_len_upd_old map_len_upd_new)

lemma map_len_del:
  "finite (dom m) \<Longrightarrow> k \<in> dom m \<Longrightarrow> map_len (m(k := None)) = map_len m - 1"
  by (simp add: map_len_def)

lemma map_len_del_le: "finite (dom m) \<Longrightarrow> map_len (m(k := None)) \<le> map_len m"
  by (simp add: map_len_def card_Diff1_le)

section \<open>Canonical forms\<close>

text \<open>
  The code decides whether two addresses belong together by comparing them after
  normalisation. What makes that sound is that normalising twice changes nothing:
  every class has exactly one canonical member.
\<close>

locale canonical =
  fixes canon :: "'a \<Rightarrow> 'a"
  assumes canon_idem: "canon (canon x) = canon x"
begin

lemma canon_left: "canon (canon x) = canon y \<longleftrightarrow> canon x = canon y"
  by (simp add: canon_idem)

lemma canon_range: "y \<in> range canon \<longleftrightarrow> canon y = y"
  by (metis canon_idem rangeE rangeI)

lemma canon_unique:
  "canon x = canon y \<Longrightarrow> x \<in> range canon \<Longrightarrow> y \<in> range canon \<Longrightarrow> x = y"
  by (metis canon_range)

lemma map_canon_key:
  "(m :: 'a \<rightharpoonup> 'b) (canon (canon x)) = m (canon x)"
  by (simp add: canon_idem)

end

section \<open>Transition systems with an invariant\<close>

locale invariant_system =
  fixes start :: "'s \<Rightarrow> bool"
    and step :: "'s \<Rightarrow> 's \<Rightarrow> bool"
    and inv :: "'s \<Rightarrow> bool"
  assumes start_inv: "start s \<Longrightarrow> inv s"
    and step_inv: "inv s \<Longrightarrow> step s t \<Longrightarrow> inv t"
begin

lemma steps_inv: "step\<^sup>*\<^sup>* s t \<Longrightarrow> inv s \<Longrightarrow> inv t"
  by (induction rule: rtranclp_induct) (auto intro: step_inv)

lemma reachable_inv: "start s \<Longrightarrow> step\<^sup>*\<^sup>* s t \<Longrightarrow> inv t"
  by (blast intro: steps_inv start_inv)

end

section \<open>A variant bounds the number of changes\<close>

lemma decreasing_changes:
  fixes f :: "nat \<Rightarrow> nat"
  assumes "\<And>m. f (Suc m) \<le> f m" and "\<And>m. m \<in> D \<Longrightarrow> f (Suc m) < f m"
  shows "finite D \<and> card D \<le> f 0"
proof -
  have upto: "card (D \<inter> {..<m}) + f m \<le> f 0" for m
  proof (induction m)
    case (Suc m)
    show ?case
    proof (cases "m \<in> D")
      case True
      then have "card (D \<inter> {..<Suc m}) = Suc (card (D \<inter> {..<m}))"
        by (simp add: lessThan_Suc)
      then show ?thesis using Suc assms(2) [OF True] by simp
    next
      case False
      then show ?thesis using Suc assms(1) [of m] by (simp add: lessThan_Suc)
    qed
  qed simp
  have small: "card B \<le> f 0" if B: "finite B" "B \<subseteq> D" for B
  proof -
    obtain m where "B \<subseteq> {..<m}"
      using B(1) unfolding finite_nat_set_iff_bounded by blast
    then have "card B \<le> card (D \<inter> {..<m})"
      using B(2) by (intro card_mono) auto
    then show ?thesis using upto [of m] by linarith
  qed
  have "finite D"
    using infinite_arbitrarily_large [of D "Suc (f 0)"] small by fastforce
  then show ?thesis using small by blast
qed

section \<open>Bounded resources\<close>

text \<open>
  The permits of a semaphore, or the entries of a table that is kept below a size. A step
  keeps what is held, takes one more when fewer than \<open>cap\<close> are held, or trades one for
  another.
\<close>

definition bounded_change :: "nat \<Rightarrow> 'p set \<Rightarrow> 'p set \<Rightarrow> bool" where
  "bounded_change cap before after \<longleftrightarrow>
     after \<subseteq> before \<or>
     (\<exists>p. after \<subseteq> insert p before \<and> card before < cap) \<or>
     (\<exists>p. \<exists>q \<in> before. after \<subseteq> insert p (before - {q}))"

lemma bounded_keep: "after \<subseteq> before \<Longrightarrow> bounded_change cap before after"
  by (simp add: bounded_change_def)

lemma bounded_same [simp]: "bounded_change cap A A"
  by (simp add: bounded_keep)

lemma bounded_add: "after \<subseteq> insert p before \<Longrightarrow> card before < cap \<Longrightarrow> bounded_change cap before after"
  by (auto simp: bounded_change_def)

lemma bounded_trade: "q \<in> before \<Longrightarrow> after \<subseteq> insert p (before - {q}) \<Longrightarrow> bounded_change cap before after"
  by (auto simp: bounded_change_def)

locale bounded_resource =
  fixes start :: "'s \<Rightarrow> bool"
    and step :: "'s \<Rightarrow> 's \<Rightarrow> bool"
    and held :: "'s \<Rightarrow> 'p set"
    and cap :: nat
  assumes start_held: "start s \<Longrightarrow> held s = {}"
    and step_held: "step s t \<Longrightarrow> bounded_change cap (held s) (held t)"
begin

lemma step_bounded:
  assumes "step s t" and fin: "finite (held s)" and le: "card (held s) \<le> cap"
  shows "finite (held t) \<and> card (held t) \<le> cap"
proof -
  have sub: "finite B \<Longrightarrow> card B \<le> cap \<Longrightarrow> A \<subseteq> B \<Longrightarrow> finite A \<and> card A \<le> cap" for A B :: "'p set"
    using card_mono [of B A] finite_subset by fastforce
  from step_held [OF assms(1)] show ?thesis
    unfolding bounded_change_def
  proof (elim disjE exE bexE conjE)
    fix p assume "held t \<subseteq> insert p (held s)" "card (held s) < cap"
    then show ?thesis
      using fin by (intro sub [of "insert p (held s)"]) (simp_all add: card_insert_if)
  next
    fix p q assume "q \<in> held s" "held t \<subseteq> insert p (held s - {q})"
    moreover from \<open>q \<in> held s\<close> have "0 < card (held s)"
      using fin by (auto simp: card_gt_0_iff)
    ultimately show ?thesis
      using fin le
      by (intro sub [of "insert p (held s - {q})"]) (auto simp: card_insert_if)
  qed (use sub fin le in blast)
qed

lemma steps_bounded:
  assumes "start s" and "step\<^sup>*\<^sup>* s t"
  shows "finite (held t) \<and> card (held t) \<le> cap"
  using assms(2)
proof (induction rule: rtranclp_induct)
  case base
  then show ?case using start_held [OF assms(1)] by simp
next
  case (step t u)
  then show ?case using step_bounded by blast
qed

end

end
