(* ===== verification/Net_Addr.thy ===== *)
theory Net_Addr
  imports Prelude
begin

text \<open>
  The address types of the Rust standard library (\<open>std::net\<close>) as far as the
  program uses them: \<open>IpAddr\<close>, \<open>SocketAddr\<close> with the flow information and scope
  that an IPv6 socket address carries, the octets of an address and the address of
  octets, \<open>to_ipv4_mapped\<close>, \<open>is_unspecified\<close>, \<open>is_ipv4\<close>.
\<close>

datatype ip_addr = IpV4 u32 | IpV6 u128

text \<open>
  \<open>SocketAddr\<close>: an IPv6 socket address has a flow label and a scope id, both of which
  take part in equality; \<open>SocketAddr::new\<close> sets them to 0.
\<close>

datatype socket_addr =
    SockV4 (sv4_ip: u32) (sv4_port: u16)
  | SockV6 (sv6_ip: u128) (sv6_port: u16) (flowinfo: u32) (scope_id: u32)

fun sock_new :: "ip_addr \<Rightarrow> u16 \<Rightarrow> socket_addr" where
  "sock_new (IpV4 a) p = SockV4 a p"
| "sock_new (IpV6 a) p = SockV6 a p 0 0"

fun sock_ip :: "socket_addr \<Rightarrow> ip_addr" where
  "sock_ip (SockV4 a p) = IpV4 a"
| "sock_ip (SockV6 a p f s) = IpV6 a"

fun sock_port :: "socket_addr \<Rightarrow> u16" where
  "sock_port (SockV4 a p) = p"
| "sock_port (SockV6 a p f s) = p"

fun is_ipv4 :: "ip_addr \<Rightarrow> bool" where
  "is_ipv4 (IpV4 a) = True"
| "is_ipv4 (IpV6 a) = False"

fun is_unspecified :: "ip_addr \<Rightarrow> bool" where
  "is_unspecified (IpV4 a) = (a = 0)"
| "is_unspecified (IpV6 a) = (a = 0)"

text \<open>The octets of an address, most significant first.\<close>

definition v4_octets :: "u32 \<Rightarrow> u8 list" where
  "v4_octets a = be_bytes 4 (unat a)"

definition v6_octets :: "u128 \<Rightarrow> u8 list" where
  "v6_octets a = be_bytes 16 (unat a)"

definition v4_of_octets :: "u8 list \<Rightarrow> u32" where
  "v4_of_octets bs = word_of_nat (be_val bs)"

definition v6_of_octets :: "u8 list \<Rightarrow> u128" where
  "v6_of_octets bs = word_of_nat (be_val bs)"

definition port_bytes :: "u16 \<Rightarrow> u8 list" where
  "port_bytes p = be_bytes 2 (unat p)"

definition port_of_bytes :: "u8 list \<Rightarrow> u16" where
  "port_of_bytes bs = word_of_nat (be_val bs)"

lemma length_octets [simp]:
  "length (v4_octets a) = 4" "length (v6_octets b) = 16" "length (port_bytes p) = 2"
  by (simp_all add: v4_octets_def v6_octets_def port_bytes_def)

lemma word_of_be_bytes:
  fixes w :: "'a :: len word"
  assumes "256 ^ n = (2 :: nat) ^ LENGTH('a)"
  shows "word_of_nat (be_val (be_bytes n (unat w))) = w"
proof -
  have "unat w < 256 ^ n"
    using unsigned_less [of w] assms by simp
  then show ?thesis
    by (simp add: be_val_bytes)
qed

lemma be_bytes_of_word:
  assumes "length bs = n" and "256 ^ n = (2 :: nat) ^ LENGTH('a :: len)"
  shows "be_bytes n (unat (word_of_nat (be_val bs) :: 'a word)) = bs"
proof -
  have "be_val bs < 2 ^ LENGTH('a)"
    using be_val_less [of bs] assms by simp
  then have "unat (word_of_nat (be_val bs) :: 'a word) = be_val bs"
    by (simp add: unat_of_nat)
  with assms(1) show ?thesis
    using be_bytes_val [of bs] by simp
qed

lemma of_octets_octets [simp]:
  "v4_of_octets (v4_octets a) = a"
  "v6_of_octets (v6_octets b) = b"
  "port_of_bytes (port_bytes p) = p"
  by (simp_all add: v4_of_octets_def v4_octets_def v6_of_octets_def v6_octets_def
      port_of_bytes_def port_bytes_def word_of_be_bytes del: be_bytes.simps)

lemma octets_of_octets:
  "length bs = 4 \<Longrightarrow> v4_octets (v4_of_octets bs) = bs"
  "length bs = 16 \<Longrightarrow> v6_octets (v6_of_octets bs) = bs"
  "length bs = 2 \<Longrightarrow> port_bytes (port_of_bytes bs) = bs"
  by (simp_all add: v4_of_octets_def v4_octets_def v6_of_octets_def v6_octets_def
      port_of_bytes_def port_bytes_def be_bytes_of_word del: be_bytes.simps)

lemma sock_new_simps [simp]:
  "sock_ip (sock_new ip p) = ip" "sock_port (sock_new ip p) = p"
  by (cases ip; simp)+

lemma sock_new_inject [simp]:
  "sock_new i p = sock_new j q \<longleftrightarrow> i = j \<and> p = q"
  by (metis sock_new_simps)

section \<open>IPv4-mapped addresses\<close>

text \<open>
  \<open>to_ipv4_mapped\<close>: \<open>::ffff:a.b.c.d\<close> is the IPv4 address \<open>a.b.c.d\<close>; the upper 96 bits
  of the address are \<open>0xffff\<close>.
\<close>

definition to_ipv4_mapped :: "u128 \<Rightarrow> u32 option" where
  "to_ipv4_mapped a = (if drop_bit 32 a = 0xFFFF then Some (ucast a) else None)"

definition to_ipv6_mapped :: "u32 \<Rightarrow> u128" where
  "to_ipv6_mapped a = word_of_nat (0xFFFF * 2 ^ 32 + unat a)"

lemma unat_to_ipv6_mapped: "unat (to_ipv6_mapped a) = 0xFFFF * 2 ^ 32 + unat a"
proof -
  have a: "0xFFFF * 2 ^ 32 + unat a < 2 ^ LENGTH(128)"
    using u32_unat_less [of a] by simp
  have "unat (to_ipv6_mapped a) = (0xFFFF * 2 ^ 32 + unat a) mod 2 ^ LENGTH(128)"
    unfolding to_ipv6_mapped_def by (rule unat_of_nat)
  also have "\<dots> = 0xFFFF * 2 ^ 32 + unat a"
    using a by (rule mod_less)
  finally show ?thesis .
qed

lemma drop_bit_to_ipv6_mapped: "drop_bit 32 (to_ipv6_mapped a) = 0xFFFF"
proof -
  have "unat (drop_bit 32 (to_ipv6_mapped a)) = (0xFFFF * 2 ^ 32 + unat a) div 2 ^ 32"
    by (simp only: unat_drop_bit unat_to_ipv6_mapped)
  also have "\<dots> = unat (0xFFFF :: u128)"
    using u32_unat_less [of a] by simp
  finally show ?thesis
    by (simp only: unsigned_word_eqI)
qed

lemma ucast_to_ipv6_mapped: "(ucast (to_ipv6_mapped a) :: u32) = a"
proof -
  have "unat (ucast (to_ipv6_mapped a) :: u32) = unat a"
    using u32_unat_less [of a]
    by (simp add: unsigned_ucast_eq unat_to_ipv6_mapped take_bit_eq_mod mod_add_left_eq [symmetric])
  then show ?thesis
    by (simp only: unsigned_word_eqI)
qed

lemma mapped_mapped [simp]: "to_ipv4_mapped (to_ipv6_mapped a) = Some a"
  by (simp add: to_ipv4_mapped_def drop_bit_to_ipv6_mapped ucast_to_ipv6_mapped)

lemma to_ipv4_mapped_Some:
  assumes "to_ipv4_mapped a = Some b"
  shows "a = to_ipv6_mapped b"
proof -
  from assms have d: "drop_bit 32 a = 0xFFFF" and b: "b = ucast a"
    by (auto simp: to_ipv4_mapped_def split: if_splits)
  have "unat (drop_bit 32 a) = unat a div 2 ^ 32"
    by (rule unat_drop_bit)
  with d have q: "unat a div 2 ^ 32 = 0xFFFF"
    by simp
  have r: "unat b = unat a mod 2 ^ 32"
    by (simp add: b unsigned_ucast_eq take_bit_eq_mod)
  have "unat a = 2 ^ 32 * (unat a div 2 ^ 32) + unat a mod 2 ^ 32"
    by simp
  then have "unat a = unat (to_ipv6_mapped b)"
    by (simp only: q r unat_to_ipv6_mapped mult.commute)
  then show ?thesis
    by (simp only: unsigned_word_eqI)
qed

end
