(* ===== verification/Io.thy ===== *)
theory Io
  imports Net_Addr
begin

text \<open>
  Errors and streams. \<open>io_error\<close> is \<open>std::io::Error\<close> by what the program looks at: its
  kind, and either an operating-system error or one of the messages the program attaches
  (one constructor per message of the source) or a wrapped resolver error.

  \<open>conn\<close> is a byte stream with two ends. What the peer will send is the list \<open>rx\<close>,
  followed by the way the stream stops: end of file, an error, or silence. What the
  program has written is \<open>tx\<close>; \<open>tx_room\<close> bytes can still be written before writing
  fails or blocks. An operation is a function from the stream to an outcome and the new
  stream: \<open>Return\<close>, \<open>Raise\<close> (the \<open>Err\<close> that \<open>?\<close> propagates) or \<open>Pending\<close>
  (the operation never completes, which only a timeout turns into an error).
\<close>

section \<open>Errors\<close>

datatype io_kind =
    NotFound | PermissionDenied | ConnectionRefused | ConnectionReset | BrokenPipe
  | AddrInUse | InvalidInput | InvalidData | TimedOut | WriteZero | UnexpectedEof
  | OtherKind | UnlistedKind nat

text \<open>The messages of the source, in the order of the files that hold them.\<close>

datatype io_msg =
    NoLookupResult            \<comment> \<open>protocol.rs, dns.rs: the target has no addresses\<close>
  | EmptyDomain | BadDomainEncoding | BadAddressType
  | BadRequestHeader | BadReplyHeader | BadDomainLength
  | BadDatagramHeader | EmptyDatagram
  | EmptyAddressList | ConnectTargetTimeout | AllAttemptsFailed   \<comment> \<open>happy_eyeballs.rs\<close>
  | ProxyConnectTimeout | ProxyTaskGone | ClientCredentialPair     \<comment> \<open>client.rs\<close>
  | MethodNotAccepted | CredentialsRejected | NoRelayFamily
  | DatagramNotSent | ReceiveBufferTooSmall | RequestFailed u8
  | UdpTaskEnded | UdpTaskAborted                                  \<comment> \<open>server.rs\<close>
  | BadNegotiation | NoUsableMethod | BadAuthRequest | EmptyPassword | WrongCredentials
  | NegotiationTimeout | RequestTimeout
  | TcpIdleTimeout | TcpForwardStopped
  | UdpClientMismatch | UdpClientNotIp | UdpEndpointTaken

text \<open>
  Resolver errors come from the \<open>hickory\<close> library: values the program only tests with
  \<open>is_no_records_found\<close>, a parameter wherever it is used.
\<close>

type_synonym net_error = nat

datatype io_payload =
    OsError                      \<comment> \<open>no payload of the program's own\<close>
  | Message io_msg
  | Resolver net_error
  | TaskFailure                  \<comment> \<open>a wrapped \<open>JoinError\<close>\<close>
  | RuntimeText                  \<comment> \<open>the kept text of an error of the runtime's builder\<close>

datatype io_error = IoError (error_kind: io_kind) (error_payload: io_payload)

definition invalid_data :: "io_msg \<Rightarrow> io_error" where
  "invalid_data m = IoError InvalidData (Message m)"

definition eof_error :: io_error where
  "eof_error = IoError UnexpectedEof OsError"

lemma error_kind_simps [simp]:
  "error_kind (invalid_data m) = InvalidData"
  "error_kind eof_error = UnexpectedEof"
  by (simp_all add: invalid_data_def eof_error_def)

lemma invalid_data_simps [simp]:
  "invalid_data m = invalid_data n \<longleftrightarrow> m = n"
  "invalid_data m \<noteq> eof_error" "eof_error \<noteq> invalid_data m"
  by (auto simp: invalid_data_def eof_error_def)

section \<open>Streams\<close>

datatype stop = Eof | Fault io_error | Stall

datatype 'a outcome = Return 'a | Raise io_error | Pending

record conn =
  rx :: "u8 list"
  rx_end :: stop
  tx :: "u8 list"
  tx_room :: "nat option"
  tx_end :: stop
  c_local :: "io_error + socket_addr"
  c_peer :: "io_error + socket_addr"
  c_opt :: "io_error + unit"

type_synonym 'a io = "conn \<Rightarrow> 'a outcome \<times> conn"

definition io_return :: "'a \<Rightarrow> 'a io" where
  "io_return x c = (Return x, c)"

definition io_raise :: "io_error \<Rightarrow> 'a io" where
  "io_raise e c = (Raise e, c)"

definition io_bind :: "'a io \<Rightarrow> ('a \<Rightarrow> 'b io) \<Rightarrow> 'b io" where
  "io_bind m f c =
     (case m c of
        (Return x, c') \<Rightarrow> f x c'
      | (Raise e, c') \<Rightarrow> (Raise e, c')
      | (Pending, c') \<Rightarrow> (Pending, c'))"

definition io_lift :: "io_error + 'a \<Rightarrow> 'a io" where
  "io_lift r c = (case r of Inl e \<Rightarrow> (Raise e, c) | Inr x \<Rightarrow> (Return x, c))"

text \<open>
  \<open>read_exact\<close> takes exactly \<open>n\<close> bytes; on a stream that stops earlier it consumes what
  is there and fails with \<open>UnexpectedEof\<close> at end of file, fails with the stream's error, or
  waits forever.
\<close>

definition read_fault :: "stop \<Rightarrow> io_error option" where
  "read_fault s = (case s of Eof \<Rightarrow> Some eof_error | Fault e \<Rightarrow> Some e | Stall \<Rightarrow> None)"

definition stop_read :: "stop \<Rightarrow> 'a outcome" where
  "stop_read s = (case read_fault s of Some e \<Rightarrow> Raise e | None \<Rightarrow> Pending)"

definition read_exact :: "nat \<Rightarrow> u8 list io" where
  "read_exact n c =
     (if n \<le> length (rx c) then (Return (take n (rx c)), c\<lparr>rx := drop n (rx c)\<rparr>)
      else (stop_read (rx_end c), c\<lparr>rx := []\<rparr>))"

text \<open>
  \<open>write_all\<close>: a stream with room for fewer bytes takes what fits and then stops.
\<close>

definition write_fault :: "stop \<Rightarrow> io_error option" where
  "write_fault s =
     (case s of Eof \<Rightarrow> Some (IoError WriteZero OsError) | Fault e \<Rightarrow> Some e | Stall \<Rightarrow> None)"

definition stop_write :: "stop \<Rightarrow> 'a outcome" where
  "stop_write s = (case write_fault s of Some e \<Rightarrow> Raise e | None \<Rightarrow> Pending)"

definition write_all :: "u8 list \<Rightarrow> unit io" where
  "write_all bs c =
     (case tx_room c of
        None \<Rightarrow> (Return (), c\<lparr>tx := tx c @ bs\<rparr>)
      | Some n \<Rightarrow>
          if length bs \<le> n then (Return (), c\<lparr>tx := tx c @ bs, tx_room := Some (n - length bs)\<rparr>)
          else (stop_write (tx_end c), c\<lparr>tx := tx c @ take n bs, tx_room := Some 0\<rparr>))"

definition local_addr :: "socket_addr io" where
  "local_addr c = io_lift (c_local c) c"

definition peer_addr :: "socket_addr io" where
  "peer_addr c = io_lift (c_peer c) c"

text \<open>\<open>set_nodelay\<close>, \<open>set_read_timeout\<close> and the like: no effect on the bytes, may fail.\<close>

definition set_option :: "unit io" where
  "set_option c = io_lift (c_opt c) c"

text \<open>\<open>tokio::time::timeout\<close>: an operation that never completes becomes an error.\<close>

definition io_timeout :: "io_error \<Rightarrow> 'a io \<Rightarrow> 'a io" where
  "io_timeout e m c = (case m c of (Pending, c') \<Rightarrow> (Raise e, c') | r \<Rightarrow> r)"

text \<open>\<open>let _ = m\<close>: the result, error or not, is dropped; a wait is still a wait.\<close>

definition io_ignore :: "'a io \<Rightarrow> unit io" where
  "io_ignore m c =
     (case m c of (Pending, c') \<Rightarrow> (Pending, c') | (_, c') \<Rightarrow> (Return (), c'))"

text \<open>A byte slice as a reader, and a growing vector as a writer.\<close>

definition slice_reader :: "u8 list \<Rightarrow> conn" where
  "slice_reader bs =
     \<lparr>rx = bs, rx_end = Eof, tx = [], tx_room = None, tx_end = Eof,
      c_local = Inr (SockV4 0 0), c_peer = Inr (SockV4 0 0), c_opt = Inr ()\<rparr>"

lemma slice_reader_sel [simp]:
  "rx (slice_reader bs) = bs" "rx_end (slice_reader bs) = Eof"
  "tx (slice_reader bs) = []" "tx_room (slice_reader bs) = None"
  by (simp_all add: slice_reader_def)

subsection \<open>Equations\<close>

lemma rx_update_same: "rx c = r \<Longrightarrow> c\<lparr>rx := r\<rparr> = c"
  by auto

lemma rx_update_trans:
  "c1 = c\<lparr>rx := rx c1\<rparr> \<Longrightarrow> c2 = c1\<lparr>rx := rx c2\<rparr> \<Longrightarrow> c2 = c\<lparr>rx := rx c2\<rparr>"
  by (metis conn.surjective conn.update_convs(1))

lemma rx_update_end: "c1 = c\<lparr>rx := rx c1\<rparr> \<Longrightarrow> rx_end c1 = rx_end c"
  by (metis conn.select_convs(2) conn.surjective conn.update_convs(1))

lemma read_fault_simps [simp]:
  "read_fault Eof = Some eof_error" "read_fault (Fault e) = Some e" "read_fault Stall = None"
  by (simp_all add: read_fault_def)

lemma stop_read_simps [simp]:
  "stop_read Eof = Raise eof_error" "stop_read (Fault e) = Raise e" "stop_read Stall = Pending"
  by (simp_all add: stop_read_def)

lemma stop_read_conv [simp]:
  "stop_read s \<noteq> Return x"
  "stop_read s = Raise e \<longleftrightarrow> read_fault s = Some e"
  "stop_read s = Pending \<longleftrightarrow> read_fault s = None"
  by (simp_all add: stop_read_def split: option.splits)

lemma stop_write_conv [simp]:
  "stop_write s \<noteq> Return x"
  "stop_write s = Raise e \<longleftrightarrow> write_fault s = Some e"
  "stop_write s = Pending \<longleftrightarrow> write_fault s = None"
  by (simp_all add: stop_write_def split: option.splits)

lemma io_bind_Return [io_simps]: "m c = (Return x, c') \<Longrightarrow> io_bind m f c = f x c'"
  by (simp add: io_bind_def)

lemma io_bind_Raise [io_simps]: "m c = (Raise e, c') \<Longrightarrow> io_bind m f c = (Raise e, c')"
  by (simp add: io_bind_def)

lemma io_bind_Pending [io_simps]: "m c = (Pending, c') \<Longrightarrow> io_bind m f c = (Pending, c')"
  by (simp add: io_bind_def)

lemma io_bind_assoc: "io_bind (io_bind m f) g = io_bind m (\<lambda>x. io_bind (f x) g)"
  by (auto simp: fun_eq_iff io_bind_def split: prod.splits outcome.splits)

lemma io_bind_return_left [simp]: "io_bind (io_return x) f = f x"
  by (auto simp: fun_eq_iff io_bind_def io_return_def)

lemma io_bind_raise [simp]: "io_bind (io_raise e) f = io_raise e"
  by (auto simp: fun_eq_iff io_bind_def io_raise_def)

lemma io_bind_return_right [simp]: "io_bind m io_return = m"
  by (auto simp: fun_eq_iff io_bind_def io_return_def split: prod.splits outcome.splits)

lemma io_bind_eq_Return:
  "io_bind m f c = (Return y, c'') \<longleftrightarrow>
     (\<exists>x c'. m c = (Return x, c') \<and> f x c' = (Return y, c''))"
  by (auto simp: io_bind_def split: prod.splits outcome.splits)

lemma io_bind_eq_Raise:
  "io_bind m f c = (Raise e, c'') \<longleftrightarrow>
     m c = (Raise e, c'') \<or> (\<exists>x c'. m c = (Return x, c') \<and> f x c' = (Raise e, c''))"
  by (auto simp: io_bind_def split: prod.splits outcome.splits)

lemma io_return_simps [io_simps]:
  "io_return x c = (Return x, c)" "io_raise e c = (Raise e, c)"
  "io_lift (Inl e) c = (Raise e, c)" "io_lift (Inr x) c = (Return x, c)"
  by (simp_all add: io_return_def io_raise_def io_lift_def)

lemma read_exact_enough [io_simps]:
  "n \<le> length (rx c) \<Longrightarrow>
     read_exact n c = (Return (take n (rx c)), c\<lparr>rx := drop n (rx c)\<rparr>)"
  by (simp add: read_exact_def)

lemma read_exact_append:
  "rx c = bs @ r \<Longrightarrow> length bs = n \<Longrightarrow> read_exact n c = (Return bs, c\<lparr>rx := r\<rparr>)"
  by (simp add: read_exact_def)

lemma read_exact_short [io_simps]:
  "length (rx c) < n \<Longrightarrow> read_exact n c = (stop_read (rx_end c), c\<lparr>rx := []\<rparr>)"
  by (simp add: read_exact_def)

lemma read_exact_eq_Return:
  "read_exact n c = (Return bs, c') \<longleftrightarrow>
     length bs = n \<and> rx c = bs @ rx c' \<and> c' = c\<lparr>rx := rx c'\<rparr>"
  (is "?l = ?r")
proof
  show "?l \<Longrightarrow> ?r"
    by (auto simp: read_exact_def split: if_splits)
next
  assume r: ?r
  then have "read_exact n c = (Return bs, c\<lparr>rx := rx c'\<rparr>)"
    by (intro read_exact_append) auto
  with r show ?l by metis
qed

lemma write_all_free [io_simps]:
  "tx_room c = None \<Longrightarrow> write_all bs c = (Return (), c\<lparr>tx := tx c @ bs\<rparr>)"
  by (simp add: write_all_def)

section \<open>Readers\<close>

text \<open>
  A reader consumes a prefix of the input and touches nothing else; what it makes of that
  prefix does not depend on what comes after it (no lookahead); and a shorter prefix never
  satisfies it: it then stops the way the stream stops. Readers compose.
\<close>

definition is_reader :: "'a io \<Rightarrow> bool" where
  "is_reader m \<longleftrightarrow>
     (\<forall>c x c'. m c = (Return x, c') \<longrightarrow>
       (\<exists>u. rx c = u @ rx c' \<and> c' = c\<lparr>rx := rx c'\<rparr> \<and>
         (\<forall>r. m (c\<lparr>rx := u @ r\<rparr>) = (Return x, c\<lparr>rx := r\<rparr>)) \<and>
         (\<forall>k < length u. m (c\<lparr>rx := take k u\<rparr>) = (stop_read (rx_end c), c\<lparr>rx := []\<rparr>))))"

named_theorems reader_intros \<open>operations that are readers\<close>

lemma readerD:
  assumes "is_reader m" and "m c = (Return x, c')"
  obtains u where "rx c = u @ rx c'" and "c' = c\<lparr>rx := rx c'\<rparr>"
    and "\<And>r. m (c\<lparr>rx := u @ r\<rparr>) = (Return x, c\<lparr>rx := r\<rparr>)"
    and "\<And>k. k < length u \<Longrightarrow> m (c\<lparr>rx := take k u\<rparr>) = (stop_read (rx_end c), c\<lparr>rx := []\<rparr>)"
  using assms unfolding is_reader_def by blast

lemma io_bind_stop:
  "m c = (stop_read s, c') \<Longrightarrow> io_bind m f c = (stop_read s, c')"
  by (simp add: io_bind_def stop_read_def split: option.splits)

lemma reader_return [reader_intros]: "is_reader (io_return x)"
  by (auto simp: is_reader_def io_return_def)

lemma reader_raise [reader_intros]: "is_reader (io_raise e)"
  by (auto simp: is_reader_def io_raise_def)

lemma reader_read_exact [reader_intros]: "is_reader (read_exact n)"
  unfolding is_reader_def
proof (intro allI impI)
  fix c bs c'
  assume "read_exact n c = (Return bs, c')"
  then have "length bs = n" "rx c = bs @ rx c'" "c' = c\<lparr>rx := rx c'\<rparr>"
    by (simp_all add: read_exact_eq_Return)
  then show "\<exists>u. rx c = u @ rx c' \<and> c' = c\<lparr>rx := rx c'\<rparr> \<and>
      (\<forall>r. read_exact n (c\<lparr>rx := u @ r\<rparr>) = (Return bs, c\<lparr>rx := r\<rparr>)) \<and>
      (\<forall>k < length u. read_exact n (c\<lparr>rx := take k u\<rparr>) = (stop_read (rx_end c), c\<lparr>rx := []\<rparr>))"
    by (intro exI [of _ bs]) (simp add: read_exact_append read_exact_short)
qed

lemma reader_bind [reader_intros]:
  assumes m: "is_reader m" and f: "\<And>x. is_reader (f x)"
  shows "is_reader (io_bind m f)"
  unfolding is_reader_def
proof (intro allI impI)
  fix c y c'
  assume "io_bind m f c = (Return y, c')"
  then obtain x c1 where mc: "m c = (Return x, c1)" and fc: "f x c1 = (Return y, c')"
    by (auto simp: io_bind_eq_Return)
  obtain u where u: "rx c = u @ rx c1" "c1 = c\<lparr>rx := rx c1\<rparr>"
    "\<And>r. m (c\<lparr>rx := u @ r\<rparr>) = (Return x, c\<lparr>rx := r\<rparr>)"
    "\<And>k. k < length u \<Longrightarrow> m (c\<lparr>rx := take k u\<rparr>) = (stop_read (rx_end c), c\<lparr>rx := []\<rparr>)"
    using readerD [OF m mc] by blast
  obtain v where v: "rx c1 = v @ rx c'" "c' = c1\<lparr>rx := rx c'\<rparr>"
    "\<And>r. f x (c1\<lparr>rx := v @ r\<rparr>) = (Return y, c1\<lparr>rx := r\<rparr>)"
    "\<And>k. k < length v \<Longrightarrow> f x (c1\<lparr>rx := take k v\<rparr>) = (stop_read (rx_end c1), c1\<lparr>rx := []\<rparr>)"
    using readerD [OF f fc] by blast
  have c1: "c1\<lparr>rx := r\<rparr> = c\<lparr>rx := r\<rparr>" "rx_end c1 = rx_end c" for r
    by (subst u(2), simp)+
  have "rx c = (u @ v) @ rx c'"
    using u(1) v(1) by simp
  moreover have "c' = c\<lparr>rx := rx c'\<rparr>"
    using v(2) c1(1) by metis
  moreover have "io_bind m f (c\<lparr>rx := (u @ v) @ r\<rparr>) = (Return y, c\<lparr>rx := r\<rparr>)" for r
    using u(3) [of "v @ r"] v(3) [of r] by (simp add: io_bind_def c1)
  moreover have "io_bind m f (c\<lparr>rx := take k (u @ v)\<rparr>) = (stop_read (rx_end c), c\<lparr>rx := []\<rparr>)"
    if k: "k < length (u @ v)" for k
  proof (cases "k < length u")
    case True
    then show ?thesis
      using u(4) by (simp add: io_bind_stop)
  next
    case False
    then show ?thesis
      using u(3) [of "take (k - length u) v"] v(4) [of "k - length u"] k
      by (simp add: io_bind_def c1)
  qed
  ultimately show "\<exists>w. rx c = w @ rx c' \<and> c' = c\<lparr>rx := rx c'\<rparr> \<and>
      (\<forall>r. io_bind m f (c\<lparr>rx := w @ r\<rparr>) = (Return y, c\<lparr>rx := r\<rparr>)) \<and>
      (\<forall>k < length w. io_bind m f (c\<lparr>rx := take k w\<rparr>) = (stop_read (rx_end c), c\<lparr>rx := []\<rparr>))"
    by blast
qed

end
