(* ===== verification/Protocol.thy ===== *)
theory Protocol
  imports Io Rust_Str
begin

text \<open>
  \<open>src/protocol.rs\<close>: the SOCKS5 wire format. Targets (an address or a domain name, and a
  port), requests and replies on a stream in their blocking and asynchronous versions, and
  UDP datagrams in their three encoders and one parser.

  The interface \<open>target_codec\<close> is what the messages need of the target's encoding: a reader
  that inverts the writer, both ways. Its extension \<open>message_codec\<close> is a message with the
  three-byte header and a target; requests and replies, blocking and asynchronous, are four
  interpretations of it.
\<close>

section \<open>Constants and targets\<close>

definition CONNECT :: u8 where "CONNECT = 1"
definition UDP_ASSOCIATE :: u8 where "UDP_ASSOCIATE = 3"
definition SUCCESS :: u8 where "SUCCESS = 0"
definition SERVER_FAILURE :: u8 where "SERVER_FAILURE = 1"
definition HOST_UNREACHABLE :: u8 where "HOST_UNREACHABLE = 4"
definition CONNECTION_REFUSED :: u8 where "CONNECTION_REFUSED = 5"
definition COMMAND_UNSUPPORTED :: u8 where "COMMAND_UNSUPPORTED = 7"
definition ADDRESS_UNSUPPORTED :: u8 where "ADDRESS_UNSUPPORTED = 8"

lemmas status_defs =
  SUCCESS_def SERVER_FAILURE_def HOST_UNREACHABLE_def CONNECTION_REFUSED_def
  COMMAND_UNSUPPORTED_def ADDRESS_UNSUPPORTED_def

datatype host = Ip ip_addr | Domain string

record target =
  t_host :: host
  t_port :: u16

text \<open>
  \<open>Target::lookup\<close>: a domain is resolved by the operating system, the parameter
  \<open>to_socket_addrs\<close>.
\<close>

definition target_lookup ::
  "(string \<Rightarrow> u16 \<Rightarrow> io_error + socket_addr list) \<Rightarrow> target \<Rightarrow> io_error + socket_addr list" where
  "target_lookup to_socket_addrs t =
     (case (case t_host t of
              Ip ip \<Rightarrow> Inr [sock_new ip (t_port t)]
            | Domain name \<Rightarrow> to_socket_addrs name (t_port t)) of
        Inl e \<Rightarrow> Inl e
      | Inr addresses \<Rightarrow>
          if addresses = [] then Inl (IoError NotFound (Message NoLookupResult))
          else Inr addresses)"

definition target_from :: "socket_addr \<Rightarrow> target" where
  "target_from a = \<lparr>t_host = Ip (sock_ip a), t_port = sock_port a\<rparr>"

section \<open>Reading\<close>

definition read_target :: "u8 \<Rightarrow> target io" where
  "read_target atyp =
     io_bind
       (if atyp = 1 then
          io_bind (read_exact 4) (\<lambda>octets. io_return (Ip (IpV4 (v4_of_octets octets))))
        else if atyp = 3 then
          io_bind (read_exact 1) (\<lambda>len.
          if len ! 0 = 0 then io_raise (invalid_data EmptyDomain)
          else io_bind (read_exact (unat (len ! 0))) (\<lambda>name.
          case from_utf8 name of
            None \<Rightarrow> io_raise (invalid_data BadDomainEncoding)
          | Some name \<Rightarrow> io_return (Domain name)))
        else if atyp = 4 then
          io_bind (read_exact 16) (\<lambda>octets. io_return (Ip (IpV6 (v6_of_octets octets))))
        else io_raise (invalid_data BadAddressType))
       (\<lambda>host. io_bind (read_exact 2) (\<lambda>port.
        io_return \<lparr>t_host = host, t_port = port_of_bytes port\<rparr>))"

definition read_request :: "(u8 \<times> target) io" where
  "read_request =
     io_bind (read_exact 4) (\<lambda>header.
     if header ! 0 \<noteq> 5 \<or> header ! 2 \<noteq> 0 then io_raise (invalid_data BadRequestHeader)
     else io_bind (read_target (header ! 3)) (\<lambda>target. io_return (header ! 1, target)))"

definition read_reply :: "(u8 \<times> target) io" where
  "read_reply =
     io_bind (read_exact 4) (\<lambda>header.
     if header ! 0 \<noteq> 5 \<or> header ! 2 \<noteq> 0 then io_raise (invalid_data BadReplyHeader)
     else io_bind (read_target (header ! 3)) (\<lambda>target. io_return (header ! 1, target)))"

text \<open>
  The asynchronous readers await each \<open>read_exact\<close>; what a task sees of its own stream is
  the same sequence of operations.
\<close>

definition read_target_async :: "u8 \<Rightarrow> target io" where
  "read_target_async atyp =
     io_bind
       (if atyp = 1 then
          io_bind (read_exact 4) (\<lambda>octets. io_return (Ip (IpV4 (v4_of_octets octets))))
        else if atyp = 3 then
          io_bind (read_exact 1) (\<lambda>len.
          if len ! 0 = 0 then io_raise (invalid_data EmptyDomain)
          else io_bind (read_exact (unat (len ! 0))) (\<lambda>name.
          case from_utf8 name of
            None \<Rightarrow> io_raise (invalid_data BadDomainEncoding)
          | Some name \<Rightarrow> io_return (Domain name)))
        else if atyp = 4 then
          io_bind (read_exact 16) (\<lambda>octets. io_return (Ip (IpV6 (v6_of_octets octets))))
        else io_raise (invalid_data BadAddressType))
       (\<lambda>host. io_bind (read_exact 2) (\<lambda>port.
        io_return \<lparr>t_host = host, t_port = port_of_bytes port\<rparr>))"

definition read_request_async :: "(u8 \<times> target) io" where
  "read_request_async =
     io_bind (read_exact 4) (\<lambda>header.
     if header ! 0 \<noteq> 5 \<or> header ! 2 \<noteq> 0 then io_raise (invalid_data BadRequestHeader)
     else io_bind (read_target_async (header ! 3)) (\<lambda>target. io_return (header ! 1, target)))"

definition read_reply_async :: "(u8 \<times> target) io" where
  "read_reply_async =
     io_bind (read_exact 4) (\<lambda>header.
     if header ! 0 \<noteq> 5 \<or> header ! 2 \<noteq> 0 then io_raise (invalid_data BadReplyHeader)
     else io_bind (read_target_async (header ! 3)) (\<lambda>target. io_return (header ! 1, target)))"

section \<open>Writing\<close>

text \<open>
  The encoders append to a byte vector, which they return; \<open>encode_target\<close> leaves it as it
  was when it fails.
\<close>

definition encode_address :: "u8 list \<Rightarrow> socket_addr \<Rightarrow> u8 list" where
  "encode_address bytes a =
     (case sock_ip a of
        IpV4 ip \<Rightarrow> bytes @ [1] @ v4_octets ip
      | IpV6 ip \<Rightarrow> bytes @ [4] @ v6_octets ip) @ port_bytes (sock_port a)"

definition encode_target :: "u8 list \<Rightarrow> target \<Rightarrow> (io_error + unit) \<times> u8 list" where
  "encode_target bytes t =
     (case t_host t of
        Ip ip \<Rightarrow> (Inr (), encode_address bytes (sock_new ip (t_port t)))
      | Domain name \<Rightarrow>
          if name = [] \<or> length name > 255
          then (Inl (IoError InvalidInput (Message BadDomainLength)), bytes)
          else (Inr (), bytes @ [3, word_of_nat (length name)] @ as_bytes name
                        @ port_bytes (t_port t)))"

definition write_request :: "u8 \<Rightarrow> target \<Rightarrow> unit io" where
  "write_request command t =
     (case encode_target [5, command, 0] t of
        (Inl e, _) \<Rightarrow> io_raise e
      | (Inr _, bytes) \<Rightarrow> write_all bytes)"

definition write_reply :: "u8 \<Rightarrow> socket_addr \<Rightarrow> unit io" where
  "write_reply status a = write_all (encode_address [5, status, 0] a)"

definition write_request_async :: "u8 \<Rightarrow> target \<Rightarrow> unit io" where
  "write_request_async command t =
     (case encode_target [5, command, 0] t of
        (Inl e, _) \<Rightarrow> io_raise e
      | (Inr _, bytes) \<Rightarrow> write_all bytes)"

definition write_reply_async :: "u8 \<Rightarrow> socket_addr \<Rightarrow> unit io" where
  "write_reply_async status a = write_all (encode_address [5, status, 0] a)"

section \<open>Datagrams\<close>

definition parse_datagram :: "u8 list \<Rightarrow> io_error + (target \<times> u8 list)" where
  "parse_datagram bytes =
     (if length bytes < 4 \<or> take 3 bytes \<noteq> [0, 0, 0]
      then Inl (invalid_data BadDatagramHeader)
      else
        (case read_target (bytes ! 3) (slice_reader (drop 4 bytes)) of
           (Return target, reader) \<Rightarrow>
             if rx reader = [] then Inl (invalid_data EmptyDatagram)
             else Inr (target, rx reader)
         | (Raise e, _) \<Rightarrow> Inl e
         | (Pending, _) \<Rightarrow> Inl eof_error))"

definition encode_datagram :: "socket_addr \<Rightarrow> u8 list \<Rightarrow> u8 list" where
  "encode_datagram a payload = encode_address ([] @ [0, 0, 0]) a @ payload"

definition datagram_header_len :: "socket_addr \<Rightarrow> nat" where
  "datagram_header_len a = (if is_ipv4 (sock_ip a) then 10 else 22)"

text \<open>
  Writing into a buffer by index: \<open>bytes[i..i+n].copy_from_slice(src)\<close> panics unless the
  range is inside the buffer (\<open>None\<close>).
\<close>

definition copy_at :: "nat \<Rightarrow> u8 list \<Rightarrow> u8 list \<Rightarrow> u8 list option" where
  "copy_at i src bytes =
     (if i + length src \<le> length bytes
      then Some (take i bytes @ src @ drop (i + length src) bytes) else None)"

definition write_datagram_header :: "u8 list \<Rightarrow> socket_addr \<Rightarrow> u8 list option" where
  "write_datagram_header bytes a =
     Option.bind (copy_at 0 [0, 0, 0] bytes) (\<lambda>bytes.
     case sock_ip a of
       IpV4 ip \<Rightarrow>
         Option.bind (copy_at 3 [1] bytes) (\<lambda>bytes.
         Option.bind (copy_at 4 (v4_octets ip) bytes) (\<lambda>bytes.
         copy_at 8 (port_bytes (sock_port a)) bytes))
     | IpV6 ip \<Rightarrow>
         Option.bind (copy_at 3 [4] bytes) (\<lambda>bytes.
         Option.bind (copy_at 4 (v6_octets ip) bytes) (\<lambda>bytes.
         copy_at 20 (port_bytes (sock_port a)) bytes)))"

definition append_datagram_to ::
  "u8 list \<Rightarrow> target \<Rightarrow> u8 list \<Rightarrow> (io_error + unit) \<times> u8 list" where
  "append_datagram_to bytes t payload =
     (case encode_target ([] @ [0, 0, 0]) t of
        (Inl e, bytes) \<Rightarrow> (Inl e, bytes)
      | (Inr _, bytes) \<Rightarrow> (Inr (), bytes @ payload))"

definition encode_datagram_to :: "target \<Rightarrow> u8 list \<Rightarrow> io_error + u8 list" where
  "encode_datagram_to t payload =
     (case append_datagram_to [] t payload of
        (Inl e, _) \<Rightarrow> Inl e
      | (Inr _, bytes) \<Rightarrow> Inr bytes)"

section \<open>The wire image of a target\<close>

definition host_wire :: "host \<Rightarrow> u8 list option" where
  "host_wire h =
     (case h of
        Ip (IpV4 ip) \<Rightarrow> Some (1 # v4_octets ip)
      | Ip (IpV6 ip) \<Rightarrow> Some (4 # v6_octets ip)
      | Domain name \<Rightarrow>
          if name = [] \<or> length name > 255 then None
          else Some (3 # word_of_nat (length name) # as_bytes name))"

definition target_wire :: "target \<Rightarrow> u8 list option" where
  "target_wire t = map_option (\<lambda>bs. bs @ port_bytes (t_port t)) (host_wire (t_host t))"

text \<open>
  A target the wire format can carry. The last condition holds of every Rust \<open>String\<close>.
\<close>

definition wf_host :: "host \<Rightarrow> bool" where
  "wf_host h \<longleftrightarrow>
     (case h of
        Ip _ \<Rightarrow> True
      | Domain name \<Rightarrow> name \<noteq> [] \<and> length name \<le> 255 \<and> wf_str name)"

definition wf_target :: "target \<Rightarrow> bool" where
  "wf_target t \<longleftrightarrow> wf_host (t_host t)"

lemma encode_address_wire [wire_simps]:
  "encode_address bytes a = bytes @ encode_address [] a"
  by (simp add: encode_address_def split: ip_addr.splits)

lemma target_wire_from [wire_simps]: "target_wire (target_from a) = Some (encode_address [] a)"
  by (cases a)
    (simp_all add: target_wire_def host_wire_def target_from_def encode_address_def)

lemma encode_target_wire [wire_simps]:
  "encode_target bytes t =
     (case target_wire t of
        None \<Rightarrow> (Inl (IoError InvalidInput (Message BadDomainLength)), bytes)
      | Some bs \<Rightarrow> (Inr (), bytes @ bs))"
  by (auto simp: encode_target_def target_wire_def host_wire_def encode_address_def
      split: host.splits ip_addr.splits)

lemma wf_target_from [simp]: "wf_target (target_from a)"
  by (simp add: wf_target_def wf_host_def target_from_def)

lemma wf_host_wire: "wf_host h \<Longrightarrow> \<exists>a bs. host_wire h = Some (a # bs)"
  by (auto simp: wf_host_def host_wire_def split: host.splits ip_addr.splits)

lemma host_wire_inj: "wf_host h \<Longrightarrow> wf_host k \<Longrightarrow> host_wire h = host_wire k \<Longrightarrow> h = k"
  by (auto simp: wf_host_def host_wire_def split: host.splits ip_addr.splits
      dest: arg_cong [of _ _ v4_of_octets] arg_cong [of _ _ v6_of_octets])

section \<open>Reading inverts writing\<close>

text \<open>The first half of \<open>read_target\<close>, up to the host.\<close>

definition read_host :: "u8 \<Rightarrow> host io" where
  "read_host atyp =
     (if atyp = 1 then
          io_bind (read_exact 4) (\<lambda>octets. io_return (Ip (IpV4 (v4_of_octets octets))))
        else if atyp = 3 then
          io_bind (read_exact 1) (\<lambda>len.
          if len ! 0 = 0 then io_raise (invalid_data EmptyDomain)
          else io_bind (read_exact (unat (len ! 0))) (\<lambda>name.
          case from_utf8 name of
            None \<Rightarrow> io_raise (invalid_data BadDomainEncoding)
          | Some name \<Rightarrow> io_return (Domain name)))
        else if atyp = 4 then
          io_bind (read_exact 16) (\<lambda>octets. io_return (Ip (IpV6 (v6_of_octets octets))))
        else io_raise (invalid_data BadAddressType))"

lemma read_target_host:
  "read_target atyp = io_bind (read_host atyp) (\<lambda>host.
     io_bind (read_exact 2) (\<lambda>port.
     io_return \<lparr>t_host = host, t_port = port_of_bytes port\<rparr>))"
  by (simp add: read_target_def read_host_def)

lemma read_target_async_eq: "read_target_async = read_target"
  by (simp add: fun_eq_iff read_target_async_def read_target_def)

lemma read_host_wire:
  assumes "wf_host h" and "host_wire h = Some (a # bs)" and "rx c = bs @ r"
  shows "read_host a c = (Return h, c\<lparr>rx := r\<rparr>)"
proof (cases h)
  case (Ip ip)
  with assms show ?thesis
    by (cases ip)
      (auto simp: host_wire_def read_host_def io_bind_def io_return_def read_exact_append)
next
  case (Domain name)
  then have name: "name \<noteq> []" "length name \<le> 255" "wf_str name"
    using assms(1) by (auto simp: wf_host_def)
  then have a: "a = 3" and rx: "rx c = [word_of_nat (length name)] @ as_bytes name @ r"
    using assms(2,3) Domain by (auto simp: host_wire_def)
  have n: "unat (word_of_nat (length name) :: u8) = length name"
    using name(2) by simp
  then have "(word_of_nat (length name) :: u8) \<noteq> 0"
    using name(1) by (metis length_0_conv unat_0)
  with read_exact_append [OF rx] n show ?thesis
    by (simp add: a Domain read_host_def io_bind_def io_return_def from_utf8_as_bytes name(3)
        read_exact_append)
qed

lemma read_host_Return_ip:
  assumes "read_host a c = (Return h, c')" and "a \<noteq> 3"
  shows "wf_host h \<and> (\<exists>bs. host_wire h = Some (a # bs) \<and> rx c = bs @ rx c' \<and> c' = c\<lparr>rx := rx c'\<rparr>)"
  using assms
  by (auto simp: read_host_def io_bind_eq_Return io_return_def io_raise_def
      read_exact_eq_Return wf_host_def host_wire_def octets_of_octets split: if_splits)

lemma read_host_Return_domain:
  assumes "read_host 3 c = (Return h, c')"
  shows "wf_host h \<and> (\<exists>bs. host_wire h = Some (3 # bs) \<and> rx c = bs @ rx c' \<and> c' = c\<lparr>rx := rx c'\<rparr>)"
proof -
  from assms obtain len c2 ns name where
    l: "length len = 1" "rx c = len @ rx c2" "c2 = c\<lparr>rx := rx c2\<rparr>" "len ! 0 \<noteq> 0"
    and n: "length ns = unat (len ! 0)" "rx c2 = ns @ rx c'" "c' = c2\<lparr>rx := rx c'\<rparr>"
    and nm: "from_utf8 ns = Some name" and h: "h = Domain name"
    by (auto simp: read_host_def io_bind_eq_Return io_return_def io_raise_def
        read_exact_eq_Return split: if_splits option.splits)
  obtain b where b: "len = [b]"
    using l(1) by (auto simp: length_Suc_conv)
  note name = from_utf8_Some [OF nm]
  have ln: "length name = unat b"
    using name(3) n(1) b by simp
  then have "word_of_nat (length name) = b" "length name \<le> 255"
    using u8_unat_less [of b] by (simp_all del: u8_unat_less)
  moreover have "name \<noteq> []"
    using ln l(4) b by (auto simp: unat_eq_zero)
  moreover have "c' = c\<lparr>rx := rx c'\<rparr>"
    using l(3) n(3) by (rule rx_update_trans)
  ultimately show ?thesis
    using name l(2) n(2) b by (auto simp: h wf_host_def host_wire_def)
qed

lemma read_host_Raise:
  "read_host a c = (Raise e, c') \<Longrightarrow>
     e \<in> invalid_data ` {EmptyDomain, BadDomainEncoding, BadAddressType} \<or>
     read_fault (rx_end c) = Some e"
  by (auto simp: read_host_def io_bind_eq_Raise io_return_def io_raise_def read_exact_def
      split: if_splits option.splits)

lemma reader_read_host [reader_intros]: "is_reader (read_host a)"
  by (auto simp: read_host_def intro!: reader_intros split: option.splits)

lemma reader_read_target [reader_intros]: "is_reader (read_target a)"
  unfolding read_target_host by (intro reader_intros)

lemma target_wire_eq:
  "target_wire t = Some (a # bs) \<longleftrightarrow>
     (\<exists>hs. host_wire (t_host t) = Some (a # hs) \<and> bs = hs @ port_bytes (t_port t))"
  by (auto simp: target_wire_def host_wire_def split: host.splits ip_addr.splits)

lemma read_target_wire:
  assumes "wf_target t" and "target_wire t = Some (a # bs)" and "rx c = bs @ r"
  shows "read_target a c = (Return t, c\<lparr>rx := r\<rparr>)"
proof -
  obtain hs where hs: "host_wire (t_host t) = Some (a # hs)" "bs = hs @ port_bytes (t_port t)"
    using assms(2) by (auto simp: target_wire_eq)
  have "read_host a c = (Return (t_host t), c\<lparr>rx := port_bytes (t_port t) @ r\<rparr>)"
    using assms hs by (intro read_host_wire) (simp_all add: wf_target_def)
  then show ?thesis
    by (simp add: read_target_host io_bind_def read_exact_append io_return_def)
qed

lemma read_target_Return:
  assumes "read_target a c = (Return t, c')"
  shows "wf_target t \<and>
    (\<exists>bs. target_wire t = Some (a # bs) \<and> rx c = bs @ rx c' \<and> c' = c\<lparr>rx := rx c'\<rparr>)"
proof -
  obtain h c1 p where h: "read_host a c = (Return h, c1)"
    and p: "length p = 2" "rx c1 = p @ rx c'" "c' = c1\<lparr>rx := rx c'\<rparr>"
    and t: "t = \<lparr>t_host = h, t_port = port_of_bytes p\<rparr>"
    using assms
    by (auto simp: read_target_host io_bind_eq_Return io_return_def read_exact_eq_Return)
  obtain hs where hs: "wf_host h" "host_wire h = Some (a # hs)" "rx c = hs @ rx c1"
    "c1 = c\<lparr>rx := rx c1\<rparr>"
    using h read_host_Return_ip [OF h] read_host_Return_domain [of c h c1] by blast
  have "c' = c\<lparr>rx := rx c'\<rparr>"
    using hs(4) p(3) by (rule rx_update_trans)
  then show ?thesis
    using hs p by (auto simp: t wf_target_def target_wire_def octets_of_octets)
qed

lemma read_target_Raise:
  assumes "read_target a c = (Raise e, c')"
  shows "e \<in> invalid_data ` {EmptyDomain, BadDomainEncoding, BadAddressType} \<or>
    read_fault (rx_end c) = Some e"
proof -
  consider "read_host a c = (Raise e, c')"
    | h c1 where "read_host a c = (Return h, c1)" "read_exact 2 c1 = (Raise e, c')"
    using assms by (auto simp: read_target_host io_bind_eq_Raise io_return_def)
  then show ?thesis
  proof cases
    case 1
    then show ?thesis by (rule read_host_Raise)
  next
    case 2
    from 2(1) have "rx_end c1 = rx_end c"
      by (rule readerD [OF reader_read_host]) (rule rx_update_end)
    with 2(2) show ?thesis by (simp add: read_exact_def split: if_splits)
  qed
qed

section \<open>Messages with a target\<close>

locale target_codec =
  fixes wire :: "'t \<Rightarrow> u8 list option"
    and wf :: "'t \<Rightarrow> bool"
    and get :: "u8 \<Rightarrow> 't io"
  assumes wire_wf: "wf t \<Longrightarrow> \<exists>a bs. wire t = Some (a # bs)"
    and get_wire: "wf t \<Longrightarrow> wire t = Some (a # bs) \<Longrightarrow> rx c = bs @ r \<Longrightarrow>
      get a c = (Return t, c\<lparr>rx := r\<rparr>)"
    and get_Return: "get a c = (Return t, c') \<Longrightarrow>
      wf t \<and> (\<exists>bs. wire t = Some (a # bs) \<and> rx c = bs @ rx c' \<and> c' = c\<lparr>rx := rx c'\<rparr>)"
    and get_Raise: "get a c = (Raise e, c') \<Longrightarrow>
      error_kind e = InvalidData \<or> read_fault (rx_end c) = Some e"
    and get_reader: "is_reader (get a)"
begin

lemma wire_prefix_free:
  assumes "wf t" "wf t'" "wire t = Some bs" "wire t' = Some bs'" "bs @ r = bs' @ r'"
  shows "t = t' \<and> r = r'"
proof -
  obtain a cs where bs: "bs = a # cs" using wire_wf [OF assms(1)] assms(3) by auto
  obtain a' cs' where bs': "bs' = a' # cs'" using wire_wf [OF assms(2)] assms(4) by auto
  have a: "a' = a" and r: "cs' @ r' = cs @ r" using assms(5) bs bs' by auto
  have "get a (slice_reader (cs @ r)) = (Return t, slice_reader (cs @ r)\<lparr>rx := r\<rparr>)"
    using assms(1,3) bs by (intro get_wire) auto
  moreover have "get a (slice_reader (cs @ r)) = (Return t', slice_reader (cs @ r)\<lparr>rx := r'\<rparr>)"
    using assms(2,4) bs' r a by (intro get_wire) auto
  ultimately show ?thesis
    by (auto dest: arg_cong [where f = rx])
qed

end

locale message_codec = target_codec +
  fixes emb :: "'s \<Rightarrow> 't"
    and rd :: "(u8 \<times> 't) io"
    and wr :: "u8 \<Rightarrow> 's \<Rightarrow> unit io"
    and bad :: io_msg
  assumes rd_eq: "rd = io_bind (read_exact 4) (\<lambda>h.
      if h ! 0 \<noteq> 5 \<or> h ! 2 \<noteq> 0 then io_raise (invalid_data bad)
      else io_bind (get (h ! 3)) (\<lambda>t. io_return (h ! 1, t)))"
    and wr_eq: "wire (emb s) = Some bs \<Longrightarrow> wr k s = write_all ([5, k, 0] @ bs)"
begin

lemma rd_reader: "is_reader rd"
  unfolding rd_eq by (auto intro!: reader_intros get_reader)

lemma rd_wire:
  assumes "wf t" and "wire t = Some bs" and "rx c = [5, k, 0] @ bs @ r"
  shows "rd c = (Return (k, t), c\<lparr>rx := r\<rparr>)"
proof -
  obtain a cs where bs: "bs = a # cs"
    using wire_wf [OF assms(1)] assms(2) by auto
  have "rx c = [5, k, 0, a] @ cs @ r"
    using assms(3) bs by simp
  then have h: "read_exact 4 c = (Return [5, k, 0, a], c\<lparr>rx := cs @ r\<rparr>)"
    by (rule read_exact_append) simp
  have "get a (c\<lparr>rx := cs @ r\<rparr>) = (Return t, c\<lparr>rx := r\<rparr>)"
    using get_wire [of t a cs "c\<lparr>rx := cs @ r\<rparr>" r] assms(1,2) bs by simp
  then show ?thesis
    unfolding rd_eq by (simp add: io_bind_def h io_return_def)
qed

lemma rd_Return:
  assumes "rd c = (Return (k, t), c')"
  shows "wf t \<and> (\<exists>bs. wire t = Some bs \<and> rx c = [5, k, 0] @ bs @ rx c')"
proof -
  obtain h c1 where h: "length h = 4" "rx c = h @ rx c1"
    and v: "h ! 0 = 5" "h ! 2 = 0" "k = h ! 1" and g: "get (h ! 3) c1 = (Return t, c')"
    using assms unfolding rd_eq
    by (auto simp: io_bind_eq_Return read_exact_eq_Return io_return_def io_raise_def
        split: if_splits)
  have "h = [5, k, 0, h ! 3]"
    using h(1) v by (auto simp: length_Suc_conv numeral_eq_Suc)
  with get_Return [OF g] h(2) show ?thesis
    by (metis append.assoc append_Cons append_Nil)
qed

lemma rd_Raise:
  assumes "rd c = (Raise e, c')"
  shows "error_kind e = InvalidData \<or> read_fault (rx_end c) = Some e"
proof -
  consider "read_exact 4 c = (Raise e, c')"
    | h c1 where "read_exact 4 c = (Return h, c1)" "error_kind e = InvalidData"
    | h c1 where "read_exact 4 c = (Return h, c1)" "get (h ! 3) c1 = (Raise e, c')"
    using assms unfolding rd_eq
    by (auto simp: io_bind_eq_Raise io_return_def io_raise_def split: if_splits)
  then show ?thesis
  proof cases
    case 1
    then show ?thesis by (simp add: read_exact_def split: if_splits)
  next
    case 3
    then show ?thesis
      using get_Raise [OF 3(2)]
      by (auto simp: read_exact_eq_Return dest: rx_update_end)
  qed simp
qed

lemma rd_wr:
  assumes "wf (emb s)" and "wr k s w = (Return (), w')"
  obtains bs where "tx w' = tx w @ bs"
    and "\<And>c r. rx c = bs @ r \<Longrightarrow> rd c = (Return (k, emb s), c\<lparr>rx := r\<rparr>)"
    and "\<And>c j. j < length bs \<Longrightarrow> rx c = take j bs \<Longrightarrow>
      rd c = (stop_read (rx_end c), c\<lparr>rx := []\<rparr>)"
proof -
  obtain ws where ws: "wire (emb s) = Some ws"
    using wire_wf [OF assms(1)] by blast
  let ?bs = "[5, k, 0] @ ws"
  have tx: "tx w' = tx w @ ?bs"
    using assms(2) by (auto simp: wr_eq [OF ws] write_all_def split: option.splits if_splits)
  have rd: "rd c = (Return (k, emb s), c\<lparr>rx := r\<rparr>)" if "rx c = ?bs @ r" for c r
    using rd_wire [OF assms(1) ws, of c k r] that by simp
  have "rd c = (stop_read (rx_end c), c\<lparr>rx := []\<rparr>)" if "j < length ?bs" "rx c = take j ?bs" for c j
  proof -
    let ?c = "c\<lparr>rx := ?bs\<rparr>"
    have r: "rd ?c = (Return (k, emb s), ?c\<lparr>rx := []\<rparr>)"
      by (rule rd) simp
    obtain u where "rx ?c = u @ []"
      "\<And>k. k < length u \<Longrightarrow> rd (?c\<lparr>rx := take k u\<rparr>) = (stop_read (rx_end ?c), ?c\<lparr>rx := []\<rparr>)"
      by (rule readerD [OF rd_reader r]) auto
    then have "rd (c\<lparr>rx := take j ?bs\<rparr>) = (stop_read (rx_end c), c\<lparr>rx := []\<rparr>)"
      using that(1) by simp
    then show ?thesis
      by (simp only: rx_update_same [OF that(2)])
  qed
  with tx rd show ?thesis by (rule that)
qed

end

section \<open>The codecs of the program\<close>

interpretation tgt: target_codec target_wire wf_target read_target
proof
  show "wf_target t \<Longrightarrow> \<exists>a bs. target_wire t = Some (a # bs)" for t
    using wf_host_wire [of "t_host t"] by (auto simp: wf_target_def target_wire_def)
  show "read_target a c = (Raise e, c') \<Longrightarrow>
      error_kind e = InvalidData \<or> read_fault (rx_end c) = Some e" for a c e c'
    by (drule read_target_Raise) auto
qed (fact read_target_wire read_target_Return reader_read_target)+

interpretation tgt_async: target_codec target_wire wf_target read_target_async
  unfolding read_target_async_eq by (rule tgt.target_codec_axioms)

interpretation request: message_codec target_wire wf_target read_target
  "\<lambda>t. t" read_request write_request BadRequestHeader
  by unfold_locales
    (simp_all add: read_request_def write_request_def encode_target_wire)

interpretation reply: message_codec target_wire wf_target read_target
  target_from read_reply write_reply BadReplyHeader
  by unfold_locales
    (simp_all add: read_reply_def write_reply_def target_wire_from
      encode_address_wire [of "[5, k, 0]" for k])

interpretation request_async: message_codec target_wire wf_target read_target_async
  "\<lambda>t. t" read_request_async write_request_async BadRequestHeader
  by unfold_locales
    (simp_all add: read_request_async_def write_request_async_def encode_target_wire)

interpretation reply_async: message_codec target_wire wf_target read_target_async
  target_from read_reply_async write_reply_async BadReplyHeader
  by unfold_locales
    (simp_all add: read_reply_async_def write_reply_async_def target_wire_from
      encode_address_wire [of "[5, k, 0]" for k])

lemma async_eq:
  "read_request_async = read_request" "read_reply_async = read_reply"
  "write_request_async = write_request" "write_reply_async = write_reply"
  by (simp_all only: read_request_async_def read_request_def read_reply_async_def
      read_reply_def read_target_async_eq)
    (simp_all add: fun_eq_iff write_request_async_def write_request_def
      write_reply_async_def write_reply_def)

section \<open>Datagrams on the wire\<close>

lemma encode_datagram_to_wire [wire_simps]:
  "encode_datagram_to t p =
     (case target_wire t of
        None \<Rightarrow> Inl (IoError InvalidInput (Message BadDomainLength))
      | Some bs \<Rightarrow> Inr ([0, 0, 0] @ bs @ p))"
  by (auto simp: encode_datagram_to_def append_datagram_to_def encode_target_wire
      split: option.splits)

lemma encode_datagram_wire [wire_simps]:
  "encode_datagram a p = [0, 0, 0] @ encode_address [] a @ p"
  by (simp add: encode_datagram_def encode_address_wire [of "[0, 0, 0]"])

lemma encode_datagram_from: "encode_datagram_to (target_from a) p = Inr (encode_datagram a p)"
  by (simp add: encode_datagram_to_wire target_wire_from encode_datagram_wire)

lemma parse_datagram_wire:
  assumes "wf_target t" and "target_wire t = Some bs"
  shows "parse_datagram ([0, 0, 0] @ bs @ p) =
    (if p = [] then Inl (invalid_data EmptyDatagram) else Inr (t, p))"
proof -
  obtain a cs where bs: "bs = a # cs"
    using tgt.wire_wf [OF assms(1)] assms(2) by auto
  have "read_target a (slice_reader (cs @ p)) = (Return t, slice_reader (cs @ p)\<lparr>rx := p\<rparr>)"
    using assms bs by (intro tgt.get_wire) auto
  then show ?thesis
    by (simp add: parse_datagram_def bs)
qed

lemma parse_datagram_Inr:
  assumes "parse_datagram bytes = Inr (t, p)"
  shows "wf_target t \<and> p \<noteq> [] \<and> (\<exists>bs. target_wire t = Some bs \<and> bytes = [0, 0, 0] @ bs @ p)"
proof -
  from assms have len: "4 \<le> length bytes" and hd: "take 3 bytes = [0, 0, 0]"
    by (auto simp: parse_datagram_def split: if_splits)
  obtain c' where r: "read_target (bytes ! 3) (slice_reader (drop 4 bytes)) = (Return t, c')"
    and p: "rx c' = p" "p \<noteq> []"
    using assms by (auto simp: parse_datagram_def split: if_splits outcome.splits prod.splits)
  obtain bs where bs: "wf_target t" "target_wire t = Some (bytes ! 3 # bs)" "drop 4 bytes = bs @ p"
    using tgt.get_Return [OF r] p(1) by auto
  have "bytes = take 3 bytes @ bytes ! 3 # drop 4 bytes"
    using len id_take_nth_drop [of 3 bytes] by simp
  with hd bs p show ?thesis by simp
qed

lemma parse_datagram_iff:
  "parse_datagram bytes = Inr (t, p) \<longleftrightarrow>
     wf_target t \<and> p \<noteq> [] \<and> encode_datagram_to t p = Inr bytes"
  (is "?l \<longleftrightarrow> ?r")
proof
  assume ?l
  then show ?r
    by (auto simp: encode_datagram_to_wire dest!: parse_datagram_Inr)
next
  assume r: ?r
  then obtain bs where "target_wire t = Some bs" "bytes = [0, 0, 0] @ bs @ p"
    by (auto simp: encode_datagram_to_wire split: option.splits)
  with r parse_datagram_wire [of t bs p] show ?l by simp
qed

lemma parse_datagram_Inl_kind:
  "parse_datagram bytes = Inl e \<Longrightarrow> error_kind e \<in> {InvalidData, UnexpectedEof}"
  by (auto simp: parse_datagram_def dest!: tgt.get_Raise
      split: if_splits outcome.splits prod.splits)

section \<open>The in-place header\<close>

lemma length_encode_address: "length (encode_address [] a) = datagram_header_len a - 3"
  by (cases a) (simp_all add: encode_address_def datagram_header_len_def)

lemma datagram_header_len_le: "10 \<le> datagram_header_len a" "datagram_header_len a \<le> 22"
  by (simp_all add: datagram_header_len_def)

lemma copy_at_front:
  "length src = n \<Longrightarrow> n \<le> length rest \<Longrightarrow>
     copy_at (length done) src (done @ rest) = Some ((done @ src) @ drop n rest)"
  by (simp add: copy_at_def)

lemma write_datagram_header_eq:
  assumes "datagram_header_len a \<le> length bytes"
  shows "write_datagram_header bytes a =
    Some (encode_address [0, 0, 0] a @ drop (datagram_header_len a) bytes)"
  using assms
  by (cases a)
    (auto simp: write_datagram_header_def datagram_header_len_def encode_address_def copy_at_def
      take_Cons' drop_Cons' numeral_eq_Suc)

lemma write_datagram_header_panics:
  "length bytes < datagram_header_len a \<Longrightarrow> write_datagram_header bytes a = None"
  by (cases a)
    (auto simp: write_datagram_header_def datagram_header_len_def copy_at_def bind_eq_None_conv)

section \<open>Properties\<close>

text \<open>C32: Requests round trip. Whatever bytes \<open>write_request\<close> puts on a stream for a target the
  wire format can carry, \<open>read_request_async\<close> reads back as the same command and target,
  taking those bytes and no more; on a stream that ends inside the message it fails the way
  the stream ends.\<close>

theorem request_round_trip:
  assumes "wf_target t" and "write_request k t w = (Return (), w')"
  shows "\<exists>bs. tx w' = tx w @ bs \<and>
    (\<forall>c r. rx c = bs @ r \<longrightarrow> read_request_async c = (Return (k, t), c\<lparr>rx := r\<rparr>)) \<and>
    (\<forall>c j. j < length bs \<longrightarrow> rx c = take j bs \<longrightarrow>
      read_request_async c = (stop_read (rx_end c), c\<lparr>rx := []\<rparr>))"
  using request.rd_wr [OF assms] unfolding async_eq by metis

theorem request_round_trip_witness:
  "\<exists>bs. tx (snd (write_request CONNECT \<lparr>t_host = Domain ''a.b'', t_port = 443\<rparr> (slice_reader []))) = tx (slice_reader []) @ bs \<and>
    (\<forall>c r. rx c = bs @ r \<longrightarrow>
      read_request_async c = (Return (CONNECT, \<lparr>t_host = Domain ''a.b'', t_port = 443\<rparr>), c\<lparr>rx := r\<rparr>)) \<and>
    (\<forall>c j. j < length bs \<longrightarrow> rx c = take j bs \<longrightarrow>
      read_request_async c = (stop_read (rx_end c), c\<lparr>rx := []\<rparr>))"
proof -
  let ?t = "\<lparr>t_host = Domain ''a.b'', t_port = 443\<rparr>"
  have "wf_target ?t"
    by (simp add: wf_target_def wf_host_def wf_str_ascii byte_of_char_def)
  moreover have "write_request CONNECT ?t (slice_reader []) =
      (Return (), snd (write_request CONNECT ?t (slice_reader [])))"
    by (simp add: write_request_def encode_target_def write_all_def)
  ultimately show ?thesis
    by (rule request_round_trip)
qed

text \<open>Replies round trip, from the server's asynchronous writer to the client's blocking
  reader, for every status and address.\<close>

theorem reply_round_trip:
  assumes "write_reply_async s a w = (Return (), w')"
  shows "\<exists>bs. tx w' = tx w @ bs \<and>
    (\<forall>c r. rx c = bs @ r \<longrightarrow> read_reply c = (Return (s, target_from a), c\<lparr>rx := r\<rparr>)) \<and>
    (\<forall>c j. j < length bs \<longrightarrow> rx c = take j bs \<longrightarrow>
      read_reply c = (stop_read (rx_end c), c\<lparr>rx := []\<rparr>))"
  using reply.rd_wr [OF wf_target_from assms [unfolded async_eq]] by metis

theorem reply_round_trip_witness:
  "\<exists>bs. tx (snd (write_reply_async SUCCESS (SockV6 1 80 7 2) (slice_reader []))) = tx (slice_reader []) @ bs \<and>
    (\<forall>c r. rx c = bs @ r \<longrightarrow>
      read_reply c = (Return (SUCCESS, target_from (SockV6 1 80 7 2)), c\<lparr>rx := r\<rparr>)) \<and>
    (\<forall>c j. j < length bs \<longrightarrow> rx c = take j bs \<longrightarrow>
      read_reply c = (stop_read (rx_end c), c\<lparr>rx := []\<rparr>))"
  by (rule reply_round_trip) (simp add: write_reply_async_def write_all_def)

text \<open>The request reader accepts nothing but what the request writer produces: a request it
  returns is well formed, the bytes it took are the ones \<open>write_request_async\<close> writes for
  that request, and the rest of the input and the output are as they were.\<close>

theorem request_canonical:
  assumes "read_request_async c = (Return (k, t), c')"
  shows "wf_target t \<and> (\<exists>bs. rx c = bs @ rx c' \<and> c' = c\<lparr>rx := rx c'\<rparr> \<and>
    (\<forall>w. tx_room w = None \<longrightarrow> write_request_async k t w = (Return (), w\<lparr>tx := tx w @ bs\<rparr>)))"
proof -
  obtain bs where bs: "wf_target t" "target_wire t = Some bs" "rx c = [5, k, 0] @ bs @ rx c'"
    using request_async.rd_Return [OF assms] by blast
  moreover have "c' = c\<lparr>rx := rx c'\<rparr>"
    using request_async.rd_reader assms by (rule readerD)
  ultimately show ?thesis
    by (intro conjI exI [of _ "[5, k, 0] @ bs"])
      (auto simp: write_request_async_def encode_target_wire write_all_free)
qed

theorem request_canonical_witness:
  "wf_target \<lparr>t_host = Ip (IpV4 0x7F000001), t_port = 80\<rparr> \<and>
   (\<exists>bs. rx (slice_reader [5, 1, 0, 1, 127, 0, 0, 1, 0, 80, 9]) = bs @ rx (slice_reader [9]) \<and>
     slice_reader [9] =
       (slice_reader [5, 1, 0, 1, 127, 0, 0, 1, 0, 80, 9])\<lparr>rx := rx (slice_reader [9])\<rparr> \<and>
    (\<forall>w. tx_room w = None \<longrightarrow>
      write_request_async 1 \<lparr>t_host = Ip (IpV4 0x7F000001), t_port = 80\<rparr> w =
        (Return (), w\<lparr>tx := tx w @ bs\<rparr>)))"
proof -
  let ?c = "slice_reader [5, 1, 0, 1, 127, 0, 0, 1, 0, 80, 9]"
  have "read_request_async ?c =
      (Return (1, \<lparr>t_host = Ip (IpV4 0x7F000001), t_port = 80\<rparr>), slice_reader [9])"
    by (simp add: read_request_async_def read_target_async_def io_bind_def read_exact_def
        io_return_def slice_reader_def v4_of_octets_def port_of_bytes_def be_val_def)
  then show ?thesis by (rule request_canonical)
qed

text \<open>Every failure of the request reader is either \<open>InvalidData\<close> (the kind that makes
  the server answer with a status) or the stream's own failure; it is never anything else.\<close>

theorem request_error_kinds:
  assumes "read_request_async c = (Raise e, c')"
  shows "error_kind e = InvalidData \<or> read_fault (rx_end c) = Some e"
  using assms by (rule request_async.rd_Raise)

theorem request_error_kinds_witness:
  "error_kind (invalid_data EmptyDomain) = InvalidData \<or>
   read_fault Eof = Some (invalid_data EmptyDomain)"
proof -
  have "read_request_async (slice_reader [5, 1, 0, 3, 0]) =
      (Raise (invalid_data EmptyDomain), slice_reader [])"
    by (simp add: read_request_async_def read_target_async_def io_bind_def read_exact_def
        io_raise_def slice_reader_def)
  from request_error_kinds [OF this] show ?thesis by simp
qed

text \<open>C33: The datagram parser inverts the encoder exactly: it accepts a packet with a target and a
  payload if and only if the payload is not empty and the packet is what
  \<open>encode_datagram_to\<close> makes of them.\<close>

theorem datagram_parse_iff_encoded:
  "parse_datagram bytes = Inr (t, p) \<longleftrightarrow>
     wf_target t \<and> p \<noteq> [] \<and> encode_datagram_to t p = Inr bytes"
  by (rule parse_datagram_iff)

text \<open>Packing in place. A receive buffer with the payload behind a gap of
  \<open>datagram_header_len\<close> bytes becomes, when the header is written into the gap,
  exactly the packet \<open>encode_datagram\<close> would build; nothing panics and the bytes after the
  payload are untouched.\<close>

theorem in_place_packing:
  assumes "length gap = datagram_header_len a"
  shows "write_datagram_header (gap @ payload @ rest) a = Some (encode_datagram a payload @ rest)"
  using write_datagram_header_eq [of a "gap @ payload @ rest"] assms
    encode_address_wire [of "[0, 0, 0]" a]
  by (simp add: encode_datagram_wire)

theorem in_place_packing_witness:
  "write_datagram_header (replicate 10 0 @ [1, 2, 3] @ [9]) (SockV4 0x01020304 53) =
     Some (encode_datagram (SockV4 0x01020304 53) [1, 2, 3] @ [9])"
  by (rule in_place_packing) (simp add: datagram_header_len_def)

text \<open>A packet without payload, which both \<open>encode_datagram\<close> and the relay's in-place packing
  produce from an empty datagram, is refused by the parser on the other side.\<close>

theorem empty_datagram_refused:
  "parse_datagram (encode_datagram a []) = Inl (invalid_data EmptyDatagram)"
  using parse_datagram_wire [OF wf_target_from target_wire_from, of a "[]"]
  by (simp add: encode_datagram_wire)

end
