(* ===== verification/Registry.thy ===== *)
theory Registry
  imports Protocol
begin

text \<open>
  The UDP associations of \<open>src/server.rs\<close>: \<open>Association\<close> and its \<open>accepts\<close>, and
  the \<open>AssociationRegistry\<close> that finds the association of a datagram by its source.

  Associations are shared (\<open>Arc\<close>) between the registry, the control connection and the
  flows, and their fields change behind the reference. They live in a store \<open>nat \<Rightarrow>
  association\<close>, and the registry holds references into it. The registry is behind a mutex,
  so every operation is one step; \<open>reg_step\<close> interleaves the operations of any number of
  control connections and of the datagram loop.

  The abstract view is a table of sessions: for every association its canonical client
  address and the port it is bound to, if any. Insertion, lookup and removal are operations
  of that table.
\<close>

section \<open>Associations\<close>

text \<open>
  \<open>flows\<close> maps a target to a reference to its flow slot, \<open>preferred\<close> to the index of the
  address to try first. \<open>alive\<close> and \<open>stopped\<close> are the atomic flag and the cancellation
  token.
\<close>

record association =
  client_ip :: ip_addr
  requested_port :: u16
  endpoint :: "socket_addr option"
  alive :: bool
  stopped :: bool
  flows :: "target \<rightharpoonup> nat"
  preferred :: "target \<rightharpoonup> nat"

type_synonym store = "nat \<Rightarrow> association"

record registry =
  entries :: "u64 \<rightharpoonup> nat"
  endpoints :: "socket_addr \<rightharpoonup> u64"
  pending :: "ip_addr \<rightharpoonup> u64"

definition reg_default :: registry where
  "reg_default = \<lparr>entries = Map.empty, endpoints = Map.empty, pending = Map.empty\<rparr>"

definition normalize_ip :: "ip_addr \<Rightarrow> ip_addr" where
  "normalize_ip ip =
     (case ip of
        IpV6 ip \<Rightarrow> (case to_ipv4_mapped ip of Some v4 \<Rightarrow> IpV4 v4 | None \<Rightarrow> IpV6 ip)
      | IpV4 a \<Rightarrow> IpV4 a)"

definition endpoint_key :: "socket_addr \<Rightarrow> socket_addr" where
  "endpoint_key address = sock_new (normalize_ip (sock_ip address)) (sock_port address)"

text \<open>\<open>Association::accepts\<close>, with the endpoint it leaves behind.\<close>

definition accepts :: "association \<Rightarrow> socket_addr \<Rightarrow> bool \<times> association" where
  "accepts a source =
     (if normalize_ip (sock_ip source) \<noteq> normalize_ip (client_ip a) \<or>
         (requested_port a \<noteq> 0 \<and> requested_port a \<noteq> sock_port source)
      then (False, a)
      else
        (case endpoint a of
           Some existing \<Rightarrow>
             if endpoint_key existing = endpoint_key source
             then (True, a\<lparr>endpoint := Some source\<rparr>)
             else (False, a)
         | None \<Rightarrow> (True, a\<lparr>endpoint := Some source\<rparr>)))"

section \<open>The registry\<close>

definition reg_insert :: "store \<Rightarrow> u64 \<Rightarrow> nat \<Rightarrow> registry \<Rightarrow> bool \<times> registry" where
  "reg_insert h aid assoc r =
     (let ip = normalize_ip (client_ip (h assoc)) in
      if requested_port (h assoc) = 0 then
        (if pending r ip \<noteq> None then (False, r)
         else (True, r\<lparr>pending := (pending r)(ip \<mapsto> aid), entries := (entries r)(aid \<mapsto> assoc)\<rparr>))
      else
        (let ep = sock_new ip (requested_port (h assoc)) in
         if endpoints r ep \<noteq> None then (False, r)
         else (True, r\<lparr>endpoints := (endpoints r)(ep \<mapsto> aid),
                       entries := (entries r)(aid \<mapsto> assoc)\<rparr>)))"

definition reg_find ::
  "socket_addr \<Rightarrow> store \<times> registry \<Rightarrow> nat option \<times> store \<times> registry" where
  "reg_find source st =
     (case st of (h, r) \<Rightarrow>
      let ep = endpoint_key source in
      case endpoints r ep of
        Some aid \<Rightarrow>
          (case entries r aid of
             None \<Rightarrow> (None, h, r)
           | Some a \<Rightarrow>
               if alive (h a) then
                 (case accepts (h a) source of
                    (ok, a') \<Rightarrow> (if ok then Some a else None, h(a := a'), r))
               else (None, h, r))
      | None \<Rightarrow>
          (let ip = normalize_ip (sock_ip source) in
           case pending r ip of
             None \<Rightarrow> (None, h, r)
           | Some aid \<Rightarrow>
               (case entries r aid of
                  None \<Rightarrow> (None, h, r)
                | Some a \<Rightarrow>
                    if \<not> alive (h a) then (None, h, r)
                    else
                      (case accepts (h a) source of
                         (ok, a') \<Rightarrow>
                           if \<not> ok then (None, h(a := a'), r)
                           else (Some a, h(a := a'),
                                 r\<lparr>pending := (pending r)(ip := None),
                                   endpoints := (endpoints r)(ep \<mapsto> aid)\<rparr>)))))"

definition reg_remove :: "store \<Rightarrow> u64 \<Rightarrow> registry \<Rightarrow> registry" where
  "reg_remove h aid r =
     (case entries r aid of
        None \<Rightarrow> r
      | Some a \<Rightarrow>
          (let r = r\<lparr>entries := (entries r)(aid := None)\<rparr>;
               ip = normalize_ip (client_ip (h a));
               ep =
                 (if requested_port (h a) \<noteq> 0 then Some (sock_new ip (requested_port (h a)))
                  else map_option endpoint_key (endpoint (h a)))
           in case ep of
                Some ep \<Rightarrow>
                  if endpoints r ep = Some aid
                  then r\<lparr>endpoints := (endpoints r)(ep := None)\<rparr> else r
              | None \<Rightarrow>
                  if pending r ip = Some aid
                  then r\<lparr>pending := (pending r)(ip := None)\<rparr> else r))"

section \<open>Canonical endpoints\<close>

interpretation ip_key: canonical normalize_ip
proof
  show "normalize_ip (normalize_ip ip) = normalize_ip ip" for ip
    by (cases ip) (auto simp: normalize_ip_def split: option.splits)
qed

interpretation ep_key: canonical endpoint_key
  by unfold_locales (simp add: endpoint_key_def ip_key.canon_idem)

lemma endpoint_key_eq_iff:
  "endpoint_key a = endpoint_key b \<longleftrightarrow>
     normalize_ip (sock_ip a) = normalize_ip (sock_ip b) \<and> sock_port a = sock_port b"
  by (simp add: endpoint_key_def)

section \<open>Sessions\<close>

text \<open>
  What an association stands for: its canonical client address and the port it is bound to.
\<close>

definition bound_port :: "association \<Rightarrow> u16 option" where
  "bound_port a =
     (if requested_port a \<noteq> 0 then Some (requested_port a) else map_option sock_port (endpoint a))"

type_synonym session = "ip_addr \<times> u16 option"

definition session_of :: "association \<Rightarrow> session" where
  "session_of a = (normalize_ip (client_ip a), bound_port a)"

definition sessions :: "store \<times> registry \<Rightarrow> u64 \<rightharpoonup> session" where
  "sessions st aid = map_option (\<lambda>a. session_of (fst st a)) (entries (snd st) aid)"

text \<open>The endpoint of an association agrees with its client address and requested port.\<close>

definition assoc_ok :: "association \<Rightarrow> bool" where
  "assoc_ok a \<longleftrightarrow>
     (\<forall>e. endpoint a = Some e \<longrightarrow>
        normalize_ip (sock_ip e) = normalize_ip (client_ip a) \<and>
        (requested_port a \<noteq> 0 \<longrightarrow> sock_port e = requested_port a))"

text \<open>
  The invariant: the two indexes are exactly the sessions, read the other way round, and no
  two ids share an association.
\<close>

definition indexed :: "(u64 \<rightharpoonup> session) \<Rightarrow> registry \<Rightarrow> bool" where
  "indexed t r \<longleftrightarrow>
     (\<forall>k i. endpoints r k = Some i \<longleftrightarrow> (\<exists>ip p. k = sock_new ip p \<and> t i = Some (ip, Some p))) \<and>
     (\<forall>ip i. pending r ip = Some i \<longleftrightarrow> t i = Some (ip, None))"

definition reg_inv :: "store \<times> registry \<Rightarrow> bool" where
  "reg_inv st \<longleftrightarrow>
     indexed (sessions st) (snd st) \<and>
     inj_on (entries (snd st)) (dom (entries (snd st))) \<and>
     (\<forall>a \<in> ran (entries (snd st)). assoc_ok (fst st a))"

subsection \<open>One association\<close>

lemma normalize_session [simp]: "normalize_ip (fst (session_of a)) = fst (session_of a)"
  by (simp add: session_of_def ip_key.canon_idem)

text \<open>An association takes a datagram exactly when its session has room for the source.\<close>

lemma accepts_eq:
  assumes "assoc_ok a"
  shows "accepts a source =
    (if fst (session_of a) = normalize_ip (sock_ip source) \<and>
        snd (session_of a) \<in> {None, Some (sock_port source)}
     then (True, a\<lparr>endpoint := Some source\<rparr>) else (False, a))"
  using assms
  by (auto simp: accepts_def session_of_def bound_port_def assoc_ok_def endpoint_key_eq_iff
      split: option.splits)

lemma session_of_bind:
  assumes "fst (session_of a) = normalize_ip (sock_ip source)"
    and "snd (session_of a) \<in> {None, Some (sock_port source)}"
  shows "session_of (a\<lparr>endpoint := Some source\<rparr>) =
    (normalize_ip (sock_ip source), Some (sock_port source))"
  using assms by (auto simp: session_of_def bound_port_def split: if_splits)

lemma assoc_ok_bind:
  assumes "fst (session_of a) = normalize_ip (sock_ip source)"
    and "snd (session_of a) \<in> {None, Some (sock_port source)}"
  shows "assoc_ok (a\<lparr>endpoint := Some source\<rparr>)"
  using assms by (auto simp: session_of_def bound_port_def assoc_ok_def split: if_splits)

subsection \<open>Indexes and tables\<close>

lemma sessions_Some:
  "sessions st i = Some s \<longleftrightarrow> (\<exists>a. entries (snd st) i = Some a \<and> session_of (fst st a) = s)"
  by (auto simp: sessions_def)

lemma indexed_unique:
  assumes "indexed t r" "t i = Some s" "t j = Some s"
  shows "i = j"
proof -
  obtain ip po where s: "s = (ip, po)" by (cases s)
  show ?thesis
  proof (cases po)
    case None
    then have "pending r ip = Some i" "pending r ip = Some j"
      using assms s by (auto simp: indexed_def)
    then show ?thesis by simp
  next
    case (Some p)
    then have "endpoints r (sock_new ip p) = Some i" "endpoints r (sock_new ip p) = Some j"
      using assms s by (auto simp: indexed_def)
    then show ?thesis by simp
  qed
qed

lemma indexed_endpoint:
  "indexed t r \<Longrightarrow> endpoints r (sock_new ip p) = Some i \<longleftrightarrow> t i = Some (ip, Some p)"
  by (auto simp: indexed_def)

lemma indexed_pending:
  "indexed t r \<Longrightarrow> pending r ip = Some i \<longleftrightarrow> t i = Some (ip, None)"
  by (simp add: indexed_def)

lemma endpoint_free:
  "indexed t r \<Longrightarrow> endpoints r (sock_new ip p) = None \<longleftrightarrow> (ip, Some p) \<notin> ran t"
  by (simp add: ran_def indexed_endpoint flip: not_Some_eq)

lemma pending_free:
  "indexed t r \<Longrightarrow> pending r ip = None \<longleftrightarrow> (ip, None) \<notin> ran t"
  by (simp add: ran_def indexed_pending flip: not_Some_eq)

lemmas indexed_free = endpoint_free pending_free

text \<open>Binding, adding and dropping a session keep the indexes in step.\<close>

lemma indexed_add_pending:
  assumes "indexed t r" "t i = None" "pending r ip = None"
  shows "indexed (t(i \<mapsto> (ip, None))) (r\<lparr>pending := (pending r)(ip \<mapsto> i), entries := es\<rparr>)"
  using assms indexed_free [OF assms(1)] by (auto simp: indexed_def ran_def)

lemma indexed_add_endpoint:
  assumes "indexed t r" "t i = None" "endpoints r (sock_new ip p) = None"
  shows "indexed (t(i \<mapsto> (ip, Some p)))
    (r\<lparr>endpoints := (endpoints r)(sock_new ip p \<mapsto> i), entries := es\<rparr>)"
  using assms indexed_free [OF assms(1)] by (auto simp: indexed_def ran_def)

lemma indexed_bind:
  assumes "indexed t r" "t i = Some (ip, None)" "endpoints r (sock_new ip p) = None"
  shows "indexed (t(i \<mapsto> (ip, Some p)))
    (r\<lparr>pending := (pending r)(ip := None),
       endpoints := (endpoints r)(sock_new ip p \<mapsto> i)\<rparr>)"
  using assms indexed_unique [OF assms(1)] indexed_free [OF assms(1)]
  by (auto simp: indexed_def ran_def)

lemma indexed_drop_endpoint:
  assumes "indexed t r" "t i = Some (ip, Some p)"
  shows "indexed (t(i := None))
    (r\<lparr>entries := es, endpoints := (endpoints r)(sock_new ip p := None)\<rparr>)"
  using assms indexed_unique [OF assms(1)] by (auto simp: indexed_def)

lemma indexed_drop_pending:
  assumes "indexed t r" "t i = Some (ip, None)"
  shows "indexed (t(i := None)) (r\<lparr>entries := es, pending := (pending r)(ip := None)\<rparr>)"
  using assms indexed_unique [OF assms(1)] by (auto simp: indexed_def)

subsection \<open>The operations on the table of sessions\<close>

text \<open>What a change of one association does to the table.\<close>

lemma sessions_set:
  assumes "inj_on (entries r) (dom (entries r))" "entries r i = Some a"
  shows "sessions (h(a := x), r) = (sessions (h, r))(i \<mapsto> session_of x)"
proof
  fix j
  show "sessions (h(a := x), r) j = ((sessions (h, r))(i \<mapsto> session_of x)) j"
  proof (cases "entries r j")
    case (Some b)
    then show ?thesis
      using assms by (auto simp: sessions_def dest: inj_onD [of _ _ j i])
  qed (use assms in \<open>auto simp: sessions_def\<close>)
qed

lemma sessions_indexes [simp]:
  "sessions (h, r\<lparr>endpoints := es\<rparr>) = sessions (h, r)"
  "sessions (h, r\<lparr>pending := ps\<rparr>) = sessions (h, r)"
  by (simp_all add: sessions_def fun_eq_iff)

lemma sessions_entries [simp]:
  "sessions (h, r\<lparr>entries := (entries r)(i \<mapsto> a)\<rparr>) = (sessions (h, r))(i \<mapsto> session_of (h a))"
  "sessions (h, r\<lparr>entries := (entries r)(i := None)\<rparr>) = (sessions (h, r))(i := None)"
  by (simp_all add: sessions_def fun_eq_iff)

text \<open>The session a datagram belongs to: the one bound to its source, else the unbound one.\<close>

definition owner :: "(u64 \<rightharpoonup> session) \<Rightarrow> socket_addr \<Rightarrow> u64 \<Rightarrow> bool" where
  "owner t source i \<longleftrightarrow>
     (let ip = normalize_ip (sock_ip source); p = sock_port source in
      t i = Some (ip, Some p) \<or> (t i = Some (ip, None) \<and> (ip, Some p) \<notin> ran t))"

lemma reg_invD:
  assumes "reg_inv (h, r)"
  shows "indexed (sessions (h, r)) r" "inj_on (entries r) (dom (entries r))"
    "entries r i = Some a \<Longrightarrow> assoc_ok (h a)"
  using assms by (auto simp: reg_inv_def ran_def)

lemma owner_unique:
  assumes "reg_inv (h, r)" "owner (sessions (h, r)) source i" "owner (sessions (h, r)) source j"
  shows "i = j"
  using assms indexed_unique [OF reg_invD(1) [OF assms(1)]]
  by (auto simp: owner_def Let_def ran_def)

lemma owner_accepts:
  assumes inv: "reg_inv (h, r)" and i: "entries r i = Some a"
    and own: "owner (sessions (h, r)) source i"
  shows "accepts (h a) source = (True, (h a)\<lparr>endpoint := Some source\<rparr>)"
    and "session_of ((h a)\<lparr>endpoint := Some source\<rparr>) =
      (normalize_ip (sock_ip source), Some (sock_port source))"
    and "assoc_ok ((h a)\<lparr>endpoint := Some source\<rparr>)"
proof -
  have fit: "fst (session_of (h a)) = normalize_ip (sock_ip source)"
    "snd (session_of (h a)) \<in> {None, Some (sock_port source)}"
    using own i by (auto simp: owner_def Let_def sessions_def)
  show "accepts (h a) source = (True, (h a)\<lparr>endpoint := Some source\<rparr>)"
    using fit reg_invD(3) [OF inv i] by (simp add: accepts_eq)
  show "session_of ((h a)\<lparr>endpoint := Some source\<rparr>) =
      (normalize_ip (sock_ip source), Some (sock_port source))"
    using fit by (rule session_of_bind)
  show "assoc_ok ((h a)\<lparr>endpoint := Some source\<rparr>)"
    using fit by (rule assoc_ok_bind)
qed

lemma owner_cases:
  assumes inv: "reg_inv (h, r)" and i: "owner (sessions (h, r)) source i"
  obtains (bound) "endpoints r (endpoint_key source) = Some i"
  | (unbound) "endpoints r (endpoint_key source) = None"
      "pending r (normalize_ip (sock_ip source)) = Some i"
  using i reg_invD(1) [OF inv]
  by (auto simp: owner_def Let_def endpoint_key_def indexed_endpoint indexed_pending indexed_free)

text \<open>Writing the endpoint back keeps the invariant.\<close>

lemma reg_inv_bind:
  assumes inv: "reg_inv (h, r)" and i: "entries r i = Some a"
    and own: "owner (sessions (h, r)) source i"
    and r': "entries r' = entries r"
    and idx: "indexed ((sessions (h, r))
        (i \<mapsto> (normalize_ip (sock_ip source), Some (sock_port source)))) r'"
  defines "h' \<equiv> h(a := (h a)\<lparr>endpoint := Some source\<rparr>)"
  shows "sessions (h', r') = (sessions (h, r))
      (i \<mapsto> (normalize_ip (sock_ip source), Some (sock_port source)))"
    and "reg_inv (h', r')"
proof -
  have "sessions (h', r') = sessions (h', r)"
    using r' by (simp add: sessions_def fun_eq_iff)
  then show s: "sessions (h', r') = (sessions (h, r))
      (i \<mapsto> (normalize_ip (sock_ip source), Some (sock_port source)))"
    using owner_accepts(2) [OF inv i own] sessions_set [OF reg_invD(2) [OF inv] i]
    by (simp add: h'_def)
  show "reg_inv (h', r')"
    using inv idx r' owner_accepts(3) [OF inv i own] unfolding reg_inv_def s
    by (auto simp: h'_def)
qed

lemma reg_find_found:
  assumes inv: "reg_inv (h, r)" and i: "entries r i = Some a" and live: "alive (h a)"
    and own: "owner (sessions (h, r)) source i"
  obtains h' r' where "reg_find source (h, r) = (Some a, h', r')"
    "h' = h(a := (h a)\<lparr>endpoint := Some source\<rparr>)" "entries r' = entries r"
    "sessions (h', r') = (sessions (h, r))
      (i \<mapsto> (normalize_ip (sock_ip source), Some (sock_port source)))"
    "reg_inv (h', r')"
  using inv own
proof (cases rule: owner_cases)
  case bound
  then have t: "sessions (h, r) i = Some (normalize_ip (sock_ip source), Some (sock_port source))"
    using reg_invD(1) [OF inv] by (simp add: endpoint_key_def indexed_endpoint)
  show ?thesis
    using that [of "h(a := (h a)\<lparr>endpoint := Some source\<rparr>)" r] bound i live t
      owner_accepts(1) [OF inv i own] reg_inv_bind [OF inv i own refl] reg_invD(1) [OF inv]
    by (simp add: reg_find_def Let_def fun_upd_idem)
next
  case unbound
  let ?ip = "normalize_ip (sock_ip source)" and ?p = "sock_port source"
  let ?r = "r\<lparr>pending := (pending r)(?ip := None),
    endpoints := (endpoints r)(sock_new ?ip ?p \<mapsto> i)\<rparr>"
  have "indexed ((sessions (h, r))(i \<mapsto> (?ip, Some ?p))) ?r"
    using reg_invD(1) [OF inv] unbound
    by (intro indexed_bind) (simp_all add: indexed_pending endpoint_key_def)
  moreover have "reg_find source (h, r) = (Some a, h(a := (h a)\<lparr>endpoint := Some source\<rparr>), ?r)"
    using unbound i live owner_accepts(1) [OF inv i own]
    by (simp add: reg_find_def Let_def endpoint_key_def)
  ultimately show ?thesis
    using that reg_inv_bind [OF inv i own, of ?r] by simp
qed

lemma reg_find_none:
  assumes inv: "reg_inv (h, r)"
    and none: "\<And>i a. entries r i = Some a \<Longrightarrow> owner (sessions (h, r)) source i \<Longrightarrow> \<not> alive (h a)"
  shows "reg_find source (h, r) = (None, h, r)"
proof (cases "\<exists>i. owner (sessions (h, r)) source i")
  case True
  then obtain i where i: "owner (sessions (h, r)) source i" by blast
  then obtain a where a: "entries r i = Some a"
    by (auto simp: owner_def Let_def sessions_def)
  show ?thesis
    using inv i by (cases rule: owner_cases) (use a none [OF a i] in \<open>simp_all add: reg_find_def Let_def\<close>)
next
  case False
  then have "endpoints r (endpoint_key source) = None"
    "pending r (normalize_ip (sock_ip source)) = None"
    using reg_invD(1) [OF inv]
    by (auto simp: owner_def Let_def endpoint_key_def indexed_free ran_def)
  then show ?thesis
    by (simp add: reg_find_def Let_def)
qed

text \<open>Insertion of a fresh association succeeds exactly when its session is not taken.\<close>

definition fresh :: "store \<Rightarrow> u64 \<Rightarrow> nat \<Rightarrow> registry \<Rightarrow> bool" where
  "fresh h i a r \<longleftrightarrow> entries r i = None \<and> a \<notin> ran (entries r) \<and> endpoint (h a) = None"

lemma inj_on_upd:
  assumes "inj_on m (dom m)" "m i = None" "a \<notin> ran m"
  shows "inj_on (m(i \<mapsto> a)) (dom (m(i \<mapsto> a)))"
  using assms by (auto simp: inj_on_def ran_def dom_def)

lemma inj_on_del: "inj_on m (dom m) \<Longrightarrow> inj_on (m(i := None)) (dom (m(i := None)))"
  by (auto simp: inj_on_def dom_def)

lemma session_of_fresh:
  "endpoint a = None \<Longrightarrow>
     session_of a = (normalize_ip (client_ip a),
       if requested_port a = 0 then None else Some (requested_port a))"
  by (simp add: session_of_def bound_port_def)

lemma reg_insert_taken:
  assumes inv: "reg_inv (h, r)" and fresh: "fresh h i a r"
    and taken: "session_of (h a) \<in> ran (sessions (h, r))"
  shows "reg_insert h i a r = (False, r)"
  using taken fresh indexed_free [OF reg_invD(1) [OF inv]]
  by (auto simp: reg_insert_def Let_def fresh_def session_of_fresh split: if_splits)

lemma reg_insert_free:
  assumes inv: "reg_inv (h, r)" and fresh: "fresh h i a r"
    and free: "session_of (h a) \<notin> ran (sessions (h, r))"
  obtains r' where "reg_insert h i a r = (True, r')" "entries r' = (entries r)(i \<mapsto> a)"
    "sessions (h, r') = (sessions (h, r))(i \<mapsto> session_of (h a))" "reg_inv (h, r')"
proof -
  let ?ip = "normalize_ip (client_ip (h a))" and ?p = "requested_port (h a)"
  note idx = reg_invD(1) [OF inv]
  have new: "sessions (h, r) i = None" "endpoint (h a) = None"
    using fresh by (simp_all add: sessions_def fresh_def)
  obtain r' where r': "reg_insert h i a r = (True, r')" "entries r' = (entries r)(i \<mapsto> a)"
    and ix: "indexed ((sessions (h, r))(i \<mapsto> session_of (h a))) r'"
  proof (cases "?p = 0")
    case True
    then show ?thesis
      using that [of "r\<lparr>pending := (pending r)(?ip \<mapsto> i), entries := (entries r)(i \<mapsto> a)\<rparr>"]
        new free indexed_add_pending [OF idx new(1), of ?ip]
      by (simp add: reg_insert_def Let_def session_of_fresh pending_free [OF idx])
  next
    case False
    then show ?thesis
      using that [of "r\<lparr>endpoints := (endpoints r)(sock_new ?ip ?p \<mapsto> i),
          entries := (entries r)(i \<mapsto> a)\<rparr>"]
        new free indexed_add_endpoint [OF idx new(1), of ?ip ?p]
      by (simp add: reg_insert_def Let_def session_of_fresh endpoint_free [OF idx])
  qed
  have s: "sessions (h, r') = (sessions (h, r))(i \<mapsto> session_of (h a))"
    using r'(2) by (simp add: sessions_def fun_eq_iff)
  have "inj_on (entries r') (dom (entries r'))"
    unfolding r'(2) using reg_invD(2) [OF inv] fresh
    by (intro inj_on_upd) (simp_all add: fresh_def)
  moreover have "assoc_ok (h b)" if "b \<in> ran (entries r')" for b
    using that fresh inv by (auto simp: r'(2) fresh_def reg_inv_def assoc_ok_def ran_map_upd)
  ultimately have "reg_inv (h, r')"
    using ix by (simp add: reg_inv_def s)
  then show ?thesis
    using that r' s by blast
qed

text \<open>Removal deletes the session and both of its traces.\<close>

lemma reg_remove_absent: "entries r i = None \<Longrightarrow> reg_remove h i r = r"
  by (simp add: reg_remove_def)

lemma reg_remove_indexed:
  assumes inv: "reg_inv (h, r)"
  shows "indexed ((sessions (h, r))(i := None)) (reg_remove h i r)" (is "indexed _ ?r")
proof (cases "entries r i")
  case None
  then have "sessions (h, r) i = None"
    by (simp add: sessions_def)
  then show ?thesis
    using None reg_invD(1) [OF inv] by (simp add: reg_remove_absent fun_upd_idem)
next
  case (Some a)
  obtain ip po where ab: "session_of (h a) = (ip, po)"
    by (cases "session_of (h a)")
  then have t: "sessions (h, r) i = Some (ip, po)"
    using Some by (simp add: sessions_def)
  have ip: "ip = normalize_ip (client_ip (h a))" and po: "po = bound_port (h a)"
    using ab by (simp_all add: session_of_def)
  show ?thesis
  proof (cases po)
    case None
    then have "requested_port (h a) = 0" "endpoint (h a) = None"
      using po by (simp_all add: bound_port_def split: if_splits)
    then have "?r = r\<lparr>entries := (entries r)(i := None), pending := (pending r)(ip := None)\<rparr>"
      using Some ip t None by (simp add: reg_remove_def Let_def indexed_pending [OF reg_invD(1) [OF inv]])
    then show ?thesis
      using indexed_drop_pending [OF reg_invD(1) [OF inv]] t None by simp
  next
    case (Some p)
    have "endpoint_key e = sock_new ip p" if "endpoint (h a) = Some e" "requested_port (h a) = 0" for e
      using that Some po ip reg_invD(3) [OF inv \<open>entries r i = Some a\<close>]
      by (simp add: bound_port_def endpoint_key_def assoc_ok_def)
    then have "?r = r\<lparr>entries := (entries r)(i := None),
        endpoints := (endpoints r)(sock_new ip p := None)\<rparr>"
      using Some \<open>entries r i = Some a\<close> ip po t
      by (auto simp: reg_remove_def Let_def indexed_endpoint [OF reg_invD(1) [OF inv]] bound_port_def
          split: option.splits if_splits)
    then show ?thesis
      using indexed_drop_endpoint [OF reg_invD(1) [OF inv]] t Some by simp
  qed
qed

lemma reg_remove_eq:
  assumes inv: "reg_inv (h, r)"
  shows "entries (reg_remove h i r) = (entries r)(i := None)"
    and "sessions (h, reg_remove h i r) = (sessions (h, r))(i := None)"
    and "reg_inv (h, reg_remove h i r)"
proof -
  let ?r = "reg_remove h i r"
  show e: "entries ?r = (entries r)(i := None)"
    by (auto simp: reg_remove_def Let_def split: option.splits)
  then show s: "sessions (h, ?r) = (sessions (h, r))(i := None)"
    by (simp add: sessions_def fun_eq_iff)
  have "inj_on (entries ?r) (dom (entries ?r))"
    unfolding e using reg_invD(2) [OF inv] by (rule inj_on_del)
  moreover have "assoc_ok (h b)" if "b \<in> ran (entries ?r)" for b
    using that inv by (auto simp: e reg_inv_def ran_def split: if_splits)
  ultimately show "reg_inv (h, ?r)"
    using reg_remove_indexed [OF inv, of i] by (simp add: reg_inv_def s)
qed

section \<open>Interleavings\<close>

text \<open>
  The steps of the control connections and of the datagram loop, in any order:
  \<open>reg_register\<close> is the creation and insertion of an association (\<open>associate\<close>),
  \<open>reg_datagram\<close> a lookup (\<open>udp_loop\<close>), \<open>reg_stop\<close> the end of an association's life (its
  own control connection, or the shutdown of the server), \<open>reg_flows\<close> any change of the
  flows or the preferred addresses by a packet task, \<open>reg_close\<close> the removal.
\<close>

inductive reg_step :: "store \<times> registry \<Rightarrow> store \<times> registry \<Rightarrow> bool" where
  reg_register: "fresh (h(a := x)) i a r \<Longrightarrow> reg_insert (h(a := x)) i a r = (ok, r') \<Longrightarrow>
    reg_step (h, r) (h(a := x), r')"
| reg_datagram: "reg_find source st = (res, st') \<Longrightarrow> reg_step st st'"
| reg_stop: "reg_step (h, r) (h(a := (h a)\<lparr>alive := False, stopped := True\<rparr>), r)"
| reg_flows: "reg_step (h, r) (h(a := (h a)\<lparr>flows := fs, preferred := ps\<rparr>), r)"
| reg_close: "reg_step (h, r) (h, reg_remove h i r)"

inductive_cases reg_stepE: "reg_step st st'"

lemma reg_find_cases:
  assumes inv: "reg_inv (h, r)" and find: "reg_find source (h, r) = (res, st')"
  obtains (found) i a h' r' where "res = Some a" "st' = (h', r')"
      "entries r i = Some a" "alive (h a)" "owner (sessions (h, r)) source i"
      "h' = h(a := (h a)\<lparr>endpoint := Some source\<rparr>)" "entries r' = entries r"
      "sessions (h', r') = (sessions (h, r))
        (i \<mapsto> (normalize_ip (sock_ip source), Some (sock_port source)))"
      "reg_inv (h', r')"
  | (missed) "res = None" "st' = (h, r)"
      "\<And>i a. entries r i = Some a \<Longrightarrow> owner (sessions (h, r)) source i \<Longrightarrow> \<not> alive (h a)"
proof (cases "\<exists>i a. entries r i = Some a \<and> owner (sessions (h, r)) source i \<and> alive (h a)")
  case True
  then obtain i a where ia: "entries r i = Some a" "owner (sessions (h, r)) source i" "alive (h a)"
    by blast
  from reg_find_found [OF inv ia(1,3,2)] obtain h' r' where
    "reg_find source (h, r) = (Some a, h', r')"
    "h' = h(a := (h a)\<lparr>endpoint := Some source\<rparr>)" "entries r' = entries r"
    "sessions (h', r') = (sessions (h, r))
      (i \<mapsto> (normalize_ip (sock_ip source), Some (sock_port source)))"
    "reg_inv (h', r')" .
  then show ?thesis
    using found ia find by simp
next
  case False
  have none: "\<not> alive (h a)" if "entries r i = Some a" "owner (sessions (h, r)) source i" for i a
    using False that by blast
  have "reg_find source (h, r) = (None, h, r)"
    using inv none by (rule reg_find_none)
  then show ?thesis
    using find none by (intro missed) simp_all
qed

text \<open>Allocating an association that the registry does not hold changes no session.\<close>

lemma sessions_alloc:
  "a \<notin> ran (entries r) \<Longrightarrow> sessions (h(a := x), r) = sessions (h, r)"
  by (rule ext, rename_tac i, case_tac "entries r i") (auto simp: sessions_def ran_def)

lemma reg_inv_alloc:
  "reg_inv (h, r) \<Longrightarrow> a \<notin> ran (entries r) \<Longrightarrow> reg_inv (h(a := x), r)"
  by (auto simp: reg_inv_def sessions_alloc)

text \<open>Nor does changing the fields that no session depends on.\<close>

lemma sessions_irrelevant:
  "session_of x = session_of (h a) \<Longrightarrow> sessions (h(a := x), r) = sessions (h, r)"
  by (rule ext, rename_tac i, case_tac "entries r i") (auto simp: sessions_def)

lemma reg_inv_irrelevant:
  assumes "reg_inv (h, r)" "session_of x = session_of (h a)" "assoc_ok (h a) \<longrightarrow> assoc_ok x"
  shows "reg_inv (h(a := x), r)"
  using assms by (auto simp: reg_inv_def sessions_irrelevant)

lemma session_of_flags [simp]:
  "session_of (x\<lparr>alive := b, stopped := c\<rparr>) = session_of x"
  "session_of (x\<lparr>flows := fs, preferred := ps\<rparr>) = session_of x"
  "assoc_ok (x\<lparr>alive := b, stopped := c\<rparr>) = assoc_ok x"
  "assoc_ok (x\<lparr>flows := fs, preferred := ps\<rparr>) = assoc_ok x"
  by (simp_all add: session_of_def bound_port_def assoc_ok_def)

lemma reg_step_inv:
  assumes inv: "reg_inv st" and step: "reg_step st st'"
  shows "reg_inv st'"
  using step
proof cases
  case (reg_register h a x i r ok r')
  then have inv': "reg_inv (h(a := x), r)"
    using inv reg_inv_alloc by (simp add: fresh_def)
  show ?thesis
  proof (cases "session_of x \<in> ran (sessions (h(a := x), r))")
    case True
    then show ?thesis
      using reg_insert_taken [OF inv' reg_register(3)] reg_register(2,4) inv' by simp
  next
    case False
    then show ?thesis
      using reg_insert_free [OF inv' reg_register(3)] reg_register(2,4) by fastforce
  qed
next
  case (reg_datagram source res)
  obtain h r where st: "st = (h, r)" by (cases st)
  have "reg_find source (h, r) = (res, st')"
    using reg_datagram st by simp
  from inv [unfolded st] this show ?thesis
    by (cases rule: reg_find_cases) (use inv st in simp_all)
qed (use inv in \<open>simp_all add: reg_inv_irrelevant reg_remove_eq\<close>)

lemma sessions_default: "sessions (h, reg_default) = Map.empty"
  by (simp add: sessions_def reg_default_def fun_eq_iff)

interpretation registry: invariant_system "\<lambda>st. snd st = reg_default" reg_step reg_inv
proof
  fix st assume "snd (st :: store \<times> registry) = reg_default"
  then show "reg_inv st"
    by (cases st) (auto simp: reg_inv_def sessions_default, auto simp: indexed_def reg_default_def)
qed (rule reg_step_inv)

section \<open>The table of sessions\<close>

text \<open>
  What the registry promises, over the table of sessions alone: a session is opened if it is
  free, bound to the first source that reaches it, and closed by its id.
\<close>

inductive tbl_step :: "(u64 \<rightharpoonup> session) \<Rightarrow> (u64 \<rightharpoonup> session) \<Rightarrow> bool" where
  tbl_open: "t i = None \<Longrightarrow> s \<notin> ran t \<Longrightarrow> tbl_step t (t(i \<mapsto> s))"
| tbl_bind: "owner t source i \<Longrightarrow>
    tbl_step t (t(i \<mapsto> (normalize_ip (sock_ip source), Some (sock_port source))))"
| tbl_close: "tbl_step t (t(i := None))"
| tbl_idle: "tbl_step t t"

inductive_cases tbl_stepE: "tbl_step t t'"

lemma reg_insert_table:
  assumes inv: "reg_inv (h, r)" and fresh: "fresh h i a r"
  shows "reg_insert h i a r = (ok, r') \<Longrightarrow>
    ok = (session_of (h a) \<notin> ran (sessions (h, r))) \<and>
    sessions (h, r') = (if ok then (sessions (h, r))(i \<mapsto> session_of (h a)) else sessions (h, r))"
  using reg_insert_taken [OF assms] reg_insert_free [OF assms] by fastforce

lemma reg_step_table:
  assumes inv: "reg_inv st" and step: "reg_step st st'"
  shows "tbl_step (sessions st) (sessions st')"
  using step
proof cases
  case (reg_register h a x i r ok r')
  have r: "a \<notin> ran (entries r)" and i: "sessions (h, r) i = None"
    using reg_register(3) by (simp_all add: fresh_def sessions_def)
  have "reg_inv (h(a := x), r)"
    using inv reg_inv_alloc r reg_register(1) by simp
  from reg_insert_table [OF this reg_register(3,4)] show ?thesis
    using i r reg_register(1,2) by (auto simp: sessions_alloc intro: tbl_open tbl_idle)
next
  case (reg_datagram source res)
  obtain h r where st: "st = (h, r)" by (cases st)
  have "reg_find source (h, r) = (res, st')"
    using reg_datagram st by simp
  from inv [unfolded st] this show ?thesis
    by (cases rule: reg_find_cases) (simp_all add: st tbl_bind tbl_idle)
next
  case (reg_close h r i)
  then show ?thesis
    using inv by (simp add: reg_remove_eq tbl_close)
qed (simp_all add: sessions_irrelevant tbl_idle)

lemma tbl_step_keeps_port:
  assumes "tbl_step t t'" "t i = Some (ip, Some p)"
  shows "t' i \<in> {None, Some (ip, Some p)}"
  using assms by (cases rule: tbl_step.cases) (auto simp: owner_def Let_def)

section \<open>Sequences of lookups\<close>

text \<open>
  The datagram loop as a client of the table: it looks every source up and sends the payload
  on in the name of the association it gets. It relies on two things only: a lookup that
  finds an association binds it to the source, and one that finds none changes nothing.
\<close>

fun find_seq :: "('x \<Rightarrow> 's \<Rightarrow> 'a option \<times> 's) \<Rightarrow> 'x list \<Rightarrow> 's \<Rightarrow> 'a option list \<times> 's" where
  "find_seq f [] s = ([], s)"
| "find_seq f (x # xs) s =
     (case f x s of (res, s1) \<Rightarrow> case find_seq f xs s1 of (rs, s2) \<Rightarrow> (res # rs, s2))"

locale source_table =
  fixes find_op :: "socket_addr \<Rightarrow> 's \<Rightarrow> 'a option \<times> 's"
    and held :: "'s \<Rightarrow> 'a \<Rightarrow> session option"
    and ok :: "'s \<Rightarrow> bool"
  assumes found: "ok s \<Longrightarrow> find_op source s = (Some a, s') \<Longrightarrow> ok s' \<and>
      held s a \<in> {Some (normalize_ip (sock_ip source), None),
        Some (normalize_ip (sock_ip source), Some (sock_port source))} \<and>
      held s' = (held s)(a \<mapsto> (normalize_ip (sock_ip source), Some (sock_port source)))"
    and missed: "ok s \<Longrightarrow> find_op source s = (None, s') \<Longrightarrow> s' = s"
begin

lemma find_ok: "ok s \<Longrightarrow> find_op source s = (res, s') \<Longrightarrow> ok s'"
  by (cases res) (auto dest: found missed)

lemma find_keeps:
  assumes "ok s" "find_op source s = (res, s')" "held s a = Some (ip, Some p)"
  shows "held s' a = Some (ip, Some p)"
  using assms found [of s source] missed [of s source s'] by (cases res) (auto split: if_splits)

lemma bound_hits:
  assumes "ok s" "find_seq find_op srcs s = (rs, s')" "held s a = Some (ip, Some p)"
    "k < length rs" "rs ! k = Some a"
  shows "normalize_ip (sock_ip (srcs ! k)) = ip \<and> sock_port (srcs ! k) = p"
  using assms
proof (induction srcs arbitrary: s rs k)
  case (Cons src srcs)
  obtain res s1 rs1 where 1: "find_op src s = (res, s1)" and
    2: "find_seq find_op srcs s1 = (rs1, s')" and rs: "rs = res # rs1"
    using Cons.prems(2) by (auto split: prod.splits)
  have ok1: "ok s1" and h1: "held s1 a = Some (ip, Some p)"
    using find_ok [OF Cons.prems(1) 1] find_keeps [OF Cons.prems(1) 1] Cons.prems(3) by auto
  show ?case
  proof (cases k)
    case 0
    then have "res = Some a"
      using Cons.prems(5) rs by simp
    then show ?thesis
      using 0 found [OF Cons.prems(1), of src a s1] 1 Cons.prems(3) by auto
  next
    case (Suc j)
    then show ?thesis
      using Cons.IH [OF ok1 2 h1, of j] Cons.prems(4,5) rs by simp
  qed
qed simp

lemma same_source:
  assumes "ok s" "find_seq find_op srcs s = (rs, s')" "j \<le> k" "k < length rs"
    "rs ! j = Some a" "rs ! k = Some a"
  shows "endpoint_key (srcs ! j) = endpoint_key (srcs ! k)"
  using assms
proof (induction srcs arbitrary: s rs j k)
  case (Cons src srcs)
  obtain res s1 rs1 where 1: "find_op src s = (res, s1)" and
    2: "find_seq find_op srcs s1 = (rs1, s')" and rs: "rs = res # rs1"
    using Cons.prems(2) by (auto split: prod.splits)
  have ok1: "ok s1"
    using find_ok [OF Cons.prems(1) 1] .
  show ?case
  proof (cases j)
    case 0
    then have a: "res = Some a"
      using Cons.prems(5) rs by simp
    then have h1: "held s1 a = Some (normalize_ip (sock_ip src), Some (sock_port src))"
      using found [OF Cons.prems(1), of src a s1] 1 by simp
    show ?thesis
    proof (cases k)
      case (Suc k')
      then show ?thesis
        using 0 bound_hits [OF ok1 2 h1, of k'] Cons.prems(4,6) rs
        by (simp add: endpoint_key_eq_iff)
    qed (use 0 in simp)
  next
    case (Suc j')
    then show ?thesis
      using Cons.IH [OF ok1 2, of j' "k - 1"] Cons.prems rs by (cases k) auto
  qed
qed simp

end

definition held_session :: "store \<times> registry \<Rightarrow> nat \<Rightarrow> session option" where
  "held_session st a =
     (if a \<in> ran (entries (snd st)) then Some (session_of (fst st a)) else None)"

interpretation datagrams: source_table reg_find held_session reg_inv
proof
  fix st :: "store \<times> registry" and source a st'
  assume inv: "reg_inv st" and find: "reg_find source st = (Some a, st')"
  obtain h r where st: "st = (h, r)" by (cases st)
  let ?s = "(normalize_ip (sock_ip source), Some (sock_port source))"
  from inv [unfolded st] find [unfolded st] show "reg_inv st' \<and>
      held_session st a \<in> {Some (normalize_ip (sock_ip source), None), Some ?s} \<and>
      held_session st' = (held_session st)(a \<mapsto> ?s)"
  proof (cases rule: reg_find_cases)
    case (found i b h' r')
    have a: "b = a" and ran: "a \<in> ran (entries r)"
      using found by (auto simp: ran_def)
    have "session_of (h' a) = ?s"
      using found owner_accepts(2) [OF inv [unfolded st] found(3,5)] a by simp
    moreover have "session_of (h a) \<in> {(normalize_ip (sock_ip source), None), ?s}"
      using found(3,5) a by (auto simp: owner_def Let_def sessions_def)
    moreover have "held_session st' = (held_session st)(a \<mapsto> session_of (h' a))"
      unfolding st found(2) using ran a found(6,7)
      by (intro ext) (simp add: held_session_def)
    ultimately show ?thesis
      using ran found(2,9) by (auto simp: held_session_def st)
  qed simp
next
  fix st :: "store \<times> registry" and source st'
  assume inv: "reg_inv st" and find: "reg_find source st = (None, st')"
  obtain h r where st: "st = (h, r)" by (cases st)
  from inv find show "st' = st"
    unfolding st by (cases rule: reg_find_cases) auto
qed

section \<open>Properties\<close>

text \<open>C30: In every reachable state the two indexes are exactly the live entries read backwards:
  an endpoint leads to the id of the association bound to it and a pending address to the
  association waiting on it, each to a present entry, and no entry is without its index. No
  interleaving of registrations, lookups, stops, flow updates and removals leaves a dangling
  or a missing index.\<close>

theorem registry_indexes_exact:
  assumes "snd st0 = reg_default" and "reg_step\<^sup>*\<^sup>* st0 st"
  shows "(endpoints (snd st) k = Some i \<longleftrightarrow>
      (\<exists>ip p a. k = sock_new ip p \<and> entries (snd st) i = Some a \<and>
         session_of (fst st a) = (ip, Some p))) \<and>
    (pending (snd st) ip = Some i \<longleftrightarrow>
      (\<exists>a. entries (snd st) i = Some a \<and> session_of (fst st a) = (ip, None)))"
  using registry.reachable_inv [OF assms]
  by (auto simp: reg_inv_def indexed_def sessions_Some)

definition demo_association :: association where
  "demo_association =
     \<lparr>client_ip = IpV4 7, requested_port = 0, endpoint = None, alive = True, stopped = False,
      flows = Map.empty, preferred = Map.empty\<rparr>"

definition demo_start :: "store \<times> registry" where
  "demo_start = (\<lambda>_. demo_association, reg_default)"

definition demo_state :: "store \<times> registry" where
  "demo_state =
     (\<lambda>_. demo_association, reg_default\<lparr>pending := [IpV4 7 \<mapsto> 1], entries := [1 \<mapsto> 0]\<rparr>)"

lemma demo_fresh: "fresh (\<lambda>_. demo_association) 1 0 reg_default"
  by (simp add: fresh_def reg_default_def demo_association_def)

lemma demo_insert:
  "reg_insert (\<lambda>_. demo_association) 1 0 reg_default = (True, snd demo_state)"
  by (simp add: demo_state_def reg_default_def demo_association_def reg_insert_def normalize_ip_def)

lemma demo_register: "reg_step demo_start demo_state"
  using reg_register [of "\<lambda>_. demo_association" 0 demo_association 1 reg_default True "snd demo_state"]
  by (simp add: fun_upd_idem demo_fresh demo_insert demo_start_def) (simp add: demo_state_def)

lemma demo_steps: "reg_step\<^sup>*\<^sup>* demo_start demo_state"
  using demo_register by blast

lemma demo_start_inv: "reg_inv demo_start"
  by (rule registry.reachable_inv [OF _ rtranclp.rtrancl_refl]) (simp add: demo_start_def)

lemma demo_inv: "reg_inv demo_state"
  using demo_start_inv demo_register by (rule reg_step_inv)

theorem registry_indexes_exact_witness:
  "(endpoints (snd demo_state) (SockV4 7 5) = Some 1 \<longleftrightarrow>
      (\<exists>ip p a. SockV4 7 5 = sock_new ip p \<and> entries (snd demo_state) 1 = Some a \<and>
         session_of (fst demo_state a) = (ip, Some p))) \<and>
    (pending (snd demo_state) (IpV4 7) = Some 1 \<longleftrightarrow>
      (\<exists>a. entries (snd demo_state) 1 = Some a \<and> session_of (fst demo_state a) = (IpV4 7, None)))"
  by (rule registry_indexes_exact [OF _ demo_steps]) (simp add: demo_start_def)

lemma reg_find_owner:
  assumes "reg_inv (h, r)"
  shows "fst (reg_find source (h, r)) = Some a \<longleftrightarrow>
    (\<exists>i. entries r i = Some a \<and> alive (h a) \<and> owner (sessions (h, r)) source i)"
proof -
  obtain res st' where find: "reg_find source (h, r) = (res, st')"
    by (cases "reg_find source (h, r)") simp
  with assms show ?thesis
  proof (cases rule: reg_find_cases)
    case (found i b h' r')
    have l: "fst (reg_find source (h, r)) = Some b"
      using found(1) find by simp
    show ?thesis
    proof
      assume "fst (reg_find source (h, r)) = Some a"
      then have "b = a"
        using l by simp
      then show "\<exists>i. entries r i = Some a \<and> alive (h a) \<and> owner (sessions (h, r)) source i"
        using found(3-5) by blast
    next
      assume "\<exists>i. entries r i = Some a \<and> alive (h a) \<and> owner (sessions (h, r)) source i"
      then obtain j where j: "entries r j = Some a" "owner (sessions (h, r)) source j" by blast
      have "j = i"
        using owner_unique [OF assms j(2) found(5)] .
      then show "fst (reg_find source (h, r)) = Some a"
        using l j(1) found(3) by simp
    qed
  next
    case missed
    have "fst (reg_find source (h, r)) = None"
      using missed(1) find by simp
    moreover have "\<not> (\<exists>i. entries r i = Some a \<and> alive (h a) \<and> owner (sessions (h, r)) source i)"
      using missed(3) by blast
    ultimately show ?thesis by simp
  qed
qed

text \<open>A lookup finds exactly the association the datagram belongs to: the live one bound to
  the datagram's address and port or, if no association is bound to it, the live one of that
  address that is not bound yet. IPv4-mapped addresses count as their IPv4 address.\<close>

theorem lookup_finds_owner:
  assumes "reg_inv (h, r)"
  shows "fst (reg_find source (h, r)) = Some a \<longleftrightarrow>
    (\<exists>i. entries r i = Some a \<and> alive (h a) \<and> owner (sessions (h, r)) source i)"
  using assms by (rule reg_find_owner)

theorem lookup_finds_owner_witness:
  "fst (reg_find (SockV4 7 5) demo_state) = Some 0 \<longleftrightarrow>
    (\<exists>i. entries (snd demo_state) i = Some 0 \<and> alive (fst demo_state 0) \<and>
       owner (sessions demo_state) (SockV4 7 5) i)"
  using lookup_finds_owner [of "fst demo_state" "snd demo_state" "SockV4 7 5" 0] demo_inv
  by simp

text \<open>C5: Datagrams of one association come from one source. In any sequence of lookups, two
  datagrams that are handed to the same association have the same address and port (up to
  the IPv4-mapped form), whatever arrives in between: a second host, or a second port of the
  same host, never gets into a bound session.\<close>

theorem session_single_source:
  assumes "reg_inv st" and "find_seq reg_find sources st = (results, st')"
    and "j \<le> k" and "k < length results" and "results ! j = Some a" and "results ! k = Some a"
  shows "endpoint_key (sources ! j) = endpoint_key (sources ! k)"
  using assms by (rule datagrams.same_source)

theorem session_single_source_witness:
  "endpoint_key ([SockV4 7 5, SockV4 7 6, SockV6 0xFFFF00000007 5 0 0] ! 0) =
   endpoint_key ([SockV4 7 5, SockV4 7 6, SockV6 0xFFFF00000007 5 0 0] ! 2)"
proof -
  let ?srcs = "[SockV4 7 5, SockV4 7 6, SockV6 0xFFFF00000007 5 0 0]"
  obtain rs st' where run: "find_seq reg_find ?srcs demo_state = (rs, st')"
    by (cases "find_seq reg_find ?srcs demo_state")
  have "rs = [Some 0, None, Some 0]"
    using run
    by (simp add: demo_state_def demo_association_def reg_default_def reg_find_def accepts_def
        endpoint_key_def normalize_ip_def to_ipv4_mapped_def Let_def)
  then show ?thesis
    using session_single_source [OF demo_inv run, of 0 2 0] by simp
qed

text \<open>Registration succeeds if and only if no other association holds the same session (the
  same client with the same requested port, or the same client with the port left open), and
  then adds that one session; a refused registration changes nothing at all.\<close>

theorem registration_exclusive:
  assumes "reg_inv (h, r)" and "fresh h i a r" and "reg_insert h i a r = (ok, r')"
  shows "ok = (session_of (h a) \<notin> ran (sessions (h, r))) \<and>
    sessions (h, r') = (if ok then (sessions (h, r))(i \<mapsto> session_of (h a)) else sessions (h, r)) \<and>
    (\<not> ok \<longrightarrow> r' = r)"
proof (cases "session_of (h a) \<in> ran (sessions (h, r))")
  case True
  then show ?thesis
    using reg_insert_taken [OF assms(1,2)] assms(3) by simp
next
  case False
  then obtain r2 where "reg_insert h i a r = (True, r2)"
    "sessions (h, r2) = (sessions (h, r))(i \<mapsto> session_of (h a))"
    using reg_insert_free [OF assms(1,2)] by metis
  then show ?thesis
    using assms(3) False by simp
qed

theorem registration_exclusive_witness:
  "session_of demo_association \<notin> ran (sessions demo_start) \<and>
    sessions (\<lambda>_. demo_association, snd demo_state) =
      (sessions demo_start)(1 \<mapsto> session_of demo_association)"
  using registration_exclusive [of "\<lambda>_. demo_association" reg_default 1 0 True "snd demo_state"]
    demo_start_inv demo_fresh demo_insert
  by (simp add: demo_start_def)

text \<open>Removal is complete: whatever the association was bound to in the meantime, no index
  leads to its id any more, its session is gone, and every other session is as it was.\<close>

theorem removal_complete:
  assumes "reg_inv (h, r)"
  shows "sessions (h, reg_remove h i r) = (sessions (h, r))(i := None) \<and>
    endpoints (reg_remove h i r) k \<noteq> Some i \<and> pending (reg_remove h i r) ip \<noteq> Some i"
proof -
  note rem = reg_remove_eq [OF assms, of i]
  have "indexed (sessions (h, reg_remove h i r)) (reg_remove h i r)"
    using rem(3) by (rule reg_invD)
  then show ?thesis
    by (simp add: rem(2) indexed_def)
qed

theorem removal_complete_witness:
  "sessions (fst demo_state, reg_remove (fst demo_state) 1 (snd demo_state)) =
     (sessions (fst demo_state, snd demo_state))(1 := None) \<and>
   endpoints (reg_remove (fst demo_state) 1 (snd demo_state)) (SockV4 7 5) \<noteq> Some 1 \<and>
   pending (reg_remove (fst demo_state) 1 (snd demo_state)) (IpV4 7) \<noteq> Some 1"
  by (rule removal_complete) (simp add: demo_inv)

text \<open>C25: The registry implements the table of sessions. Every step of the server, taken in any
  order by any number of tasks, is a step of the abstract table on the sessions: it opens a
  free session, binds a session to a source that owns it, closes one, or leaves all alone.\<close>

theorem registry_refines_table:
  assumes "snd st0 = reg_default" and "reg_step\<^sup>*\<^sup>* st0 st"
  shows "tbl_step\<^sup>*\<^sup>* Map.empty (sessions st)"
  using assms(2)
proof (induction rule: rtranclp_induct)
  case base
  have "sessions st0 = Map.empty"
    using sessions_default [of "fst st0"] assms(1) by (metis prod.collapse)
  then show ?case by simp
next
  case (step st1 st2)
  have "reg_inv st1"
    using registry.reachable_inv [OF assms(1) step(1)] .
  then show ?case
    using reg_step_table [OF _ step(2)] step(3) by (meson rtranclp.rtrancl_into_rtrancl)
qed

theorem registry_refines_table_witness: "tbl_step\<^sup>*\<^sup>* Map.empty (sessions demo_state)"
  by (rule registry_refines_table [OF _ demo_steps]) (simp add: demo_start_def)

text \<open>A session's port never changes while it lasts: once an association is bound to a port,
  every step either keeps the binding or removes the association.\<close>

theorem binding_is_permanent:
  assumes "reg_inv st" and "reg_step st st'" and "sessions st i = Some (ip, Some p)"
  shows "sessions st' i \<in> {None, Some (ip, Some p)}"
  using tbl_step_keeps_port [OF reg_step_table [OF assms(1,2)] assms(3)] .

theorem binding_is_permanent_witness:
  "sessions (snd (reg_find (SockV4 7 5) (snd (reg_find (SockV4 7 5) demo_state)))) 1 \<in>
     {None, Some (IpV4 7, Some 5)}"
proof (rule binding_is_permanent)
  let ?st = "snd (reg_find (SockV4 7 5) demo_state)"
  show "reg_inv ?st"
    by (rule reg_step_inv [OF demo_inv reg_datagram [OF surjective_pairing]])
  show "reg_step ?st (snd (reg_find (SockV4 7 5) ?st))"
    by (rule reg_datagram [OF surjective_pairing])
  show "sessions ?st 1 = Some (IpV4 7, Some 5)"
    by (simp add: demo_state_def demo_association_def reg_default_def reg_find_def accepts_def
        endpoint_key_def normalize_ip_def Let_def sessions_def session_of_def bound_port_def)
qed

end
