(* ===== verification/Ip_Parse.thy ===== *)
theory Ip_Parse
  imports Net_Addr Rust_Str
begin

text \<open>
  The textual address parser of the Rust standard library (\<open>core::net::parser\<close>), which the
  configuration uses through \<open>str::parse\<close>. A parser takes the remaining text and returns
  the value and the rest, or \<open>None\<close>, in which case the text is as before
  (\<open>read_atomically\<close>). \<open>parse_ip\<close> and \<open>parse_sock\<close> are \<open>FromStr\<close> of
  \<open>IpAddr\<close> and \<open>SocketAddr\<close>: nothing may remain.
\<close>

type_synonym 'a parser = "string \<Rightarrow> ('a \<times> string) option"

definition read_given_char :: "char \<Rightarrow> unit parser" where
  "read_given_char c s = (case s of [] \<Rightarrow> None | d # ds \<Rightarrow> if d = c then Some ((), ds) else None)"

text \<open>The digit value of a character, and the digits at the front of a text.\<close>

definition to_digit :: "nat \<Rightarrow> char \<Rightarrow> nat option" where
  "to_digit radix c =
     (let n = of_char c :: nat;
          d = (if 48 \<le> n \<and> n \<le> 57 then n - 48
               else if 97 \<le> n \<and> n \<le> 122 then n - 87
               else if 65 \<le> n \<and> n \<le> 90 then n - 55 else 36)
      in if d < radix then Some d else None)"

fun digits_front :: "nat \<Rightarrow> string \<Rightarrow> nat list \<times> string" where
  "digits_front radix [] = ([], [])"
| "digits_front radix (c # cs) =
     (case to_digit radix c of
        None \<Rightarrow> ([], c # cs)
      | Some d \<Rightarrow> (let (ds, r) = digits_front radix cs in (d # ds, r)))"

definition digits_val :: "nat \<Rightarrow> nat list \<Rightarrow> nat" where
  "digits_val radix ds = foldl (\<lambda>a d. a * radix + d) 0 ds"

text \<open>
  \<open>read_number\<close>: all digits at the front; none is an error, more than \<open>max_digits\<close> (if
  given) is an error, so is a value that does not fit, and a leading zero where it is not
  allowed.
\<close>

definition read_number :: "nat \<Rightarrow> nat option \<Rightarrow> bool \<Rightarrow> nat \<Rightarrow> nat parser" where
  "read_number radix max_digits allow_zero_prefix lim s =
     (let (ds, r) = digits_front radix s in
      if ds = [] then None
      else if (case max_digits of None \<Rightarrow> False | Some m \<Rightarrow> length ds > m) then None
      else if \<not> allow_zero_prefix \<and> hd ds = 0 \<and> length ds > 1 then None
      else if digits_val radix ds > lim then None
      else Some (digits_val radix ds, r))"

text \<open>\<open>read_separator\<close>: the separator comes before every element but the first.\<close>

definition read_separator :: "char \<Rightarrow> nat \<Rightarrow> 'a parser \<Rightarrow> 'a parser" where
  "read_separator sep i p s =
     (if i > 0 then
        (case read_given_char sep s of None \<Rightarrow> None | Some (_, r) \<Rightarrow> p r)
      else p s)"

definition read_octet :: "nat \<Rightarrow> nat parser" where
  "read_octet i = read_separator (CHR ''.'') i (read_number 10 (Some 3) False 255)"

definition read_ipv4 :: "u32 parser" where
  "read_ipv4 s =
     Option.bind (read_octet 0 s) (\<lambda>(a, s).
     Option.bind (read_octet 1 s) (\<lambda>(b, s).
     Option.bind (read_octet 2 s) (\<lambda>(c, s).
     Option.bind (read_octet 3 s) (\<lambda>(d, s).
     Some (word_of_nat (((a * 256 + b) * 256 + c) * 256 + d), s)))))"

text \<open>
  \<open>read_groups\<close> fills up to \<open>limit\<close> groups, starting with group \<open>i\<close>; an embedded IPv4
  address takes two groups and ends the list. The result is the groups read, whether they
  end in an IPv4 address, and the rest of the text.
\<close>

fun read_groups :: "nat \<Rightarrow> nat \<Rightarrow> nat \<Rightarrow> string \<Rightarrow> nat list \<times> bool \<times> string" where
  "read_groups 0 i limit s = ([], False, s)"
| "read_groups (Suc n) i limit s =
     (case (if i + 1 < limit then read_separator (CHR '':'') i read_ipv4 s else None) of
        Some (v4, r) \<Rightarrow> ([unat v4 div 65536, unat v4 mod 65536], True, r)
      | None \<Rightarrow>
          (case read_separator (CHR '':'') i (read_number 16 (Some 4) True 65535) s of
             None \<Rightarrow> ([], False, s)
           | Some (g, r) \<Rightarrow>
               (let (gs, v4, r') = read_groups n (Suc i) limit r in (g # gs, v4, r'))))"

definition ipv6_of_groups :: "nat list \<Rightarrow> u128" where
  "ipv6_of_groups gs = word_of_nat (foldl (\<lambda>a g. a * 65536 + g) 0 gs)"

definition read_ipv6 :: "u128 parser" where
  "read_ipv6 s =
     (let (head, head_ipv4, s) = read_groups 8 0 8 s in
      if length head = 8 then Some (ipv6_of_groups head, s)
      else if head_ipv4 then None
      else
        Option.bind (read_given_char (CHR '':'') s) (\<lambda>(_, s).
        Option.bind (read_given_char (CHR '':'') s) (\<lambda>(_, s).
        let limit = 8 - (length head + 1);
            (tail, _, s) = read_groups limit 0 limit s
        in Some (ipv6_of_groups
                   (head @ replicate (8 - length head - length tail) 0 @ tail), s))))"

definition read_ip_addr :: "ip_addr parser" where
  "read_ip_addr s =
     (case read_ipv4 s of
        Some (a, r) \<Rightarrow> Some (IpV4 a, r)
      | None \<Rightarrow> map_option (\<lambda>(a, r). (IpV6 a, r)) (read_ipv6 s))"

definition read_port :: "u16 parser" where
  "read_port s =
     Option.bind (read_given_char (CHR '':'') s) (\<lambda>(_, s).
     Option.bind (read_number 10 None True 65535 s) (\<lambda>(p, s).
     Some (word_of_nat p, s)))"

definition read_scope_id :: "u32 parser" where
  "read_scope_id s =
     Option.bind (read_given_char (CHR ''%'') s) (\<lambda>(_, s).
     Option.bind (read_number 10 None True 4294967295 s) (\<lambda>(p, s).
     Some (word_of_nat p, s)))"

definition read_sock_v4 :: "socket_addr parser" where
  "read_sock_v4 s =
     Option.bind (read_ipv4 s) (\<lambda>(ip, s).
     Option.bind (read_port s) (\<lambda>(port, s).
     Some (SockV4 ip port, s)))"

definition read_sock_v6 :: "socket_addr parser" where
  "read_sock_v6 s =
     Option.bind (read_given_char (CHR ''['') s) (\<lambda>(_, s).
     Option.bind (read_ipv6 s) (\<lambda>(ip, s).
     let (scope, s) = (case read_scope_id s of None \<Rightarrow> (0, s) | Some r \<Rightarrow> r) in
     Option.bind (read_given_char (CHR '']'') s) (\<lambda>(_, s).
     Option.bind (read_port s) (\<lambda>(port, s).
     Some (SockV6 ip port 0 scope, s)))))"

definition read_socket_addr :: "socket_addr parser" where
  "read_socket_addr s = (case read_sock_v4 s of Some r \<Rightarrow> Some r | None \<Rightarrow> read_sock_v6 s)"

text \<open>\<open>parse_with\<close>: the value, if the parser consumes the whole text.\<close>

definition parse_all :: "'a parser \<Rightarrow> string \<Rightarrow> 'a option" where
  "parse_all p s =
     (case p s of Some (x, r) \<Rightarrow> if r = [] then Some x else None | None \<Rightarrow> None)"

definition parse_ip :: "string \<Rightarrow> ip_addr option" where
  "parse_ip = parse_all read_ip_addr"

definition parse_sock :: "string \<Rightarrow> socket_addr option" where
  "parse_sock = parse_all read_socket_addr"

text \<open>
  Evaluation on literal texts is by rewriting with these definitions.
\<close>

lemmas ip_parse_defs =
  parse_ip_def parse_sock_def parse_all_def read_ip_addr_def read_ipv4_def read_ipv6_def
  read_octet_def read_separator_def read_number_def read_given_char_def to_digit_def
  digits_val_def ipv6_of_groups_def read_port_def read_scope_id_def read_sock_v4_def
  read_sock_v6_def read_socket_addr_def Let_def

lemma replicate_numeral_Cons:
  "replicate (numeral k) x = x # replicate (pred_numeral k) x"
  by (simp add: numeral_eq_Suc)

lemma read_groups_numeral [simp]:
  "read_groups (numeral n) i limit s =
     (case (if i + 1 < limit then read_separator (CHR '':'') i read_ipv4 s else None) of
        Some (v4, r) \<Rightarrow> ([unat v4 div 65536, unat v4 mod 65536], True, r)
      | None \<Rightarrow>
          (case read_separator (CHR '':'') i (read_number 16 (Some 4) True 65535) s of
             None \<Rightarrow> ([], False, s)
           | Some (g, r) \<Rightarrow>
               (let (gs, v4, r') = read_groups (pred_numeral n) (Suc i) limit r
                in (g # gs, v4, r'))))"
  by (simp add: numeral_eq_Suc)

lemmas ip_eval = ip_parse_defs replicate_numeral_Cons

lemma parse_ip_v4_example: "parse_ip ''192.0.2.20'' = Some (IpV4 0xC0000214)"
  by (simp add: ip_eval)


lemma parse_ip_v6_example:
  "parse_ip ''2001:db8::20'' = Some (IpV6 0x20010DB8000000000000000000000020)"
  by (simp add: ip_eval)

lemma parse_ip_mapped_example:
  "parse_ip ''::ffff:192.0.2.20'' = Some (IpV6 0xFFFFC0000214)"
  by (simp add: ip_eval)

lemma parse_sock_v6_example:
  "parse_sock ''[2606:4700:4700::1111%3]:53'' =
     Some (SockV6 0x26064700470000000000000000001111 53 0 3)"
  by (simp add: ip_eval)

lemma parse_ip_rejects:
  "parse_ip ''bad-ip'' = None" "parse_ip ''1.2.3'' = None" "parse_ip ''01.2.3.4'' = None"
  "parse_ip ''1.2.3.256'' = None" "parse_ip ''1::2::3'' = None" "parse_ip [] = None"
  by (simp_all add: ip_eval)

end
