(* ===== verification/Whitelist.thy ===== *)
theory Whitelist
  imports Ip_Parse
begin

text \<open>
  The \<open>Whitelist\<close> of \<open>src/config.rs\<close>: its text form, the addresses and networks it
  holds, and the test \<open>allows\<close> that both the TCP acceptor and the UDP loop make.

  The specification reads every address and network in the 128-bit space (an IPv4 address as
  its mapped IPv6 address, an IPv4 network with 96 more prefix bits): \<open>allows\<close> is then
  membership in one of the prefixes.
\<close>

unbundle bit_operations_syntax

text \<open>The error messages of the configuration, one constructor per message.\<close>

datatype cfg_error =
    UnknownArgument string | MissingValue string | EmptyConfigPath | DuplicateConfig
  | ReadFailed string | LineWithoutEquals nat | LineUnknownKey nat | LineError nat cfg_error
  | BadPort | BadTcpTimeout | BadUdpTimeout | BadDnsServer | BadDnsCount
  | BadWhitelistAddress string | BadWhitelistNetwork string | WhitelistWithoutEntry
  | CredentialPair | CredentialLength

record whitelist =
  wl_addresses :: "ip_addr list"
  wl_networks :: "(ip_addr \<times> u8) list"

definition wl_default :: whitelist where
  "wl_default = \<lparr>wl_addresses = [], wl_networks = []\<rparr>"

definition wl_is_empty :: "whitelist \<Rightarrow> bool" where
  "wl_is_empty w \<longleftrightarrow> wl_addresses w = [] \<and> wl_networks w = []"

definition normalize :: "ip_addr \<Rightarrow> ip_addr" where
  "normalize address =
     (case address of
        IpV6 ip \<Rightarrow> (case to_ipv4_mapped ip of Some v4 \<Rightarrow> IpV4 v4 | None \<Rightarrow> IpV6 ip)
      | IpV4 a \<Rightarrow> IpV4 a)"

text \<open>\<open>checked_shl\<close> yields nothing when the shift is not smaller than the width.\<close>

definition checked_shl :: "'a :: len word \<Rightarrow> u32 \<Rightarrow> 'a word option" where
  "checked_shl a n = (if unat n < LENGTH('a) then Some (push_bit (unat n) a) else None)"

definition unwrap_or :: "'a option \<Rightarrow> 'a \<Rightarrow> 'a" where
  "unwrap_or m d = (case m of Some x \<Rightarrow> x | None \<Rightarrow> d)"

fun prefix_matches :: "ip_addr \<Rightarrow> ip_addr \<Rightarrow> u8 \<Rightarrow> bool" where
  "prefix_matches (IpV4 a) (IpV4 b) bits =
     (let mask = unwrap_or (checked_shl (- 1 :: u32) (32 - ucast bits)) 0
      in a AND mask = b AND mask)"
| "prefix_matches (IpV6 a) (IpV6 b) bits =
     (let mask = unwrap_or (checked_shl (- 1 :: u128) (128 - ucast bits)) 0
      in a AND mask = b AND mask)"
| "prefix_matches _ _ bits = False"

definition wl_allows :: "whitelist \<Rightarrow> ip_addr \<Rightarrow> bool" where
  "wl_allows w address =
     (if wl_addresses w = [] \<and> wl_networks w = [] then True
      else
        (let normalized = normalize address in
         normalized \<in> set (wl_addresses w) \<or>
         (\<exists>(network, bits) \<in> set (wl_networks w).
            prefix_matches network normalized bits \<or> prefix_matches network address bits)))"

section \<open>Parsing\<close>

text \<open>A network inside the IPv4-mapped range is kept as an IPv4 network.\<close>

definition unmap_network :: "ip_addr \<Rightarrow> u8 \<Rightarrow> ip_addr \<times> u8" where
  "unmap_network ip bits =
     (case ip of
        IpV6 ip6 \<Rightarrow>
          (case to_ipv4_mapped ip6 of
             Some v4 \<Rightarrow> if bits \<ge> 96 then (IpV4 v4, bits - 96) else (ip, bits)
           | None \<Rightarrow> (ip, bits))
      | IpV4 _ \<Rightarrow> (ip, bits))"

text \<open>\<open>str::parse::<u8>\<close>.\<close>

definition parse_u8 :: "string \<Rightarrow> u8 option" where
  "parse_u8 s = map_option word_of_nat (parse_uint 255 s)"

text \<open>One entry of the list, added to what has been read so far.\<close>

definition wl_parse_entry :: "whitelist \<Rightarrow> string \<Rightarrow> cfg_error + whitelist" where
  "wl_parse_entry result entry =
     (case split_once (CHR ''/'') entry of
        Some (address, bits) \<Rightarrow>
          (case parse_ip address of
             None \<Rightarrow> Inl (BadWhitelistAddress entry)
           | Some ip \<Rightarrow>
               (case parse_u8 bits of
                  None \<Rightarrow> Inl (BadWhitelistNetwork entry)
                | Some bits \<Rightarrow>
                    if bits > (if is_ipv4 ip then 32 else 128)
                    then Inl (BadWhitelistNetwork entry)
                    else Inr (result\<lparr>wl_networks :=
                                wl_networks result @ [unmap_network ip bits]\<rparr>)))
      | None \<Rightarrow>
          (case parse_ip entry of
             None \<Rightarrow> Inl (BadWhitelistAddress entry)
           | Some ip \<Rightarrow>
               Inr (result\<lparr>wl_addresses := wl_addresses result @ [normalize ip]\<rparr>)))"

fun wl_parse_entries :: "whitelist \<Rightarrow> string list \<Rightarrow> cfg_error + whitelist" where
  "wl_parse_entries result [] = Inr result"
| "wl_parse_entries result (entry # entries) =
     (case wl_parse_entry result entry of
        Inl e \<Rightarrow> Inl e
      | Inr result \<Rightarrow> wl_parse_entries result entries)"

definition wl_parse :: "string \<Rightarrow> cfg_error + whitelist" where
  "wl_parse value =
     (case wl_parse_entries wl_default
             (filter (\<lambda>entry. entry \<noteq> []) (map trim (split_on (CHR '','') value))) of
        Inl e \<Rightarrow> Inl e
      | Inr result \<Rightarrow>
          if trim value \<noteq> [] \<and> wl_is_empty result then Inl WhitelistWithoutEntry
          else Inr result)"

section \<open>Canonical addresses\<close>

lemma normalize_simps [addr_simps]:
  "normalize (IpV4 a) = IpV4 a"
  "to_ipv4_mapped b = Some a \<Longrightarrow> normalize (IpV6 b) = IpV4 a"
  "to_ipv4_mapped b = None \<Longrightarrow> normalize (IpV6 b) = IpV6 b"
  by (simp_all add: normalize_def)

lemma normalize_cases:
  obtains (v4) a where "normalize ip = IpV4 a"
  | (v6) b where "normalize ip = IpV6 b" "ip = IpV6 b" "to_ipv4_mapped b = None"
proof (cases ip)
  case (IpV6 b)
  then show thesis
    using v4 v6 by (cases "to_ipv4_mapped b") (auto simp: normalize_def)
qed (use v4 in \<open>auto simp: normalize_def\<close>)

interpretation addr: canonical normalize
proof
  show "normalize (normalize ip) = normalize ip" for ip
    by (rule normalize_cases [of ip]) (simp_all add: addr_simps)
qed

text \<open>The 128-bit image of an address.\<close>

fun embed_ip :: "ip_addr \<Rightarrow> u128" where
  "embed_ip (IpV4 a) = to_ipv6_mapped a"
| "embed_ip (IpV6 a) = a"

lemma embed_normalize [simp]: "embed_ip (normalize ip) = embed_ip ip"
  by (cases ip) (auto simp: normalize_def dest: to_ipv4_mapped_Some split: option.splits)

lemma normalize_eq_iff: "normalize i = normalize j \<longleftrightarrow> embed_ip i = embed_ip j"
proof
  assume "embed_ip i = embed_ip j"
  moreover have "normalize k = normalize (IpV6 (embed_ip k))" for k
    by (cases k) (simp_all add: addr_simps)
  ultimately show "normalize i = normalize j" by metis
qed (metis embed_normalize)

section \<open>Prefixes\<close>

lemma and_high_mask:
  "(a :: 'a :: len word) AND NOT (mask k) = push_bit k (drop_bit k a)"
  by (rule bit_word_eqI) (auto simp: bit_simps dest: bit_imp_le_length)

lemma push_drop_eq_iff:
  "push_bit k (drop_bit k (a :: 'a :: len word)) = push_bit k (drop_bit k b) \<longleftrightarrow>
     drop_bit k a = drop_bit k b"
proof
  assume "push_bit k (drop_bit k a) = push_bit k (drop_bit k b)"
  then have "drop_bit k (push_bit k (drop_bit k a)) = drop_bit k (push_bit k (drop_bit k b))"
    by simp
  moreover have "drop_bit k (push_bit k (drop_bit k c)) = drop_bit k c" for c :: "'a word"
    by (rule bit_word_eqI) (auto simp: bit_simps dest: bit_imp_le_length)
  ultimately show "drop_bit k a = drop_bit k b" by simp
qed simp

lemma drop_bit_eq_iff:
  "drop_bit k (a :: 'a :: len word) = drop_bit k b \<longleftrightarrow> unat a div 2 ^ k = unat b div 2 ^ k"
  by (metis unat_drop_bit unsigned_word_eqI)

lemma checked_mask:
  fixes a b :: "'a :: len word"
  assumes "unat n \<le> LENGTH('a)"
  shows "a AND unwrap_or (checked_shl (- 1) n) 0 = b AND unwrap_or (checked_shl (- 1) n) 0 \<longleftrightarrow>
    unat a div 2 ^ unat n = unat b div 2 ^ unat n"
proof (cases "unat n < LENGTH('a)")
  case True
  then show ?thesis
    by (simp add: checked_shl_def unwrap_or_def and_high_mask push_drop_eq_iff
        drop_bit_eq_iff)
next
  case False
  with assms have "unat n = LENGTH('a)" by simp
  then show ?thesis
    using unsigned_less [of a] unsigned_less [of b]
    by (simp add: checked_shl_def unwrap_or_def)
qed

lemma unat_sub_bits:
  "unat (bits :: u8) \<le> n \<Longrightarrow> n \<le> 128 \<Longrightarrow> unat (word_of_nat n - ucast bits :: u32) = n - unat bits"
  by (simp add: unat_sub word_le_nat_alt unsigned_ucast_eq unat_of_nat take_bit_eq_mod)

lemma prefix_matches_v4:
  assumes "unat bits \<le> 32"
  shows "prefix_matches (IpV4 a) (IpV4 b) bits \<longleftrightarrow>
    unat a div 2 ^ (32 - unat bits) = unat b div 2 ^ (32 - unat bits)"
proof -
  have "unat (32 - ucast bits :: u32) = 32 - unat bits"
    using unat_sub_bits [OF assms] by simp
  then show ?thesis
    using checked_mask [of "32 - ucast bits" a b] by simp
qed

lemma prefix_matches_v6:
  assumes "unat bits \<le> 128"
  shows "prefix_matches (IpV6 a) (IpV6 b) bits \<longleftrightarrow>
    unat a div 2 ^ (128 - unat bits) = unat b div 2 ^ (128 - unat bits)"
proof -
  have "unat (128 - ucast bits :: u32) = 128 - unat bits"
    using unat_sub_bits [OF assms] by simp
  then show ?thesis
    using checked_mask [of "128 - ucast bits" a b] by simp
qed

section \<open>What the list denotes\<close>

text \<open>
  What \<open>wl_parse\<close> establishes: stored addresses are canonical; prefix lengths fit their
  family; a network inside \<open>::ffff:0:0/96\<close> is stored as an IPv4 network.
\<close>

definition wf_network :: "ip_addr \<times> u8 \<Rightarrow> bool" where
  "wf_network nb \<longleftrightarrow>
     (case nb of
        (IpV4 a, bits) \<Rightarrow> unat bits \<le> 32
      | (IpV6 a, bits) \<Rightarrow> unat bits \<le> 128 \<and> (to_ipv4_mapped a \<noteq> None \<longrightarrow> unat bits < 96))"

definition wf_whitelist :: "whitelist \<Rightarrow> bool" where
  "wf_whitelist w \<longleftrightarrow>
     (\<forall>a \<in> set (wl_addresses w). normalize a = a) \<and>
     (\<forall>nb \<in> set (wl_networks w). wf_network nb)"

text \<open>A prefix of the 128-bit space, and the prefixes of a list.\<close>

definition in_prefix :: "u128 \<Rightarrow> u128 \<times> nat \<Rightarrow> bool" where
  "in_prefix a p \<longleftrightarrow> unat a div 2 ^ (128 - snd p) = unat (fst p) div 2 ^ (128 - snd p)"

fun embed_network :: "ip_addr \<times> u8 \<Rightarrow> u128 \<times> nat" where
  "embed_network (IpV4 a, bits) = (to_ipv6_mapped a, 96 + unat bits)"
| "embed_network (IpV6 a, bits) = (a, unat bits)"

definition wl_prefixes :: "whitelist \<Rightarrow> (u128 \<times> nat) set" where
  "wl_prefixes w =
     (\<lambda>a. (embed_ip a, 128)) ` set (wl_addresses w) \<union> embed_network ` set (wl_networks w)"

lemma in_prefix_full [simp]: "in_prefix a (b, 128) \<longleftrightarrow> a = b"
  by (simp add: in_prefix_def) (metis unsigned_word_eqI)

lemma in_prefix_shorter:
  assumes "in_prefix a (b, n)" and "m \<le> n" and "n \<le> 128"
  shows "in_prefix a (b, m)"
proof -
  have e: "128 - m = (128 - n) + (n - m)"
    using assms(2,3) by simp
  have "unat a div 2 ^ (128 - n) div 2 ^ (n - m) = unat b div 2 ^ (128 - n) div 2 ^ (n - m)"
    using assms(1) by (simp add: in_prefix_def)
  then show ?thesis
    unfolding in_prefix_def fst_conv snd_conv e by (simp only: div_mult2_eq power_add)
qed

lemma in_prefix_96: "in_prefix a (b, 96) \<longleftrightarrow> drop_bit 32 a = drop_bit 32 b"
  by (simp add: in_prefix_def drop_bit_eq_iff)

lemma in_prefix_mapped:
  assumes "in_prefix a (b, n)" and "96 \<le> n" and "n \<le> 128"
  shows "to_ipv4_mapped a = None \<longleftrightarrow> to_ipv4_mapped b = None"
  using in_prefix_shorter [OF assms] by (simp add: in_prefix_96 to_ipv4_mapped_def)

lemma mapped_div: "k \<le> 32 \<Longrightarrow> unat (to_ipv6_mapped a) div 2 ^ k = 0xFFFF * 2 ^ (32 - k) + unat a div 2 ^ k"
proof -
  assume "k \<le> 32"
  then have "(0xFFFF * 2 ^ 32 :: nat) = 2 ^ k * (0xFFFF * 2 ^ (32 - k))"
    by (simp add: mult.left_commute flip: power_add)
  then have "unat (to_ipv6_mapped a) = unat a + 2 ^ k * (0xFFFF * 2 ^ (32 - k))"
    by (simp only: unat_to_ipv6_mapped add.commute)
  then show ?thesis
    by (simp only: div_mult_self2 [OF power_not_zero [OF zero_neq_numeral [symmetric]]])
qed

text \<open>An IPv4 prefix, seen in the 128-bit space, holds exactly the mapped addresses of its range.\<close>

lemma in_prefix_v4:
  assumes "unat bits \<le> 32"
  shows "in_prefix b (embed_network (IpV4 a, bits)) \<longleftrightarrow>
    (\<exists>c. to_ipv4_mapped b = Some c \<and> prefix_matches (IpV4 a) (IpV4 c) bits)"
proof -
  let ?k = "32 - unat bits"
  have k: "128 - (96 + unat bits) = ?k" "?k \<le> 32" "32 - ?k = unat bits"
    using assms by simp_all
  show ?thesis
  proof (cases "to_ipv4_mapped b")
    case (Some c)
    then have "b = to_ipv6_mapped c" by (rule to_ipv4_mapped_Some)
    then show ?thesis
      by (auto simp: in_prefix_def k mapped_div prefix_matches_v4 [OF assms]
          simp del: prefix_matches.simps)
  next
    case None
    have "\<not> in_prefix b (embed_network (IpV4 a, bits))"
      using in_prefix_mapped [of b "to_ipv6_mapped a" "96 + unat bits"] None assms by auto
    with None show ?thesis by simp
  qed
qed

lemma network_matches_iff:
  assumes "wf_network (n, bits)"
  shows "prefix_matches n (normalize (IpV6 b)) bits \<or> prefix_matches n (IpV6 b) bits \<longleftrightarrow>
    in_prefix b (embed_network (n, bits))"
proof (cases n)
  case (IpV4 a)
  then have "unat bits \<le> 32" using assms by (simp add: wf_network_def)
  from in_prefix_v4 [OF this, of b a] show ?thesis
    by (cases "to_ipv4_mapped b") (auto simp: IpV4 addr_simps)
next
  case (IpV6 a)
  then have "unat bits \<le> 128" using assms by (simp add: wf_network_def)
  from prefix_matches_v6 [OF this, of a b] show ?thesis
    by (cases "to_ipv4_mapped b")
      (auto simp: IpV6 addr_simps in_prefix_def simp del: prefix_matches.simps(2))
qed

lemma wl_allows_v6_iff:
  assumes "wf_whitelist w"
  shows "wl_allows w (IpV6 b) \<longleftrightarrow> wl_is_empty w \<or> (\<exists>p \<in> wl_prefixes w. in_prefix b p)"
proof -
  have "normalize (IpV6 b) \<in> set (wl_addresses w) \<longleftrightarrow>
      (\<exists>a \<in> set (wl_addresses w). b = embed_ip a)"
    using assms
    by (auto simp: wf_whitelist_def)
      (metis embed_normalize embed_ip.simps(2), metis normalize_eq_iff embed_ip.simps(2))
  moreover have "(\<exists>(n, bits) \<in> set (wl_networks w).
        prefix_matches n (normalize (IpV6 b)) bits \<or> prefix_matches n (IpV6 b) bits) \<longleftrightarrow>
      (\<exists>nb \<in> set (wl_networks w). in_prefix b (embed_network nb))"
  proof (rule bex_cong [OF refl])
    fix nb assume "nb \<in> set (wl_networks w)"
    with assms have "wf_network (fst nb, snd nb)" by (simp add: wf_whitelist_def)
    from network_matches_iff [OF this, of b]
    show "(case nb of (n, bits) \<Rightarrow>
        prefix_matches n (normalize (IpV6 b)) bits \<or> prefix_matches n (IpV6 b) bits) \<longleftrightarrow>
      in_prefix b (embed_network nb)"
      by (simp add: case_prod_beta)
  qed
  moreover have "wl_is_empty w \<Longrightarrow> wl_allows w (IpV6 b)"
    by (simp add: wl_allows_def wl_is_empty_def)
  moreover have "\<not> wl_is_empty w \<Longrightarrow> wl_allows w (IpV6 b) \<longleftrightarrow>
      normalize (IpV6 b) \<in> set (wl_addresses w) \<or>
      (\<exists>(n, bits) \<in> set (wl_networks w).
        prefix_matches n (normalize (IpV6 b)) bits \<or> prefix_matches n (IpV6 b) bits)"
    by (simp add: wl_allows_def wl_is_empty_def Let_def)
  moreover have "(\<exists>p \<in> wl_prefixes w. in_prefix b p) \<longleftrightarrow>
      (\<exists>a \<in> set (wl_addresses w). b = embed_ip a) \<or>
      (\<exists>nb \<in> set (wl_networks w). in_prefix b (embed_network nb))"
    by (simp add: wl_prefixes_def bex_Un)
  ultimately show ?thesis
    by blast
qed

lemma wl_allows_v4_mono:
  "wl_allows w (IpV4 a) \<Longrightarrow> wl_allows w (IpV6 (to_ipv6_mapped a))"
  by (auto simp: wl_allows_def Let_def addr_simps split: if_splits)

text \<open>
  For an IPv4 address as such, an IPv6 prefix shorter than 96 bits does not count, although
  it covers the mapped address.
\<close>

lemma wl_allows_v4_iff:
  assumes "wf_whitelist w"
  shows "wl_allows w (IpV4 a) \<longleftrightarrow> wl_is_empty w \<or>
    (\<exists>p \<in> wl_prefixes w. 96 \<le> snd p \<and> in_prefix (to_ipv6_mapped a) p)"
proof -
  have addr: "IpV4 a \<in> set (wl_addresses w) \<longleftrightarrow>
      (\<exists>i \<in> set (wl_addresses w). to_ipv6_mapped a = embed_ip i)"
  proof
    assume "\<exists>i \<in> set (wl_addresses w). to_ipv6_mapped a = embed_ip i"
    then obtain i where i: "i \<in> set (wl_addresses w)" "embed_ip (IpV4 a) = embed_ip i"
      by auto
    then have "normalize (IpV4 a) = normalize i" by (simp only: normalize_eq_iff)
    with i(1) assms show "IpV4 a \<in> set (wl_addresses w)"
      by (simp add: wf_whitelist_def addr_simps)
  qed force
  have nets: "(\<exists>(n, bits) \<in> set (wl_networks w). prefix_matches n (IpV4 a) bits) \<longleftrightarrow>
      (\<exists>nb \<in> set (wl_networks w). 96 \<le> snd (embed_network nb) \<and>
        in_prefix (to_ipv6_mapped a) (embed_network nb))"
  proof (rule bex_cong [OF refl])
    fix nb assume "nb \<in> set (wl_networks w)"
    with assms have "wf_network nb" by (simp add: wf_whitelist_def)
    then show "(case nb of (n, bits) \<Rightarrow> prefix_matches n (IpV4 a) bits) \<longleftrightarrow>
        96 \<le> snd (embed_network nb) \<and> in_prefix (to_ipv6_mapped a) (embed_network nb)"
      by (cases nb rule: embed_network.cases)
        (use in_prefix_v4 in_prefix_mapped [of "to_ipv6_mapped a"] in
          \<open>auto simp: wf_network_def simp del: prefix_matches.simps(1)\<close>)
  qed
  show ?thesis
    using addr nets
    by (auto simp: wl_allows_def wl_is_empty_def Let_def addr_simps wl_prefixes_def bex_Un)
qed

section \<open>What parsing establishes\<close>

lemma unmap_network_wf:
  assumes "bits \<le> (if is_ipv4 ip then 32 else 128)"
  shows "wf_network (unmap_network ip bits)"
proof (cases ip)
  case (IpV4 a)
  with assms show ?thesis
    by (simp add: unmap_network_def wf_network_def word_le_nat_alt)
next
  case (IpV6 a)
  with assms have "unat bits \<le> 128"
    by (simp add: word_le_nat_alt)
  moreover have "96 \<le> bits \<Longrightarrow> unat (bits - 96) = unat bits - 96"
    by (simp add: unat_sub)
  ultimately show ?thesis
    by (auto simp: IpV6 unmap_network_def wf_network_def word_le_nat_alt split: option.splits)
qed

lemma wl_parse_entry_wf:
  assumes "wl_parse_entry w e = Inr w'" and "wf_whitelist w"
  shows "wf_whitelist w' \<and> \<not> wl_is_empty w'"
  using assms
  by (auto simp: wl_parse_entry_def wf_whitelist_def wl_is_empty_def addr.canon_idem not_less
      unmap_network_wf split: option.splits if_splits)

lemma wl_parse_entries_wf:
  "wl_parse_entries w es = Inr w' \<Longrightarrow> wf_whitelist w \<Longrightarrow>
     wf_whitelist w' \<and> (es \<noteq> [] \<longrightarrow> \<not> wl_is_empty w')"
proof (induction es arbitrary: w)
  case (Cons e es)
  then obtain w1 where w1: "wl_parse_entry w e = Inr w1" "wl_parse_entries w1 es = Inr w'"
    by (auto split: sum.splits)
  from wl_parse_entry_wf [OF w1(1) Cons.prems(2)] Cons.IH [OF w1(2)] w1(2)
  show ?case by (cases es) auto
qed simp

lemma wl_parse_wf:
  assumes "wl_parse s = Inr w"
  shows "wf_whitelist w" and "trim s \<noteq> [] \<Longrightarrow> \<not> wl_is_empty w"
proof -
  obtain es where "wl_parse_entries wl_default es = Inr w"
    and e: "trim s \<noteq> [] \<Longrightarrow> \<not> wl_is_empty w"
    using assms by (auto simp: wl_parse_def split: sum.splits if_splits)
  moreover have "wf_whitelist wl_default"
    by (simp add: wf_whitelist_def wl_default_def)
  ultimately show "wf_whitelist w"
    by (blast dest: wl_parse_entries_wf)
  show "trim s \<noteq> [] \<Longrightarrow> \<not> wl_is_empty w" by (rule e)
qed


section \<open>Empty lists\<close>

lemma strip_front_chars:
  "set s \<subseteq> set (strip_front ws s) \<union> \<Union> (set ` set ws)"
proof (induction ws s rule: strip_front.induct)
  case (1 ws s)
  show ?case
  proof (cases "find (\<lambda>w. w \<noteq> [] \<and> take (length w) s = w) ws")
    case None
    then show ?thesis by (subst strip_front.simps) simp
  next
    case (Some w)
    then have w: "w \<in> set ws" "take (length w) s = w"
      by (auto simp: find_Some_iff)
    have "set s = set w \<union> set (drop (length w) s)"
      by (metis append_take_drop_id set_append w(2))
    moreover have "strip_front ws s = strip_front ws (drop (length w) s)"
      by (subst strip_front.simps) (simp add: Some)
    ultimately show ?thesis
      using "1.IH" [OF Some] w(1) by auto
  qed
qed

lemma trim_Nil_chars: "trim s = [] \<Longrightarrow> set s \<subseteq> \<Union> (set ` set whitespace)"
  using strip_front_chars [of s whitespace]
    strip_front_chars [of "rev (strip_front whitespace s)" "map rev whitespace"]
  by (auto simp: trim_def trim_start_def trim_end_def)

lemma split_on_single: "sep \<notin> set s \<Longrightarrow> split_on sep s = [s]"
  by (induction s) auto

lemma wl_parse_blank: "trim s = [] \<Longrightarrow> wl_parse s = Inr wl_default"
proof -
  assume "trim s = []"
  moreover from trim_Nil_chars [OF this] have "CHR '','' \<notin> set s"
    by (auto simp: whitespace_def)
  ultimately show ?thesis
    by (simp add: wl_parse_def split_on_single)
qed

lemma wl_parse_empty_iff: "wl_parse s = Inr w \<Longrightarrow> wl_is_empty w \<longleftrightarrow> trim s = []"
  using wl_parse_wf(2) [of s w] wl_parse_blank [of s]
  by (auto simp: wl_is_empty_def wl_default_def)

section \<open>A list of the repository's tests\<close>

lemmas wl_eval =
  wl_parse_def wl_parse_entry_def wl_default_def unmap_network_def parse_u8_def parse_uint_def
  digit_val_def trim_def trim_start_def trim_end_def strip_front.simps whitespace_def
  normalize_def to_ipv4_mapped_def wl_is_empty_def ip_eval

definition test_list :: whitelist where
  "test_list =
     \<lparr>wl_addresses = [IpV4 0xC633640A],
      wl_networks = [(IpV4 0xC0000200, 24), (IpV6 0x20010DB8000000000000000000000000, 32)]\<rparr>"

lemma wl_parse_test_list:
  "wl_parse ''198.51.100.10,192.0.2.0/24,2001:db8::/32'' = Inr test_list"
  by (simp add: wl_eval test_list_def)

section \<open>What the text denotes\<close>

text \<open>The prefix that one entry of the text stands for, read directly.\<close>

definition entry_prefix :: "string \<Rightarrow> (u128 \<times> nat) option" where
  "entry_prefix entry =
     (case split_once (CHR ''/'') entry of
        Some (address, bits) \<Rightarrow>
          (case (parse_ip address, parse_u8 bits) of
             (Some ip, Some bits) \<Rightarrow>
               if is_ipv4 ip then (if unat bits \<le> 32 then Some (embed_ip ip, 96 + unat bits) else None)
               else (if unat bits \<le> 128 then Some (embed_ip ip, unat bits) else None)
           | _ \<Rightarrow> None)
      | None \<Rightarrow> map_option (\<lambda>ip. (embed_ip ip, 128)) (parse_ip entry))"

lemma embed_unmap:
  "bits \<le> 128 \<Longrightarrow> embed_network (unmap_network ip bits) =
     (embed_ip ip, (if is_ipv4 ip then 96 else 0) + unat bits)"
  by (cases ip)
    (auto simp: unmap_network_def unat_sub word_le_nat_alt 
      dest: to_ipv4_mapped_Some [symmetric] split: option.splits)

lemma wl_parse_entry_prefix:
  "wl_parse_entry w e = Inr w' \<Longrightarrow>
     \<exists>p. entry_prefix e = Some p \<and> wl_prefixes w' = insert p (wl_prefixes w)"
proof (cases "split_once (CHR ''/'') e")
  case None
  assume "wl_parse_entry w e = Inr w'"
  with None show ?thesis
    by (auto simp: wl_parse_entry_def entry_prefix_def wl_prefixes_def split: option.splits)
next
  case (Some ab)
  assume r: "wl_parse_entry w e = Inr w'"
  obtain address bits where ab: "ab = (address, bits)" by (cases ab)
  obtain ip n where ip: "parse_ip address = Some ip" and n: "parse_u8 bits = Some n"
    and le: "n \<le> (if is_ipv4 ip then 32 else 128)"
    and w': "w' = w\<lparr>wl_networks := wl_networks w @ [unmap_network ip n]\<rparr>"
    using r Some ab by (auto simp: wl_parse_entry_def not_less split: option.splits if_splits)
  have "n \<le> 128"
    using le by (auto simp: word_le_nat_alt split: if_splits)
  then have "wl_prefixes w' = insert (embed_ip ip, (if is_ipv4 ip then 96 else 0) + unat n) (wl_prefixes w)"
    by (simp add: w' wl_prefixes_def embed_unmap)
  moreover have "entry_prefix e = Some (embed_ip ip, (if is_ipv4 ip then 96 else 0) + unat n)"
    using le by (simp add: entry_prefix_def Some ab ip n word_le_nat_alt split: if_splits)
  ultimately show ?thesis by blast
qed

lemma wl_parse_entries_prefixes:
  "wl_parse_entries w es = Inr w' \<Longrightarrow>
     (\<forall>e \<in> set es. entry_prefix e \<noteq> None) \<and>
     wl_prefixes w' = wl_prefixes w \<union> {p. \<exists>e \<in> set es. entry_prefix e = Some p}"
proof (induction es arbitrary: w)
  case (Cons e es)
  then obtain w1 where "wl_parse_entry w e = Inr w1" "wl_parse_entries w1 es = Inr w'"
    by (auto split: sum.splits)
  with Cons.IH [of w1] wl_parse_entry_prefix [of w e w1] show ?case by auto
qed simp

definition whitelist_entries :: "string \<Rightarrow> string list" where
  "whitelist_entries value = filter (\<lambda>entry. entry \<noteq> []) (map trim (split_on (CHR '','') value))"

lemma wl_parse_prefixes:
  assumes "wl_parse s = Inr w"
  shows "wl_prefixes w = {p. \<exists>e \<in> set (whitelist_entries s). entry_prefix e = Some p}"
proof -
  have "wl_parse_entries wl_default (whitelist_entries s) = Inr w"
    using assms by (auto simp: wl_parse_def whitelist_entries_def split: sum.splits if_splits)
  moreover have "wl_prefixes wl_default = {}"
    by (simp add: wl_prefixes_def wl_default_def)
  ultimately show ?thesis
    using wl_parse_entries_prefixes by blast
qed

section \<open>Properties\<close>

text \<open>C22: Who is let in. A list parsed from \<open>s\<close> admits an address if and only if
  \<open>s\<close> is blank (no restriction) or the address, seen as a 128-bit address, lies in the
  prefix of one of its entries; an IPv4 address only counts towards prefixes of at
  least 96 bits. The parse-time unmapping and the masks of \<open>prefix_matches\<close> change nothing.\<close>

theorem whitelist_membership:
  assumes "wl_parse s = Inr w"
  shows "wl_allows w ip \<longleftrightarrow> trim s = [] \<or>
    (\<exists>e \<in> set (whitelist_entries s). \<exists>p. entry_prefix e = Some p \<and>
       (is_ipv4 ip \<longrightarrow> 96 \<le> snd p) \<and> in_prefix (embed_ip ip) p)"
proof -
  note wf = wl_parse_wf(1) [OF assms]
  have "wl_allows w ip \<longleftrightarrow> wl_is_empty w \<or>
      (\<exists>p \<in> wl_prefixes w. (is_ipv4 ip \<longrightarrow> 96 \<le> snd p) \<and> in_prefix (embed_ip ip) p)"
    by (cases ip) (simp_all add: wl_allows_v4_iff [OF wf] wl_allows_v6_iff [OF wf])
  then show ?thesis
    unfolding wl_parse_empty_iff [OF assms] wl_parse_prefixes [OF assms] by blast
qed

theorem whitelist_membership_witness:
  "wl_allows test_list (IpV4 0xC0000207) \<longleftrightarrow>
     trim ''198.51.100.10,192.0.2.0/24,2001:db8::/32'' = [] \<or>
     (\<exists>e \<in> set (whitelist_entries ''198.51.100.10,192.0.2.0/24,2001:db8::/32'').
        \<exists>p. entry_prefix e = Some p \<and> (is_ipv4 (IpV4 0xC0000207) \<longrightarrow> 96 \<le> snd p) \<and>
          in_prefix (embed_ip (IpV4 0xC0000207)) p)"
  by (rule whitelist_membership [OF wl_parse_test_list])

text \<open>The list fails closed: a text with anything in it never parses to a list without
  restriction, however it is laid out, and a blank text always parses to one.\<close>

theorem whitelist_fails_closed:
  "(wl_parse s = Inr w \<longrightarrow> (wl_is_empty w \<longleftrightarrow> trim s = [])) \<and>
   (trim s = [] \<longrightarrow> wl_parse s = Inr wl_default)"
  using wl_parse_empty_iff wl_parse_blank by blast

theorem whitelist_fails_closed_witness:
  "wl_parse '' '' = Inr wl_default \<and> wl_is_empty wl_default"
proof -
  have "trim '' '' = []"
    by (simp add: wl_eval)
  with whitelist_fails_closed [of "'' ''" wl_default] show ?thesis by blast
qed

text \<open>The family a peer shows up in makes no difference for IPv4 entries: an IPv4 address
  that is admitted is also admitted in its IPv4-mapped IPv6 form.\<close>

theorem whitelist_mapped_form:
  "wl_allows w (IpV4 a) \<Longrightarrow> wl_allows w (IpV6 (to_ipv6_mapped a))"
  by (rule wl_allows_v4_mono)

theorem whitelist_mapped_form_witness:
  "wl_allows wl_default (IpV6 (to_ipv6_mapped 7))"
  by (rule whitelist_mapped_form) (simp add: wl_allows_def wl_default_def)

end
