(* ===== verification/Config.thy ===== *)
theory Config
  imports Whitelist
begin

text \<open>
  The \<open>Config\<close> of \<open>src/config.rs\<close>: the command line, the configuration file, the
  option values and the final validation. The file system is the parameter
  \<open>read_to_string\<close>. What \<open>--help\<close> and \<open>--version\<close> print is not modelled; that
  they end the program without a configuration is (\<open>Inr None\<close>).
\<close>

record config =
  cfg_port :: u16
  cfg_username :: string
  cfg_password :: string
  cfg_whitelist :: whitelist
  cfg_tcp_timeout :: "u64 option"
  cfg_udp_timeout :: u64
  cfg_dns_servers :: "socket_addr list"

definition cfg_default :: config where
  "cfg_default =
     \<lparr>cfg_port = 1080, cfg_username = [], cfg_password = [], cfg_whitelist = wl_default,
      cfg_tcp_timeout = None, cfg_udp_timeout = 60,
      cfg_dns_servers = [SockV4 0x08080808 53, SockV4 0x01010101 53]\<rparr>"

definition parse_u16 :: "string \<Rightarrow> u16 option" where
  "parse_u16 s = map_option word_of_nat (parse_uint 65535 s)"

definition parse_u64 :: "string \<Rightarrow> u64 option" where
  "parse_u64 s = map_option word_of_nat (parse_uint 18446744073709551615 s)"

section \<open>Option values\<close>

text \<open>One entry of \<open>--dns-servers\<close>: a socket address, or an address with port 53.\<close>

definition parse_dns_server :: "string \<Rightarrow> socket_addr option" where
  "parse_dns_server entry =
     (let entry = trim entry in
      case parse_sock entry of
        Some a \<Rightarrow> Some a
      | None \<Rightarrow> map_option (\<lambda>ip. sock_new ip 53) (parse_ip entry))"

fun collect_options :: "'a option list \<Rightarrow> 'a list option" where
  "collect_options [] = Some []"
| "collect_options (None # xs) = None"
| "collect_options (Some x # xs) = map_option ((#) x) (collect_options xs)"

definition parse_dns_servers :: "string \<Rightarrow> cfg_error + socket_addr list" where
  "parse_dns_servers value =
     (case collect_options (map parse_dns_server (split_on (CHR '','') value)) of
        None \<Rightarrow> Inl BadDnsServer
      | Some servers \<Rightarrow>
          if servers = [] \<or> length servers > 8 \<or>
             list_ex (\<lambda>server. is_unspecified (sock_ip server) \<or> sock_port server = 0) servers
          then Inl BadDnsCount
          else Inr servers)"

text \<open>The arms of the match on the key, and the key strings of each.\<close>

datatype arm =
    PortArm | UserArm | PwdArm | WhitelistArm | TcpTimeoutArm | UdpTimeoutArm | DnsArm | OtherArm

definition match_key :: "string \<Rightarrow> arm" where
  "match_key key =
     (if key \<in> {''-p'', ''--port''} then PortArm
      else if key \<in> {''-user'', ''--user''} then UserArm
      else if key \<in> {''-pwd'', ''--pwd''} then PwdArm
      else if key = ''--whitelist'' then WhitelistArm
      else if key = ''--tcp-timeout'' then TcpTimeoutArm
      else if key = ''--udp-timeout'' then UdpTimeoutArm
      else if key = ''--dns-servers'' then DnsArm
      else OtherArm)"

text \<open>
  \<open>apply_value\<close>. Where the code has already stored a value when it finds it invalid (port
  0), the configuration is dropped with the error by every caller.
\<close>

definition apply_value :: "config \<Rightarrow> string \<Rightarrow> string \<Rightarrow> cfg_error + config" where
  "apply_value config key value =
     (case match_key key of
        PortArm \<Rightarrow>
          (case parse_u16 value of
             None \<Rightarrow> Inl BadPort
           | Some port \<Rightarrow> if port = 0 then Inl BadPort else Inr (config\<lparr>cfg_port := port\<rparr>))
      | UserArm \<Rightarrow> Inr (config\<lparr>cfg_username := value\<rparr>)
      | PwdArm \<Rightarrow> Inr (config\<lparr>cfg_password := value\<rparr>)
      | WhitelistArm \<Rightarrow>
          (case wl_parse value of
             Inl e \<Rightarrow> Inl e
           | Inr w \<Rightarrow> Inr (config\<lparr>cfg_whitelist := w\<rparr>))
      | TcpTimeoutArm \<Rightarrow>
          (case parse_u64 value of
             None \<Rightarrow> Inl BadTcpTimeout
           | Some seconds \<Rightarrow>
               Inr (config\<lparr>cfg_tcp_timeout := if seconds > 0 then Some seconds else None\<rparr>))
      | UdpTimeoutArm \<Rightarrow>
          (case parse_u64 value of
             None \<Rightarrow> Inl BadUdpTimeout
           | Some seconds \<Rightarrow> Inr (config\<lparr>cfg_udp_timeout := seconds\<rparr>))
      | DnsArm \<Rightarrow>
          (case parse_dns_servers value of
             Inl e \<Rightarrow> Inl e
           | Inr servers \<Rightarrow> Inr (config\<lparr>cfg_dns_servers := servers\<rparr>))
      | OtherArm \<Rightarrow> Inl (UnknownArgument key))"

definition cfg_validate :: "config \<Rightarrow> cfg_error + unit" where
  "cfg_validate config =
     (if (cfg_username config = []) \<noteq> (cfg_password config = []) then Inl CredentialPair
      else if length (cfg_username config) > 255 \<or> length (cfg_password config) > 255
      then Inl CredentialLength
      else Inr ())"

section \<open>The configuration file\<close>

definition file_option :: "string \<Rightarrow> string option" where
  "file_option key =
     (if key = ''port'' then Some ''--port''
      else if key = ''username'' then Some ''--user''
      else if key = ''password'' then Some ''--pwd''
      else if key = ''whitelist'' then Some ''--whitelist''
      else if key = ''tcp_timeout'' then Some ''--tcp-timeout''
      else if key = ''udp_timeout'' then Some ''--udp-timeout''
      else if key = ''dns_servers'' then Some ''--dns-servers''
      else None)"

definition skip_line :: "string \<Rightarrow> bool" where
  "skip_line line \<longleftrightarrow>
     trim line = [] \<or> (trim_start line \<noteq> [] \<and> hd (trim_start line) = CHR ''#'')"

text \<open>The loop over the lines; \<open>index\<close> counts from 0, messages from 1.\<close>

fun read_lines :: "nat \<Rightarrow> config \<Rightarrow> string list \<Rightarrow> cfg_error + config" where
  "read_lines index config [] = Inr config"
| "read_lines index config (line # rest) =
     (let line = strip_cr line in
      if skip_line line then read_lines (index + 1) config rest
      else
        (case split_once (CHR ''='') line of
           None \<Rightarrow> Inl (LineWithoutEquals (index + 1))
         | Some (key, value) \<Rightarrow>
             (case file_option (trim key) of
                None \<Rightarrow> Inl (LineUnknownKey (index + 1))
              | Some option \<Rightarrow>
                  (case apply_value config option value of
                     Inl e \<Rightarrow> Inl (LineError (index + 1) e)
                   | Inr config \<Rightarrow> read_lines (index + 1) config rest))))"

definition read_file ::
  "(string \<Rightarrow> string option) \<Rightarrow> config \<Rightarrow> string \<Rightarrow> cfg_error + config" where
  "read_file read_to_string config path =
     (case read_to_string path of
        None \<Rightarrow> Inl (ReadFailed path)
      | Some contents \<Rightarrow> read_lines 0 config (str_lines contents))"

section \<open>The command line\<close>

definition known_keys :: "string list" where
  "known_keys =
     [''--config'', ''-p'', ''--port'', ''-user'', ''--user'', ''-pwd'', ''--pwd'',
      ''--whitelist'', ''--tcp-timeout'', ''--udp-timeout'', ''--dns-servers'']"

text \<open>The arguments that print a text and end the program.\<close>

definition prints_only :: "string \<Rightarrow> bool" where
  "prints_only arg \<longleftrightarrow> arg \<in> {''-h'', ''--help''} \<or> arg = ''--version''"

text \<open>The key of an argument and, after an equals sign, its value.\<close>

definition split_arg :: "string \<Rightarrow> string \<times> string option" where
  "split_arg arg =
     (case split_once (CHR ''='') arg of
        Some (key, value) \<Rightarrow> (key, Some value)
      | None \<Rightarrow> (arg, None))"

type_synonym options = "(string \<times> string) list"

text \<open>What the loop does with one key and its value.\<close>

definition add_option ::
  "string \<Rightarrow> string \<Rightarrow> string option \<times> options \<Rightarrow> cfg_error + (string option \<times> options)" where
  "add_option key value st =
     (case st of
        (config_path, overrides) \<Rightarrow>
          if key = ''--config'' then
            (if value = [] then Inl EmptyConfigPath
             else if config_path \<noteq> None then Inl DuplicateConfig
             else Inr (Some value, overrides))
          else Inr (config_path, overrides @ [(key, value)]))"

fun parse_args ::
  "string list \<Rightarrow> string option \<times> options \<Rightarrow> cfg_error + (string option \<times> options) option" where
  "parse_args [] st = Inr (Some st)"
| "parse_args (arg # args) st =
     (if prints_only arg then Inr None
      else
        (case split_arg arg of
           (key, inline) \<Rightarrow>
             if key \<notin> set known_keys then Inl (UnknownArgument key)
             else
               (case inline of
                  Some value \<Rightarrow>
                    (case add_option key value st of
                       Inl e \<Rightarrow> Inl e
                     | Inr st \<Rightarrow> parse_args args st)
                | None \<Rightarrow>
                    (case args of
                       [] \<Rightarrow> Inl (MissingValue key)
                     | value # args' \<Rightarrow>
                         (case add_option key value st of
                            Inl e \<Rightarrow> Inl e
                          | Inr st \<Rightarrow> parse_args args' st)))))"

fun apply_all :: "config \<Rightarrow> options \<Rightarrow> cfg_error + config" where
  "apply_all config [] = Inr config"
| "apply_all config ((key, value) # rest) =
     (case apply_value config key value of
        Inl e \<Rightarrow> Inl e
      | Inr config \<Rightarrow> apply_all config rest)"

definition config_parse ::
  "(string \<Rightarrow> string option) \<Rightarrow> string list \<Rightarrow> cfg_error + config option" where
  "config_parse read_to_string args =
     (case parse_args args (None, []) of
        Inl e \<Rightarrow> Inl e
      | Inr None \<Rightarrow> Inr None
      | Inr (Some (config_path, overrides)) \<Rightarrow>
          (case (case config_path of
                   None \<Rightarrow> Inr cfg_default
                 | Some path \<Rightarrow> read_file read_to_string cfg_default path) of
             Inl e \<Rightarrow> Inl e
           | Inr config \<Rightarrow>
               (case apply_all config overrides of
                  Inl e \<Rightarrow> Inl e
                | Inr config \<Rightarrow>
                    (case cfg_validate config of
                       Inl e \<Rightarrow> Inl e
                     | Inr _ \<Rightarrow> Inr (Some config)))))"

section \<open>Valid configurations\<close>

definition valid_server :: "socket_addr \<Rightarrow> bool" where
  "valid_server a \<longleftrightarrow> \<not> is_unspecified (sock_ip a) \<and> sock_port a \<noteq> 0"

text \<open>What holds of the configuration after every option.\<close>

definition config_inv :: "config \<Rightarrow> bool" where
  "config_inv c \<longleftrightarrow>
     cfg_port c \<noteq> 0 \<and> wf_whitelist (cfg_whitelist c) \<and> cfg_tcp_timeout c \<noteq> Some 0 \<and>
     cfg_dns_servers c \<noteq> [] \<and> length (cfg_dns_servers c) \<le> 8 \<and>
     list_all valid_server (cfg_dns_servers c)"

text \<open>What validation adds.\<close>

definition valid_credentials :: "string \<Rightarrow> string \<Rightarrow> bool" where
  "valid_credentials u p \<longleftrightarrow> (u = [] \<longleftrightarrow> p = []) \<and> length u \<le> 255 \<and> length p \<le> 255"

lemma config_inv_default: "config_inv cfg_default"
  by (simp add: config_inv_def cfg_default_def wf_whitelist_def wl_default_def valid_server_def)

lemma parse_dns_servers_Inr:
  "parse_dns_servers v = Inr servers \<Longrightarrow>
     servers \<noteq> [] \<and> length servers \<le> 8 \<and> list_all valid_server servers"
  by (auto simp: parse_dns_servers_def valid_server_def list_ex_iff list_all_iff
      split: option.splits if_splits)

lemma apply_value_inv:
  "apply_value c key value = Inr c' \<Longrightarrow> config_inv c \<Longrightarrow> config_inv c'"
  by (auto simp: apply_value_def config_inv_def
      dest: wl_parse_wf(1) parse_dns_servers_Inr split: arm.splits option.splits sum.splits if_splits)

lemma apply_all_inv:
  "apply_all c opts = Inr c' \<Longrightarrow> config_inv c \<Longrightarrow> config_inv c'"
  by (induction c opts rule: apply_all.induct)
    (auto dest: apply_value_inv split: sum.splits)

lemma cfg_validate_Inr:
  "cfg_validate c = Inr u \<longleftrightarrow> valid_credentials (cfg_username c) (cfg_password c)"
  by (auto simp: cfg_validate_def valid_credentials_def split: if_splits)

section \<open>The file as a list of options\<close>

text \<open>
  The options a file stands for, when every line is blank, a comment, or names a key.
\<close>

fun file_options :: "string list \<Rightarrow> options option" where
  "file_options [] = Some []"
| "file_options (line # rest) =
     (let line = strip_cr line in
      if skip_line line then file_options rest
      else
        (case split_once (CHR ''='') line of
           None \<Rightarrow> None
         | Some (key, value) \<Rightarrow>
             (case file_option (trim key) of
                None \<Rightarrow> None
              | Some option \<Rightarrow> map_option ((#) (option, value)) (file_options rest))))"

lemma read_lines_apply_all:
  "read_lines i c lines = Inr c' \<longleftrightarrow>
     (\<exists>opts. file_options lines = Some opts \<and> apply_all c opts = Inr c')"
  by (induction i c lines rule: read_lines.induct)
    (auto simp: Let_def split: option.splits sum.splits)

lemma apply_all_append:
  "apply_all c (xs @ ys) =
     (case apply_all c xs of Inl e \<Rightarrow> Inl e | Inr c' \<Rightarrow> apply_all c' ys)"
  by (induction c xs rule: apply_all.induct) (auto split: sum.splits)

lemma config_parse_Inr:
  "config_parse fs args = Inr (Some c) \<longleftrightarrow>
     (\<exists>path overrides file_opts.
        parse_args args (None, []) = Inr (Some (path, overrides)) \<and>
        (case path of
           None \<Rightarrow> file_opts = []
         | Some p \<Rightarrow> \<exists>text. fs p = Some text \<and> file_options (str_lines text) = Some file_opts) \<and>
        apply_all cfg_default (file_opts @ overrides) = Inr c \<and>
        valid_credentials (cfg_username c) (cfg_password c))"
  (is "?l \<longleftrightarrow> ?r")
proof
  assume ?l
  then obtain path overrides c0 where
    a: "parse_args args (None, []) = Inr (Some (path, overrides))" and
    f: "(case path of None \<Rightarrow> Inr cfg_default | Some p \<Rightarrow> read_file fs cfg_default p) = Inr c0" and
    o: "apply_all c0 overrides = Inr c" and
    v: "cfg_validate c = Inr ()"
    by (auto simp: config_parse_def split: sum.splits option.splits)
  from f o show ?r
    by (cases path)
      (auto simp: a v [unfolded cfg_validate_Inr] read_file_def read_lines_apply_all
        apply_all_append split: option.splits)
next
  assume ?r
  then obtain path overrides file_opts where
    a: "parse_args args (None, []) = Inr (Some (path, overrides))" and
    f: "case path of
           None \<Rightarrow> file_opts = []
         | Some p \<Rightarrow> \<exists>text. fs p = Some text \<and> file_options (str_lines text) = Some file_opts" and
    o: "apply_all cfg_default (file_opts @ overrides) = Inr c" and
    v: "valid_credentials (cfg_username c) (cfg_password c)"
    by blast
  obtain c0 where c0: "apply_all cfg_default file_opts = Inr c0" "apply_all c0 overrides = Inr c"
    using o by (auto simp: apply_all_append split: sum.splits)
  have "(case path of None \<Rightarrow> Inr cfg_default | Some p \<Rightarrow> read_file fs cfg_default p) = Inr c0"
    using f c0(1) by (auto simp: read_file_def read_lines_apply_all split: option.splits)
  moreover have "cfg_validate c = Inr ()"
    using v by (simp add: cfg_validate_Inr)
  ultimately show ?l
    using a c0(2) by (simp add: config_parse_def)
qed

lemma config_parse_valid:
  assumes "config_parse fs args = Inr (Some c)"
  shows "config_inv c" and "valid_credentials (cfg_username c) (cfg_password c)"
  using assms by (auto simp: config_parse_Inr intro: apply_all_inv config_inv_default)

section \<open>The order of the command line\<close>

lemma add_option_Some_path:
  "add_option k v st = Inr st' \<Longrightarrow> fst st = Some q \<Longrightarrow> fst st' = Some q"
  by (auto simp: add_option_def split: prod.splits if_splits)

lemma add_option_add_path:
  "add_option k v (None, ov) = Inr (None, o2) \<Longrightarrow>
     add_option k v (Some p, ov) = Inr (Some p, o2)"
  by (auto simp: add_option_def split: if_splits)

text \<open>One step of the loop, with what is left of the arguments.\<close>

definition arg_step :: "string \<Rightarrow> string list \<Rightarrow> (string \<times> string \<times> string list) option" where
  "arg_step arg args =
     (if prints_only arg \<or> fst (split_arg arg) \<notin> set known_keys then None
      else case (snd (split_arg arg), args) of
        (Some value, _) \<Rightarrow> Some (fst (split_arg arg), value, args)
      | (None, []) \<Rightarrow> None
      | (None, value # args') \<Rightarrow> Some (fst (split_arg arg), value, args'))"

lemma parse_args_step:
  "parse_args (arg # args) st = Inr (Some st') \<longleftrightarrow>
     (\<exists>key value rest st1. arg_step arg args = Some (key, value, rest) \<and>
        add_option key value st = Inr st1 \<and> parse_args rest st1 = Inr (Some st'))"
  by (subst parse_args.simps)
    (auto simp: arg_step_def simp del: parse_args.simps
      split: if_splits option.splits list.splits sum.splits prod.splits)

lemma arg_step_shorter: "arg_step arg args = Some (k, v, rest) \<Longrightarrow> length rest \<le> length args"
  by (auto simp: arg_step_def split: if_splits option.splits list.splits prod.splits)

lemma arg_step_append:
  "arg_step arg args = Some (k, v, rest) \<Longrightarrow> arg_step arg (args @ ys) = Some (k, v, rest @ ys)"
  by (auto simp: arg_step_def split: if_splits option.splits list.splits prod.splits)

text \<open>Induction over the steps of a loop that consumes all its arguments.\<close>

lemma parse_args_induct [consumes 1, case_names finished step]:
  assumes "parse_args xs st = Inr (Some st')"
    and "P [] st'"
    and "\<And>arg args k v rest st st1. arg_step arg args = Some (k, v, rest) \<Longrightarrow>
      add_option k v st = Inr st1 \<Longrightarrow> parse_args rest st1 = Inr (Some st') \<Longrightarrow>
      P rest st1 \<Longrightarrow> P (arg # args) st"
  shows "P xs st"
  using assms(1)
proof (induction xs arbitrary: st rule: length_induct)
  case (1 xs)
  show ?case
  proof (cases xs)
    case Nil
    with "1.prems" assms(2) show ?thesis by simp
  next
    case (Cons arg args)
    then obtain k v rest st1 where
      s: "arg_step arg args = Some (k, v, rest)" "add_option k v st = Inr st1"
        "parse_args rest st1 = Inr (Some st')"
      using "1.prems" by (auto simp only: parse_args_step)
    have "length rest < length xs"
      using arg_step_shorter [OF s(1)] Cons by simp
    then have "P rest st1"
      using "1.IH" s(3) by blast
    then show ?thesis
      unfolding Cons by (rule assms(3) [OF s])
  qed
qed

lemma parse_args_unfold:
  "arg_step arg args = Some (k, v, rest) \<Longrightarrow>
     parse_args (arg # args) st =
       (case add_option k v st of Inl e \<Rightarrow> Inl e | Inr st1 \<Rightarrow> parse_args rest st1)"
  by (subst parse_args.simps)
    (auto simp: arg_step_def simp del: parse_args.simps
      split: if_splits option.splits list.splits prod.splits sum.splits)

lemma parse_args_append:
  "parse_args xs st = Inr (Some st') \<Longrightarrow> parse_args (xs @ ys) st = parse_args ys st'"
proof (induction xs st rule: parse_args_induct)
  case (step arg args k v rest st st1)
  from parse_args_unfold [OF arg_step_append [OF step(1)]] step(2,4) show ?case
    by (simp del: parse_args.simps)
qed simp

lemma parse_args_Some_path:
  "parse_args xs st = Inr (Some st') \<Longrightarrow> fst st = Some q \<Longrightarrow> fst st' = Some q"
  by (induction xs st rule: parse_args_induct) (auto dest: add_option_Some_path)

lemma parse_args_add_path:
  "parse_args xs st = Inr (Some (None, ov')) \<Longrightarrow>
     parse_args xs (Some p, snd st) = Inr (Some (Some p, ov'))"
proof (induction xs st rule: parse_args_induct)
  case (step arg args k v rest st st1)
  have "fst st1 = None" "fst st = None"
    using parse_args_Some_path [OF step(3)] add_option_Some_path [OF step(2)] by fastforce+
  then have "add_option k v (Some p, snd st) = Inr (Some p, snd st1)"
    using step(2) by (intro add_option_add_path) (metis prod.collapse)
  with step(1,4) show ?case by (auto simp only: parse_args_step)
qed simp

lemma parse_config_option:
  "p \<noteq> [] \<Longrightarrow>
     parse_args (''--config'' # p # ys) (None, ov) = parse_args ys (Some p, ov)"
  by (simp add: add_option_def prints_only_def split_arg_def known_keys_def)

lemma config_option_anywhere:
  assumes "parse_args xs (None, []) = Inr (Some (None, ov))" and "p \<noteq> []"
  shows "parse_args (xs @ [''--config'', p] @ ys) (None, []) =
    parse_args ([''--config'', p] @ xs @ ys) (None, [])"
proof -
  have "parse_args (xs @ [''--config'', p] @ ys) (None, []) = parse_args ys (Some p, ov)"
    using parse_args_append [OF assms(1)] parse_config_option [OF assms(2)] by simp
  moreover have "parse_args (xs @ ys) (Some p, []) = parse_args ys (Some p, ov)"
    using parse_args_append [OF parse_args_add_path [OF assms(1)]] by simp
  ultimately show ?thesis
    using parse_config_option [OF assms(2), of "xs @ ys"] by simp
qed

section \<open>The last value of an option\<close>

lemma apply_value_port:
  "match_key k = PortArm \<Longrightarrow> apply_value c k v = Inr c' \<Longrightarrow> parse_u16 v = Some (cfg_port c')"
  by (auto simp: apply_value_def split: option.splits if_splits)

lemma apply_value_not_port:
  "match_key k \<noteq> PortArm \<Longrightarrow> apply_value c k v = Inr c' \<Longrightarrow> cfg_port c' = cfg_port c"
  by (auto simp: apply_value_def split: arm.splits option.splits sum.splits)

lemma apply_all_not_port:
  "apply_all c opts = Inr c' \<Longrightarrow> list_all (\<lambda>(k, v). match_key k \<noteq> PortArm) opts \<Longrightarrow>
     cfg_port c' = cfg_port c"
  by (induction c opts rule: apply_all.induct)
    (auto dest: apply_value_not_port split: sum.splits)

lemma last_port:
  assumes "apply_all c (xs @ (k, v) # ys) = Inr c'" and "match_key k = PortArm"
    and "list_all (\<lambda>(k, v). match_key k \<noteq> PortArm) ys"
  shows "parse_u16 v = Some (cfg_port c')"
proof -
  obtain c1 c2 where "apply_value c1 k v = Inr c2" "apply_all c2 ys = Inr c'"
    using assms(1) by (auto simp: apply_all_append split: sum.splits)
  with apply_value_port [OF assms(2)] apply_all_not_port [OF _ assms(3)] show ?thesis
    by metis
qed

section \<open>Properties\<close>

text \<open>C36: What a command line means. Parsing yields a configuration if and only if the arguments
  are well formed, the file (if one is named) can be read and every line of it names an
  option, and applying the file's options and then the command line's to the defaults gives
  that configuration, with valid credentials. So the command line wins over the file.\<close>

theorem config_parse_meaning:
  "config_parse fs args = Inr (Some c) \<longleftrightarrow>
     (\<exists>path overrides file_opts.
        parse_args args (None, []) = Inr (Some (path, overrides)) \<and>
        (case path of
           None \<Rightarrow> file_opts = []
         | Some p \<Rightarrow> \<exists>text. fs p = Some text \<and> file_options (str_lines text) = Some file_opts) \<and>
        apply_all cfg_default (file_opts @ overrides) = Inr c \<and>
        valid_credentials (cfg_username c) (cfg_password c))"
  by (rule config_parse_Inr)

text \<open>C40: Every configuration the program starts with is sound, wherever the options came from:
  a nonzero port, a well-formed whitelist, no zero TCP timeout, between one and eight name
  servers with proper addresses and ports, and credentials that are both present or both
  absent and fit the protocol's length byte.\<close>

theorem config_always_valid:
  assumes "config_parse fs args = Inr (Some c)"
  shows "cfg_port c \<noteq> 0 \<and> wf_whitelist (cfg_whitelist c) \<and> cfg_tcp_timeout c \<noteq> Some 0 \<and>
    cfg_dns_servers c \<noteq> [] \<and> length (cfg_dns_servers c) \<le> 8 \<and>
    list_all valid_server (cfg_dns_servers c) \<and>
    valid_credentials (cfg_username c) (cfg_password c)"
  using config_parse_valid [OF assms] by (simp add: config_inv_def)

theorem config_always_valid_witness:
  "cfg_port cfg_default \<noteq> 0 \<and> wf_whitelist (cfg_whitelist cfg_default) \<and>
   cfg_tcp_timeout cfg_default \<noteq> Some 0 \<and>
   cfg_dns_servers cfg_default \<noteq> [] \<and> length (cfg_dns_servers cfg_default) \<le> 8 \<and>
   list_all valid_server (cfg_dns_servers cfg_default) \<and>
   valid_credentials (cfg_username cfg_default) (cfg_password cfg_default)"
proof -
  have "config_parse (\<lambda>_. None) [] = Inr (Some cfg_default)"
    by (simp add: config_parse_def cfg_validate_def cfg_default_def)
  then show ?thesis by (rule config_always_valid)
qed

text \<open>The place of \<open>--config\<close> on the command line does not matter: the option and its path can
  be moved to the front of all options before it.\<close>

theorem config_option_position:
  assumes "parse_args xs (None, []) = Inr (Some (None, ov))" and "p \<noteq> []"
  shows "config_parse fs (xs @ [''--config'', p] @ ys) = config_parse fs ([''--config'', p] @ xs @ ys)"
  unfolding config_parse_def config_option_anywhere [OF assms] ..

theorem config_option_position_witness:
  "config_parse (\<lambda>_. Some ''port=9'') ([''--port=7''] @ [''--config'', ''f''] @ []) =
   config_parse (\<lambda>_. Some ''port=9'') ([''--config'', ''f''] @ [''--port=7''] @ [])"
proof -
  have "parse_args [''--port=7''] (None, []) = Inr (Some (None, [(''--port'', ''7'')]))"
    by (simp add: prints_only_def split_arg_def split_once.simps known_keys_def add_option_def)
  then show ?thesis by (rule config_option_position) simp
qed

text \<open>The last value of an option wins, shown for the port: after the options, the port is the
  value of the last port option among them, in any of its spellings.\<close>

theorem last_port_wins:
  assumes "apply_all c (xs @ (k, v) # ys) = Inr c'" and "match_key k = PortArm"
    and "list_all (\<lambda>(k, v). match_key k \<noteq> PortArm) ys"
  shows "parse_u16 v = Some (cfg_port c')"
  using assms by (rule last_port)

theorem last_port_wins_witness:
  "parse_u16 ''81'' = Some (cfg_port (cfg_default\<lparr>cfg_port := 81, cfg_username := ''u''\<rparr>))"
proof -
  have "apply_all cfg_default ([(''-p'', ''80'')] @ (''--port'', ''81'') # [(''--user'', ''u'')]) =
      Inr (cfg_default\<lparr>cfg_port := 81, cfg_username := ''u''\<rparr>)"
    by (simp add: apply_value_def match_key_def parse_u16_def parse_uint_def digit_val_def)
  then show ?thesis
    by (rule last_port_wins) (simp_all add: match_key_def)
qed

end
