(* ===== verification/Server_Handshake.thy ===== *)
theory Server_Handshake
  imports Protocol Config
begin

text \<open>
  The handshake half of \<open>src/server.rs\<close>: \<open>negotiate\<close> (method selection and the
  username/password sub-negotiation), \<open>constant_time_eq\<close>, the reading of the request in
  \<open>handle_client\<close> with its early replies, and \<open>should_log_client_error\<close>.

  The handshake is a composition of stream operations in the order of the source. What it
  accepts is characterised by the bytes: the client's greeting and, when the server has
  credentials, exactly the credentials message of the configured pair.
\<close>

section \<open>Definitions\<close>

unbundle bit_operations_syntax

text \<open>
  \<open>usize\<close> is 64 bits wide. Each turn of the loop folds one byte into \<open>difference\<close>; the
  loop runs over \<open>a\<close>, whatever the length of \<open>b\<close>.
\<close>

fun byte_differences :: "nat \<Rightarrow> u8 list \<Rightarrow> u8 list \<Rightarrow> u64 \<Rightarrow> u64" where
  "byte_differences index [] b difference = difference"
| "byte_differences index (v # vs) b difference =
     byte_differences (Suc index) vs b
       (difference OR ucast (v XOR (if index < length b then b ! index else 0)))"

definition constant_time_eq :: "u8 list \<Rightarrow> u8 list \<Rightarrow> bool" where
  "constant_time_eq a b \<longleftrightarrow>
     byte_differences 0 a b (word_of_nat (length a) XOR word_of_nat (length b)) = 0"

definition selected_method :: "config \<Rightarrow> u8" where
  "selected_method cfg = (if cfg_username cfg = [] then 0 else 2)"

definition server_auth :: "config \<Rightarrow> unit io" where
  "server_auth cfg =
     io_bind (read_exact 2) (\<lambda>auth_header.
     if auth_header ! 0 \<noteq> 1 \<or> auth_header ! 1 = 0
     then io_raise (IoError InvalidData (Message BadAuthRequest))
     else io_bind (read_exact (unat (auth_header ! 1))) (\<lambda>username.
     io_bind (read_exact 1) (\<lambda>password_length.
     if password_length ! 0 = 0
     then io_bind (write_all [1, 1]) (\<lambda>_.
          io_raise (IoError PermissionDenied (Message EmptyPassword)))
     else io_bind (read_exact (unat (password_length ! 0))) (\<lambda>password.
     let allowed = constant_time_eq username (as_bytes (cfg_username cfg)) \<and>
                   constant_time_eq password (as_bytes (cfg_password cfg)) in
     io_bind (write_all [1, if allowed then 0 else 1]) (\<lambda>_.
     if \<not> allowed then io_raise (IoError PermissionDenied (Message WrongCredentials))
     else io_return ())))))"

definition server_negotiate :: "config \<Rightarrow> unit io" where
  "server_negotiate cfg =
     io_bind (read_exact 2) (\<lambda>header.
     if header ! 0 \<noteq> 5 \<or> header ! 1 = 0
     then io_raise (IoError InvalidData (Message BadNegotiation))
     else io_bind (read_exact (unat (header ! 1))) (\<lambda>methods.
     let selected = selected_method cfg in
     if selected \<notin> set methods
     then io_bind (write_all [5, 255]) (\<lambda>_.
          io_raise (IoError PermissionDenied (Message NoUsableMethod)))
     else io_bind (write_all [5, selected]) (\<lambda>_.
     if selected = 2 then server_auth cfg else io_return ())))"

definition unspecified :: "ip_addr \<Rightarrow> socket_addr" where
  "unspecified ip =
     (case ip of IpV4 _ \<Rightarrow> sock_new (IpV4 0) 0 | IpV6 _ \<Rightarrow> sock_new (IpV6 0) 0)"

text \<open>
  \<open>handle_client\<close> up to the dispatch: what is left to do for the connection is to connect,
  to associate, or nothing.
\<close>

datatype dispatch = Do_connect target | Do_associate target | Rejected

definition read_client_request :: "(u8 \<times> target) io" where
  "read_client_request c =
     (case read_request_async c of
        (Return request, c) \<Rightarrow> (Return request, c)
      | (Raise error, c) \<Rightarrow>
          if error_kind error = InvalidData
          then io_bind local_addr (\<lambda>local.
               io_bind (io_ignore (write_reply_async ADDRESS_UNSUPPORTED (unspecified (sock_ip local))))
                 (\<lambda>_. io_raise error)) c
          else (Raise error, c)
      | (Pending, c) \<Rightarrow> (Raise (IoError TimedOut (Message RequestTimeout)), c))"

definition handle_handshake :: "config \<Rightarrow> dispatch io" where
  "handle_handshake cfg =
     io_bind set_option (\<lambda>_.
     io_bind (io_timeout (IoError TimedOut (Message NegotiationTimeout)) (server_negotiate cfg)) (\<lambda>_.
     io_bind read_client_request (\<lambda>(command, target).
     if command = CONNECT then io_return (Do_connect target)
     else if command = UDP_ASSOCIATE then io_return (Do_associate target)
     else io_bind local_addr (\<lambda>local.
          io_bind (write_reply_async COMMAND_UNSUPPORTED (unspecified (sock_ip local))) (\<lambda>_.
          io_return Rejected)))))"

text \<open>
  \<open>should_log_client_error\<close>; the resolver library's \<open>is_no_records_found\<close> is a parameter.
  \<open>to_string\<close> of an error with one of the program's messages is that message.
\<close>

definition should_log_client_error :: "(net_error \<Rightarrow> bool) \<Rightarrow> io_error \<Rightarrow> bool" where
  "should_log_client_error is_no_records_found error =
     (if error_kind error \<in> {BrokenPipe, ConnectionReset} then False
      else if error_kind error = PermissionDenied \<and>
              error_payload error = Message UdpClientMismatch then False
      else if error_kind error = TimedOut \<and>
              error_payload error = Message ConnectTargetTimeout then False
      else \<not> (case error_payload error of
                Resolver source \<Rightarrow> is_no_records_found source
              | _ \<Rightarrow> False))"

section \<open>Constant-time comparison\<close>

lemma or_eq_0: "(a :: 'a :: len word) OR b = 0 \<longleftrightarrow> a = 0 \<and> b = 0"
  by (metis or.right_neutral or.left_neutral or.assoc or.idem)

lemma xor_eq_0: "(a :: 'a :: len word) XOR b = 0 \<longleftrightarrow> a = b"
  by (metis xor.assoc xor.left_neutral xor.right_neutral xor_self_eq)

lemma ucast_u8_eq_0: "(ucast (w :: u8) :: u64) = 0 \<longleftrightarrow> w = 0"
proof -
  have "n < 8 \<and> n < 64" if "bit w n" for n
    using bit_imp_le_length [OF that] by simp
  then show ?thesis
    by (auto simp: bit_eq_iff bit_simps)
qed

lemma byte_differences_eq_0:
  "byte_differences index a b d = 0 \<longleftrightarrow>
     d = 0 \<and> (\<forall>k < length a. a ! k = (if index + k < length b then b ! (index + k) else 0))"
proof (induction index a b d rule: byte_differences.induct)
  case (2 index v vs b d)
  show ?case
    by (simp add: 2 or_eq_0 ucast_u8_eq_0 xor_eq_0 All_less_Suc2)
qed simp

lemma word_of_nat_u64_inj:
  "m < 2 ^ 64 \<Longrightarrow> n < 2 ^ 64 \<Longrightarrow> (word_of_nat m :: u64) = word_of_nat n \<longleftrightarrow> m = n"
  by (simp add: word_of_nat_eq_iff take_bit_nat_eq_self)

text \<open>Every slice of a 64-bit program is shorter than \<open>2 ^ 64\<close>.\<close>

lemma constant_time_eq_iff:
  assumes "length a < 2 ^ 64" "length b < 2 ^ 64"
  shows "constant_time_eq a b \<longleftrightarrow> a = b"
  using assms
  by (auto simp: constant_time_eq_def byte_differences_eq_0 xor_eq_0 word_of_nat_u64_inj
      list_eq_iff_nth_eq)

section \<open>What the negotiation accepts\<close>

text \<open>The messages of the client: the greeting, and the credentials.\<close>

definition greeting :: "u8 list \<Rightarrow> u8 list" where
  "greeting methods = [5, word_of_nat (length methods)] @ methods"

definition credentials :: "u8 list \<Rightarrow> u8 list \<Rightarrow> u8 list" where
  "credentials user pass =
     [1, word_of_nat (length user)] @ user @ [word_of_nat (length pass)] @ pass"

definition counted :: "u8 list \<Rightarrow> bool" where
  "counted bs \<longleftrightarrow> bs \<noteq> [] \<and> length bs \<le> 255"

lemma counted_conv:
  "length bs = unat (n :: u8) \<Longrightarrow> n \<noteq> 0 \<Longrightarrow> counted bs \<and> n = word_of_nat (length bs)"
  using u8_unat_less [of n] by (auto simp: counted_def unat_eq_zero simp del: u8_unat_less)

lemma counted_simps:
  "counted bs \<Longrightarrow> unat (word_of_nat (length bs) :: u8) = length bs"
  "counted bs \<Longrightarrow> (word_of_nat (length bs) :: u8) \<noteq> 0"
proof -
  assume c: "counted bs"
  then show u: "unat (word_of_nat (length bs) :: u8) = length bs"
    by (simp add: counted_def)
  with c show "(word_of_nat (length bs) :: u8) \<noteq> 0"
    by (metis counted_def length_0_conv unat_0)
qed

lemma two_bytes: "length h = 2 \<longleftrightarrow> h = [h ! 0, h ! (Suc 0)]"
  by (auto simp: length_Suc_conv numeral_eq_Suc)

text \<open>A byte string read by its length byte.\<close>

lemma read_counted:
  assumes "counted bs" "rx c = bs @ r"
  shows "read_exact (unat (word_of_nat (length bs) :: u8)) c = (Return bs, c\<lparr>rx := r\<rparr>)"
  using assms by (intro read_exact_append) (simp_all add: counted_simps)

text \<open>Writing that succeeds appends its bytes.\<close>

definition wrote :: "conn \<Rightarrow> u8 list \<Rightarrow> conn" where
  "wrote c bs = c\<lparr>tx := tx c @ bs, tx_room := map_option (\<lambda>n. n - length bs) (tx_room c)\<rparr>"

definition room :: "conn \<Rightarrow> nat \<Rightarrow> bool" where
  "room c n \<longleftrightarrow> (case tx_room c of None \<Rightarrow> True | Some m \<Rightarrow> n \<le> m)"

lemma write_all_room [io_simps]: "room c (length bs) \<Longrightarrow> write_all bs c = (Return (), wrote c bs)"
  by (cases c) (auto simp: write_all_def wrote_def room_def split: option.splits)

lemma write_all_no_room [io_simps]:
  "\<not> room c (length bs) \<Longrightarrow> \<exists>c'. write_all bs c = (stop_write (tx_end c), c')"
  by (auto simp: write_all_def room_def split: option.splits)

lemma write_all_eq_Return:
  "write_all bs c = (Return u, c') \<longleftrightarrow> room c (length bs) \<and> c' = wrote c bs"
  by (cases c) (auto simp: write_all_def room_def wrote_def split: option.splits)

lemma wrote_simps [simp]:
  "rx (wrote c bs) = rx c" "tx (wrote c bs) = tx c @ bs" "rx_end (wrote c bs) = rx_end c"
  "(wrote c bs)\<lparr>rx := r\<rparr> = wrote (c\<lparr>rx := r\<rparr>) bs"
  "wrote (wrote c bs) cs = wrote c (bs @ cs)"
  by (cases c; auto simp: wrote_def option.map_comp comp_def)+

lemma room_simps [simp]:
  "room (c\<lparr>rx := r\<rparr>) n = room c n"
  "room (wrote c bs) n \<longleftrightarrow> (case tx_room c of None \<Rightarrow> True | Some m \<Rightarrow> n \<le> m - length bs)"
  by (auto simp: room_def wrote_def split: option.splits)

subsection \<open>The credentials\<close>

lemma constant_time_eq_counted:
  "counted a \<Longrightarrow> length b \<le> 255 \<Longrightarrow> constant_time_eq a b \<longleftrightarrow> a = b"
  by (intro constant_time_eq_iff) (auto simp: counted_def)

lemma server_auth_Return:
  assumes cred: "length (cfg_username cfg) \<le> 255" "length (cfg_password cfg) \<le> 255"
    and ret: "server_auth cfg c = (Return u, c')"
  defines "user \<equiv> as_bytes (cfg_username cfg)" and "pass \<equiv> as_bytes (cfg_password cfg)"
  shows "counted user \<and> counted pass \<and> rx c = credentials user pass @ rx c' \<and> room c 2 \<and>
    c' = wrote (c\<lparr>rx := rx c'\<rparr>) [1, 0]"
proof -
  from ret obtain h c1 us c2 n c3 ps c4 where
    h: "length h = 2" "rx c = h @ rx c1" "c1 = c\<lparr>rx := rx c1\<rparr>" "h ! 0 = 1" "h ! Suc 0 \<noteq> 0" and
    us: "length us = unat (h ! Suc 0)" "rx c1 = us @ rx c2" "c2 = c1\<lparr>rx := rx c2\<rparr>" and
    n: "length n = 1" "rx c2 = n @ rx c3" "c3 = c2\<lparr>rx := rx c3\<rparr>" "n ! 0 \<noteq> 0" and
    ps: "length ps = unat (n ! 0)" "rx c3 = ps @ rx c4" "c4 = c3\<lparr>rx := rx c4\<rparr>" and
    eq: "constant_time_eq us user" "constant_time_eq ps pass" and
    w: "write_all [1, 0] c4 = (Return (), c')"
    unfolding server_auth_def user_def pass_def
    by (auto simp: io_bind_eq_Return read_exact_eq_Return io_return_def io_raise_def Let_def
        split: if_splits)
  note cu = counted_conv [OF us(1) h(5)] and cp = counted_conv [OF ps(1) n(4)]
  have us': "us = user" and ps': "ps = pass"
    using eq cu cp cred by (simp_all add: constant_time_eq_counted user_def pass_def)
  have c4: "c4 = c\<lparr>rx := rx c4\<rparr>"
    using rx_update_trans [OF rx_update_trans [OF rx_update_trans [OF h(3) us(3)] n(3)] ps(3)] .
  have w': "room c4 2" "c' = wrote c4 [1, 0]"
    using w by (simp_all add: write_all_eq_Return numeral_2_eq_2)
  then have "rx c' = rx c4" "room c 2"
    using room_simps(1) [of "rx c4" c 2] c4 by simp_all
  moreover have "n = [n ! 0]"
    using n(1) by (auto simp: length_Suc_conv)
  then have "rx c = credentials user pass @ rx c4"
    using h(1,2,4) us(2) n(2) ps(2) cu cp us' ps' by (simp add: credentials_def two_bytes)
  ultimately show ?thesis
    using cu cp us' ps' c4 w'(2) by metis
qed

lemma server_auth_accepts:
  assumes cnt: "counted user" "counted pass" and rx: "rx c = credentials user pass @ r"
    and room: "room c 2"
    and cred: "length (cfg_username cfg) \<le> 255" "length (cfg_password cfg) \<le> 255"
  defines "ok \<equiv> user = as_bytes (cfg_username cfg) \<and> pass = as_bytes (cfg_password cfg)"
  shows "server_auth cfg c =
    (if ok then Return () else Raise (IoError PermissionDenied (Message WrongCredentials)),
     wrote (c\<lparr>rx := r\<rparr>) [1, if ok then 0 else 1])"
proof -
  let ?c1 = "c\<lparr>rx := user @ [word_of_nat (length pass)] @ pass @ r\<rparr>"
  have 1: "read_exact 2 c = (Return [1, word_of_nat (length user)], ?c1)"
    using rx by (intro read_exact_append) (simp_all add: credentials_def)
  have 2: "read_exact (unat (word_of_nat (length user) :: u8)) ?c1 =
      (Return user, c\<lparr>rx := [word_of_nat (length pass)] @ pass @ r\<rparr>)"
    using read_counted [OF cnt(1), of ?c1] by simp
  have 3: "read_exact 1 (c\<lparr>rx := [word_of_nat (length pass)] @ pass @ r\<rparr>) =
      (Return [word_of_nat (length pass)], c\<lparr>rx := pass @ r\<rparr>)"
    by (subst read_exact_append) simp_all
  have 4: "read_exact (unat (word_of_nat (length pass) :: u8)) (c\<lparr>rx := pass @ r\<rparr>) =
      (Return pass, c\<lparr>rx := r\<rparr>)"
    using read_counted [OF cnt(2), of "c\<lparr>rx := pass @ r\<rparr>"] by simp
  have 5: "constant_time_eq user (as_bytes (cfg_username cfg)) \<and>
      constant_time_eq pass (as_bytes (cfg_password cfg)) \<longleftrightarrow> ok"
    using cnt cred by (simp add: constant_time_eq_counted ok_def)
  have 6: "write_all [1, if ok then 0 else 1] (c\<lparr>rx := r\<rparr>) =
      (Return (), wrote (c\<lparr>rx := r\<rparr>) [1, if ok then 0 else 1])"
    using room by (auto simp: write_all_room numeral_2_eq_2)
  show ?thesis
    unfolding server_auth_def Let_def
    using 1 2 3 4 6 cnt
    by (cases ok) (simp_all add: io_bind_Return counted_simps io_return_simps 5)
qed

subsection \<open>The greeting\<close>

lemma server_negotiate_head:
  assumes cnt: "counted ms" and rx: "rx c = greeting ms @ r"
  shows "server_negotiate cfg c =
    (if selected_method cfg \<in> set ms
     then io_bind (write_all [5, selected_method cfg])
       (\<lambda>_. if selected_method cfg = 2 then server_auth cfg else io_return ()) (c\<lparr>rx := r\<rparr>)
     else io_bind (write_all [5, 255])
       (\<lambda>_. io_raise (IoError PermissionDenied (Message NoUsableMethod))) (c\<lparr>rx := r\<rparr>))"
proof -
  have 1: "read_exact 2 c = (Return [5, word_of_nat (length ms)], c\<lparr>rx := ms @ r\<rparr>)"
    using rx by (intro read_exact_append) (simp_all add: greeting_def)
  have 2: "read_exact (unat (word_of_nat (length ms) :: u8)) (c\<lparr>rx := ms @ r\<rparr>) =
      (Return ms, c\<lparr>rx := r\<rparr>)"
    using read_counted [OF cnt, of "c\<lparr>rx := ms @ r\<rparr>"] by simp
  show ?thesis
    unfolding server_negotiate_def
    using 1 2 cnt by (simp add: io_bind_Return counted_simps Let_def)
qed

lemma server_negotiate_Return_head:
  assumes "server_negotiate cfg c = (Return u, c')"
  obtains ms r where "counted ms" "selected_method cfg \<in> set ms" "rx c = greeting ms @ r"
    "room c 2"
    "(if selected_method cfg = 2 then server_auth cfg else io_return ())
       (wrote (c\<lparr>rx := r\<rparr>) [5, selected_method cfg]) = (Return u, c')"
proof -
  from assms obtain h c1 ms c2 c3 where
    h: "length h = 2" "rx c = h @ rx c1" "c1 = c\<lparr>rx := rx c1\<rparr>" "h ! 0 = 5" "h ! Suc 0 \<noteq> 0" and
    ms: "length ms = unat (h ! Suc 0)" "rx c1 = ms @ rx c2" "c2 = c1\<lparr>rx := rx c2\<rparr>" and
    sel: "selected_method cfg \<in> set ms" and
    w: "write_all [5, selected_method cfg] c2 = (Return (), c3)" and
    k: "(if selected_method cfg = 2 then server_auth cfg else io_return ()) c3 = (Return u, c')"
    unfolding server_negotiate_def
    by (auto simp: io_bind_eq_Return read_exact_eq_Return io_raise_def io_return_def Let_def
        split: if_splits)
  note cnt = counted_conv [OF ms(1) h(5)]
  have c2: "c2 = c\<lparr>rx := rx c2\<rparr>"
    using rx_update_trans [OF h(3) ms(3)] .
  have rx: "rx c = greeting ms @ rx c2"
    using h(1,2,4) ms(2) cnt by (simp add: greeting_def two_bytes)
  have "room c2 2" "c3 = wrote c2 [5, selected_method cfg]"
    using w by (simp_all add: write_all_eq_Return numeral_2_eq_2)
  then have "room c 2" "c3 = wrote (c\<lparr>rx := rx c2\<rparr>) [5, selected_method cfg]"
    using room_simps(1) [of "rx c2" c 2] c2 by simp_all
  then show ?thesis
    using that cnt sel rx k by blast
qed

subsection \<open>The whole negotiation\<close>

text \<open>What a client must have sent after its greeting, and what the server answers.\<close>

definition auth_message :: "config \<Rightarrow> u8 list" where
  "auth_message cfg =
     (if cfg_username cfg = [] then []
      else credentials (as_bytes (cfg_username cfg)) (as_bytes (cfg_password cfg)))"

definition auth_answer :: "config \<Rightarrow> u8 list" where
  "auth_answer cfg = [5, selected_method cfg] @ (if cfg_username cfg = [] then [] else [1, 0])"

lemma length_auth_answer: "length (auth_answer cfg) = (if cfg_username cfg = [] then 2 else 4)"
  by (simp add: auth_answer_def)

lemma room_twice: "room c 2 \<and> room (wrote c [a, b]) 2 \<longleftrightarrow> room c 4"
  by (auto simp: room_def wrote_def split: option.splits)

lemma selected_simps:
  "selected_method cfg = 2 \<longleftrightarrow> cfg_username cfg \<noteq> []"
  "cfg_username cfg = [] \<Longrightarrow> selected_method cfg = 0"
  by (simp_all add: selected_method_def)

lemma valid_counted:
  assumes "valid_credentials (cfg_username cfg) (cfg_password cfg)" "cfg_username cfg \<noteq> []"
  shows "counted (as_bytes (cfg_username cfg))" "counted (as_bytes (cfg_password cfg))"
    "length (cfg_username cfg) \<le> 255" "length (cfg_password cfg) \<le> 255"
  using assms by (auto simp: valid_credentials_def counted_def)

lemma server_negotiate_Return_wire:
  assumes valid: "valid_credentials (cfg_username cfg) (cfg_password cfg)"
    and "server_negotiate cfg c = (Return u, c')"
  shows "(\<exists>ms. counted ms \<and> selected_method cfg \<in> set ms \<and>
       rx c = greeting ms @ auth_message cfg @ rx c') \<and>
    room c (length (auth_answer cfg)) \<and> c' = wrote (c\<lparr>rx := rx c'\<rparr>) (auth_answer cfg)"
proof -
  from assms(2) obtain ms r where ms: "counted ms" "selected_method cfg \<in> set ms" "rx c = greeting ms @ r"
    "room c 2" and
    k: "(if selected_method cfg = 2 then server_auth cfg else io_return ())
      (wrote (c\<lparr>rx := r\<rparr>) [5, selected_method cfg]) = (Return u, c')"
    by (rule server_negotiate_Return_head)
  show ?thesis
  proof (cases "cfg_username cfg = []")
    case True
    then show ?thesis
      using ms k by (auto simp: selected_simps io_return_def auth_message_def auth_answer_def
          numeral_2_eq_2)
  next
    case False
    then have "server_auth cfg (wrote (c\<lparr>rx := r\<rparr>) [5, selected_method cfg]) = (Return u, c')"
      using k by (simp add: selected_simps)
    from server_auth_Return [OF valid_counted(3,4) [OF valid False] this]
    have "r = auth_message cfg @ rx c'" "room (wrote (c\<lparr>rx := r\<rparr>) [5, selected_method cfg]) 2"
      "c' = wrote (c\<lparr>rx := rx c'\<rparr>) (auth_answer cfg)"
      using False by (simp_all add: auth_message_def auth_answer_def)
    then show ?thesis
      using ms False room_twice [of c 5 "selected_method cfg"]
      by (auto simp: length_auth_answer)
  qed
qed

lemma server_negotiate_wire:
  assumes valid: "valid_credentials (cfg_username cfg) (cfg_password cfg)"
    and ms: "counted ms" "selected_method cfg \<in> set ms" "rx c = greeting ms @ auth_message cfg @ rx c'"
    and room: "room c (length (auth_answer cfg))" and c': "c' = wrote (c\<lparr>rx := rx c'\<rparr>) (auth_answer cfg)"
  shows "server_negotiate cfg c = (Return u, c')"
proof -
  let ?c = "c\<lparr>rx := auth_message cfg @ rx c'\<rparr>"
  have "room c 2"
    using room by (auto simp: auth_answer_def room_def split: option.splits if_splits)
  then have neg: "server_negotiate cfg c =
      (if selected_method cfg = 2 then server_auth cfg else io_return ())
        (wrote ?c [5, selected_method cfg])"
    using ms by (simp add: server_negotiate_head io_bind_Return write_all_room numeral_2_eq_2)
  show ?thesis
  proof (cases "cfg_username cfg = []")
    case True
    then show ?thesis
      using neg c' by (simp add: selected_simps io_return_def auth_message_def auth_answer_def)
  next
    case False
    have "room (wrote ?c [5, selected_method cfg]) 2"
      using room False room_twice [of c 5 "selected_method cfg"] by (simp add: length_auth_answer)
    then have "server_auth cfg (wrote ?c [5, selected_method cfg]) =
        (Return (), wrote (c\<lparr>rx := rx c'\<rparr>) (auth_answer cfg))"
      using server_auth_accepts [OF valid_counted(1,2) [OF valid False], of "wrote ?c _" "rx c'"]
        valid_counted(3,4) [OF valid False] False
      by (simp add: auth_message_def auth_answer_def)
    then show ?thesis
      using neg c' False by (simp add: selected_simps)
  qed
qed

lemma server_negotiate_eq_Return:
  assumes valid: "valid_credentials (cfg_username cfg) (cfg_password cfg)"
  shows "server_negotiate cfg c = (Return u, c') \<longleftrightarrow>
    (\<exists>ms. counted ms \<and> selected_method cfg \<in> set ms \<and>
       rx c = greeting ms @ auth_message cfg @ rx c') \<and>
    room c (length (auth_answer cfg)) \<and> c' = wrote (c\<lparr>rx := rx c'\<rparr>) (auth_answer cfg)"
  using server_negotiate_Return_wire [OF valid] server_negotiate_wire [OF valid] by blast

text \<open>A client that knows the method but not the password is told so, and turned away.\<close>

lemma server_negotiate_wrong:
  assumes valid: "valid_credentials (cfg_username cfg) (cfg_password cfg)"
    and auth: "cfg_username cfg \<noteq> []"
    and ms: "counted ms" "2 \<in> set ms"
    and cred: "counted user" "counted pass"
      "(user, pass) \<noteq> (as_bytes (cfg_username cfg), as_bytes (cfg_password cfg))"
    and rx: "rx c = greeting ms @ credentials user pass @ r" and room: "room c 4"
  shows "server_negotiate cfg c =
    (Raise (IoError PermissionDenied (Message WrongCredentials)), wrote (c\<lparr>rx := r\<rparr>) [5, 2, 1, 1])"
proof -
  let ?c = "wrote (c\<lparr>rx := credentials user pass @ r\<rparr>) [5, 2]"
  have room2: "room c 2" "room ?c 2"
    using room room_twice [of c 5 2] by simp_all
  have sel: "selected_method cfg = 2"
    using auth by (simp add: selected_simps)
  have "server_auth cfg ?c =
      (Raise (IoError PermissionDenied (Message WrongCredentials)), wrote (c\<lparr>rx := r\<rparr>) [5, 2, 1, 1])"
    using server_auth_accepts [OF cred(1,2), of ?c r] room2 valid_counted(3,4) [OF valid auth] cred(3)
    by auto
  then show ?thesis
    using ms rx room2 sel
    by (simp add: server_negotiate_head io_bind_Return write_all_room numeral_2_eq_2)
qed

text \<open>A client that offers no usable method is told so, and turned away.\<close>

lemma server_negotiate_no_method:
  assumes "counted ms" "selected_method cfg \<notin> set ms" "rx c = greeting ms @ r" "room c 2"
  shows "server_negotiate cfg c =
    (Raise (IoError PermissionDenied (Message NoUsableMethod)), wrote (c\<lparr>rx := r\<rparr>) [5, 255])"
  using assms
  by (simp add: server_negotiate_head io_bind_Return write_all_room numeral_2_eq_2 io_return_simps)

section \<open>The handshake\<close>

lemma io_timeout_Return [simp]: "io_timeout e m c = (Return x, c') \<longleftrightarrow> m c = (Return x, c')"
  by (auto simp: io_timeout_def split: prod.splits outcome.splits)

lemma io_ignore_not_Raise [simp]: "io_ignore m c \<noteq> (Raise e, c')"
  by (auto simp: io_ignore_def split: prod.splits outcome.splits)

lemma read_client_request_Return:
  "read_client_request c = (Return q, c') \<longleftrightarrow> read_request_async c = (Return q, c')"
  by (auto simp: read_client_request_def io_bind_eq_Return io_raise_def
      split: prod.splits outcome.splits if_splits)

lemma set_option_eq: "set_option c = (case c_opt c of Inl e \<Rightarrow> (Raise e, c) | Inr u \<Rightarrow> (Return u, c))"
  by (simp add: set_option_def io_lift_def)

text \<open>The request as bytes: reading it back is reading the whole message and nothing else.\<close>

lemma read_request_async_eq_Return:
  "read_request_async c = (Return (k, t), c') \<longleftrightarrow>
     wf_target t \<and> (\<exists>bs. target_wire t = Some bs \<and> rx c = [5, k, 0] @ bs @ rx c') \<and>
     c' = c\<lparr>rx := rx c'\<rparr>"
  (is "?l \<longleftrightarrow> ?r")
proof
  assume l: ?l
  then have "c' = c\<lparr>rx := rx c'\<rparr>"
    by (rule readerD [OF request_async.rd_reader])
  then show ?r
    using request_async.rd_Return [OF l] by simp
next
  assume r: ?r
  then obtain bs where "wf_target t" "target_wire t = Some bs" "rx c = [5, k, 0] @ bs @ rx c'"
    by blast
  then have "read_request_async c = (Return (k, t), c\<lparr>rx := rx c'\<rparr>)"
    by (rule request_async.rd_wire)
  with r show ?l by metis
qed

lemma commands_distinct [simp]: "UDP_ASSOCIATE \<noteq> CONNECT" "CONNECT \<noteq> UDP_ASSOCIATE"
  by (simp_all add: CONNECT_def UDP_ASSOCIATE_def)

text \<open>The command and target of a request that is handed on.\<close>

fun dispatched :: "dispatch \<Rightarrow> (u8 \<times> target) option" where
  "dispatched (Do_connect t) = Some (CONNECT, t)"
| "dispatched (Do_associate t) = Some (UDP_ASSOCIATE, t)"
| "dispatched Rejected = None"

lemma wrote_rx: "c = wrote d bs \<Longrightarrow> c\<lparr>rx := r\<rparr> = wrote (d\<lparr>rx := r\<rparr>) bs"
  by simp

lemma handle_handshake_iff:
  assumes valid: "valid_credentials (cfg_username cfg) (cfg_password cfg)"
    and d: "dispatched d = Some (k, t)"
  shows "handle_handshake cfg c = (Return d, c') \<longleftrightarrow>
    c_opt c = Inr () \<and> wf_target t \<and>
    (\<exists>ms bs. counted ms \<and> selected_method cfg \<in> set ms \<and> target_wire t = Some bs \<and>
       rx c = greeting ms @ auth_message cfg @ [5, k, 0] @ bs @ rx c') \<and>
    room c (length (auth_answer cfg)) \<and> c' = wrote (c\<lparr>rx := rx c'\<rparr>) (auth_answer cfg)"
  (is "?l \<longleftrightarrow> ?r")
proof -
  have k: "k = CONNECT \<and> d = Do_connect t \<or> k \<noteq> CONNECT \<and> k = UDP_ASSOCIATE \<and> d = Do_associate t"
    using d by (cases d) (auto simp: CONNECT_def UDP_ASSOCIATE_def)
  have "?l \<longleftrightarrow> c_opt c = Inr () \<and> (\<exists>c1. server_negotiate cfg c = (Return (), c1) \<and>
      read_request_async c1 = (Return (k, t), c'))"
    using k unfolding handle_handshake_def
    by (auto simp: io_bind_eq_Return set_option_eq read_client_request_Return io_return_def
        split: sum.splits if_splits)
      (metis commands_distinct(2))
  also have "\<dots> \<longleftrightarrow> ?r"
  proof (intro iffI conjI; elim conjE exE)
    fix c1
    assume n: "server_negotiate cfg c = (Return (), c1)"
      and q: "read_request_async c1 = (Return (k, t), c')"
    note n = n [unfolded server_negotiate_eq_Return [OF valid]]
      and q = q [unfolded read_request_async_eq_Return]
    show "wf_target t" "room c (length (auth_answer cfg))"
      using n q by blast+
    show "\<exists>ms bs. counted ms \<and> selected_method cfg \<in> set ms \<and> target_wire t = Some bs \<and>
       rx c = greeting ms @ auth_message cfg @ [5, k, 0] @ bs @ rx c'"
      using n q by auto
    have "c' = c1\<lparr>rx := rx c'\<rparr>" "c1 = wrote (c\<lparr>rx := rx c1\<rparr>) (auth_answer cfg)"
      using n q by blast+
    then show "c' = wrote (c\<lparr>rx := rx c'\<rparr>) (auth_answer cfg)"
      using wrote_rx [of c1 _ _ "rx c'"] by simp
  next
    fix ms bs
    assume w: "wf_target t" "counted ms" "selected_method cfg \<in> set ms" "target_wire t = Some bs"
      "rx c = greeting ms @ auth_message cfg @ [5, k, 0] @ bs @ rx c'"
      "room c (length (auth_answer cfg))" "c' = wrote (c\<lparr>rx := rx c'\<rparr>) (auth_answer cfg)"
    let ?c1 = "wrote (c\<lparr>rx := [5, k, 0] @ bs @ rx c'\<rparr>) (auth_answer cfg)"
    have "server_negotiate cfg c = (Return (), ?c1)"
      using w by (auto simp: server_negotiate_eq_Return [OF valid])
    moreover have "read_request_async ?c1 = (Return (k, t), c')"
      unfolding read_request_async_eq_Return using w wrote_rx [OF refl, of _ _ "rx c'"] by simp
    ultimately show "\<exists>c1. server_negotiate cfg c = (Return (), c1) \<and>
        read_request_async c1 = (Return (k, t), c')" by blast
  qed auto
  finally show ?thesis .
qed

subsection \<open>Refusals and waiting\<close>

lemma handle_handshake_after:
  assumes "c_opt c = Inr ()" "server_negotiate cfg c = (Return (), c1)"
  shows "handle_handshake cfg c =
    io_bind read_client_request (\<lambda>(command, target).
     if command = CONNECT then io_return (Do_connect target)
     else if command = UDP_ASSOCIATE then io_return (Do_associate target)
     else io_bind local_addr (\<lambda>local.
          io_bind (write_reply_async COMMAND_UNSUPPORTED (unspecified (sock_ip local))) (\<lambda>_.
          io_return Rejected))) c1"
  unfolding handle_handshake_def
  using assms by (simp add: io_bind_Return [where c' = c] io_bind_Return [where c' = c1] set_option_eq)

lemma handshake_unsupported:
  assumes "c_opt c = Inr ()" "server_negotiate cfg c = (Return (), c1)"
    and "read_request_async c1 = (Return (k, t), c2)" "k \<notin> {CONNECT, UDP_ASSOCIATE}"
    and "c_local c2 = Inr a" "tx_room c2 = None"
  shows "handle_handshake cfg c =
    (Return Rejected,
     c2\<lparr>tx := tx c2 @ encode_address [5, COMMAND_UNSUPPORTED, 0] (unspecified (sock_ip a))\<rparr>)"
  using assms
  by (simp add: handle_handshake_after read_client_request_Return io_bind_Return local_addr_def
      io_return_simps write_reply_async_def write_all_free)

lemma handshake_bad_request:
  assumes "c_opt c = Inr ()" "server_negotiate cfg c = (Return (), c1)"
    and "read_request_async c1 = (Raise e, c2)" "error_kind e = InvalidData"
    and "c_local c2 = Inr a" "tx_room c2 = None"
  shows "handle_handshake cfg c =
    (Raise e,
     c2\<lparr>tx := tx c2 @ encode_address [5, ADDRESS_UNSUPPORTED, 0] (unspecified (sock_ip a))\<rparr>)"
  using assms
  by (simp add: handle_handshake_after read_client_request_def io_bind_def local_addr_def
      io_return_simps write_reply_async_def write_all_free io_ignore_def)

text \<open>
  Whatever the peer does, the handshake ends, as long as what the server writes is taken:
  the reads are under a timeout.
\<close>

lemma io_bind_Pending_iff:
  "io_bind m f c = (Pending, c'') \<longleftrightarrow>
     m c = (Pending, c'') \<or> (\<exists>x c'. m c = (Return x, c') \<and> f x c' = (Pending, c''))"
  by (auto simp: io_bind_def split: prod.splits outcome.splits)

lemma io_timeout_not_Pending [simp]: "io_timeout e m c \<noteq> (Pending, c')"
  by (auto simp: io_timeout_def split: prod.splits outcome.splits)

text \<open>No operation of the handshake changes how much room the peer leaves, if it is unbounded.\<close>

definition keeps_room :: "'a io \<Rightarrow> bool" where
  "keeps_room m \<longleftrightarrow> (\<forall>c. tx_room c = None \<longrightarrow> tx_room (snd (m c)) = None)"

named_theorems room_intros \<open>operations that keep unbounded room\<close>

lemma keeps_room_bind [room_intros]:
  "keeps_room m \<Longrightarrow> (\<And>x. keeps_room (f x)) \<Longrightarrow> keeps_room (io_bind m f)"
  unfolding keeps_room_def io_bind_def
  by (auto split: prod.splits outcome.splits) (metis snd_conv)+

lemma keeps_room_basic [room_intros]:
  "keeps_room (io_return x)" "keeps_room (io_raise e)" "keeps_room (read_exact n)"
  "keeps_room (write_all bs)" "keeps_room (io_lift r)" "keeps_room set_option"
  "keeps_room local_addr"
  by (auto simp: keeps_room_def io_return_def io_raise_def read_exact_def write_all_def io_lift_def
      set_option_def local_addr_def split: option.splits sum.splits)

lemma keeps_room_timeout [room_intros]: "keeps_room m \<Longrightarrow> keeps_room (io_timeout e m)"
  by (auto simp: keeps_room_def io_timeout_def split: prod.splits outcome.splits) (metis snd_conv)+

lemma keeps_room_auth [room_intros]: "keeps_room (server_auth cfg)"
  by (auto simp: server_auth_def Let_def intro!: room_intros)

lemma keeps_room_negotiate [room_intros]: "keeps_room (server_negotiate cfg)"
  by (auto simp: server_negotiate_def Let_def intro!: room_intros)

lemma keeps_room_read_target [room_intros]: "keeps_room (read_target_async a)"
  by (auto simp: read_target_async_def intro!: room_intros split: option.splits)

lemma keeps_room_read_request [room_intros]: "keeps_room read_request_async"
  by (auto simp: read_request_async_def intro!: room_intros)

lemma write_all_not_Pending: "tx_room c = None \<Longrightarrow> write_all bs c \<noteq> (Pending, c')"
  by (simp add: write_all_free)

lemma local_addr_not_Pending [simp]: "local_addr c \<noteq> (Pending, c')"
  by (auto simp: local_addr_def io_lift_def split: sum.splits)

lemma set_option_not_Pending [simp]: "set_option c \<noteq> (Pending, c')"
  by (auto simp: set_option_def io_lift_def split: sum.splits)

lemma local_addr_Return [simp]: "local_addr c = (Return a, c') \<longleftrightarrow> c_local c = Inr a \<and> c' = c"
  by (auto simp: local_addr_def io_lift_def split: sum.splits)

lemma read_client_request_not_Pending:
  assumes "tx_room c = None"
  shows "read_client_request c \<noteq> (Pending, c')"
proof -
  have "tx_room c1 = None" if "read_request_async c = (r, c1)" for r c1
    using assms keeps_room_read_request that by (auto simp: keeps_room_def) (metis snd_conv)
  then show ?thesis
    by (auto simp: read_client_request_def io_bind_Pending_iff io_raise_def io_ignore_def
        write_reply_async_def write_all_free split: prod.splits outcome.splits if_splits)
qed

lemma handle_handshake_not_Pending:
  assumes "tx_room c = None"
  shows "handle_handshake cfg c \<noteq> (Pending, c')"
proof
  assume "handle_handshake cfg c = (Pending, c')"
  then obtain c1 c2 k t a where
    "set_option c = (Return (), c1)" "server_negotiate cfg c1 = (Return (), c2)" and
    "read_client_request c2 = (Pending, c') \<or> (\<exists>c3. read_client_request c2 = (Return (k, t), c3) \<and>
       write_reply_async COMMAND_UNSUPPORTED a c3 = (Pending, c'))"
    unfolding handle_handshake_def
    by (auto simp: io_bind_Pending_iff io_return_def split: if_splits)
  moreover have "tx_room c2 = None"
    using calculation(1,2) assms keeps_room_negotiate keeps_room_basic(6)
    unfolding keeps_room_def by (metis snd_conv)
  moreover have "tx_room c3 = None" if "read_client_request c2 = (Return q, c3)" for q c3
    using that calculation(4) keeps_room_read_request
    unfolding keeps_room_def read_client_request_Return by (metis snd_conv)
  ultimately show False
    using read_client_request_not_Pending write_all_not_Pending
    by (auto simp: write_reply_async_def)
qed

section \<open>Properties\<close>

text \<open>The comparison of credentials, which visits every byte of the received string whatever
  it finds, is equality: no wrap-around of the length difference and no padding with zero
  bytes makes two different strings equal.\<close>

theorem constant_time_eq_correct:
  assumes "length a < 2 ^ 64" and "length b < 2 ^ 64"
  shows "constant_time_eq a b \<longleftrightarrow> a = b"
  using assms by (rule constant_time_eq_iff)

theorem constant_time_eq_correct_witness:
  "constant_time_eq [112, 0] [112] \<longleftrightarrow> [112, 0] = [112 :: u8]"
  by (rule constant_time_eq_correct) simp_all

definition demo_config :: config where
  "demo_config = cfg_default\<lparr>cfg_username := ''u'', cfg_password := ''pw''\<rparr>"

lemma demo_valid: "valid_credentials (cfg_username demo_config) (cfg_password demo_config)"
  by (simp add: demo_config_def valid_credentials_def)

lemma demo_auth:
  "selected_method demo_config = 2" "auth_answer demo_config = [5, 2, 1, 0]"
  "auth_message demo_config = [1, 1, 117, 2, 112, 119]"
  by (simp_all add: demo_config_def selected_method_def auth_answer_def auth_message_def
      credentials_def as_bytes_def byte_of_char_def)

text \<open>Who gets past the negotiation. The server accepts a client if and only if the client's
  bytes are a greeting that offers the method the server requires, followed, when the server
  has credentials, by exactly the configured username and password; it consumes those bytes
  and no more, and has then written exactly the accepting answers.\<close>

theorem negotiation_accepts_iff:
  assumes "valid_credentials (cfg_username cfg) (cfg_password cfg)"
  shows "server_negotiate cfg c = (Return (), c') \<longleftrightarrow>
    (\<exists>ms. counted ms \<and> selected_method cfg \<in> set ms \<and>
       rx c = greeting ms @ auth_message cfg @ rx c') \<and>
    room c (length (auth_answer cfg)) \<and> c' = wrote (c\<lparr>rx := rx c'\<rparr>) (auth_answer cfg)"
  using assms by (rule server_negotiate_eq_Return)

theorem negotiation_accepts_iff_witness:
  "server_negotiate demo_config (slice_reader [5, 2, 0, 2, 1, 1, 117, 2, 112, 119, 9]) =
     (Return (), wrote (slice_reader [9]) [5, 2, 1, 0])"
proof -
  let ?c = "slice_reader [5, 2, 0, 2, 1, 1, 117, 2, 112, 119, 9]"
  have "counted [0, 2] \<and> selected_method demo_config \<in> set [0, 2] \<and>
      rx ?c = greeting [0, 2] @ auth_message demo_config @ rx (wrote (slice_reader [9]) [5, 2, 1, 0])"
    by (simp add: counted_def demo_auth greeting_def)
  moreover have "room ?c (length (auth_answer demo_config))"
    by (simp add: room_def)
  moreover have "?c\<lparr>rx := [9]\<rparr> = slice_reader [9]"
    by (simp add: slice_reader_def)
  ultimately show ?thesis
    unfolding negotiation_accepts_iff [OF demo_valid] by (auto simp: demo_auth)
qed

text \<open>Wrong credentials are refused: a client that follows the protocol but sends another
  username or password gets the refusing status, never the accepting one, and the connection
  ends with \<open>PermissionDenied\<close>.\<close>

theorem negotiation_refuses_wrong_credentials:
  assumes "valid_credentials (cfg_username cfg) (cfg_password cfg)"
    and "cfg_username cfg \<noteq> []" and "counted ms" and "2 \<in> set ms"
    and "counted user" and "counted pass"
    and "(user, pass) \<noteq> (as_bytes (cfg_username cfg), as_bytes (cfg_password cfg))"
    and "rx c = greeting ms @ credentials user pass @ r" and "room c 4"
  shows "server_negotiate cfg c =
    (Raise (IoError PermissionDenied (Message WrongCredentials)), wrote (c\<lparr>rx := r\<rparr>) [5, 2, 1, 1])"
  using assms by (rule server_negotiate_wrong)

theorem negotiation_refuses_wrong_credentials_witness:
  "server_negotiate demo_config (slice_reader (greeting [2] @ credentials [117] [112] @ [])) =
    (Raise (IoError PermissionDenied (Message WrongCredentials)),
     wrote ((slice_reader (greeting [2] @ credentials [117] [112] @ []))\<lparr>rx := []\<rparr>) [5, 2, 1, 1])"
  by (rule negotiation_refuses_wrong_credentials [OF demo_valid])
    (simp_all add: demo_config_def counted_def as_bytes_def room_def)

text \<open>C1: What a connection must have said before the server acts for it. The handshake hands a
  CONNECT or UDP ASSOCIATE request on if and only if the bytes are an acceptable greeting,
  the configured credentials, and a well-formed request of that command; so no request is
  acted on for a client that did not authenticate, and every correct client is served.\<close>

theorem handshake_dispatch_iff:
  assumes "valid_credentials (cfg_username cfg) (cfg_password cfg)"
    and "dispatched d = Some (k, t)"
  shows "handle_handshake cfg c = (Return d, c') \<longleftrightarrow>
    c_opt c = Inr () \<and> wf_target t \<and>
    (\<exists>ms bs. counted ms \<and> selected_method cfg \<in> set ms \<and> target_wire t = Some bs \<and>
       rx c = greeting ms @ auth_message cfg @ [5, k, 0] @ bs @ rx c') \<and>
    room c (length (auth_answer cfg)) \<and> c' = wrote (c\<lparr>rx := rx c'\<rparr>) (auth_answer cfg)"
  using assms by (rule handle_handshake_iff)

theorem handshake_dispatch_iff_witness:
  "handle_handshake cfg_default (slice_reader [5, 1, 0, 5, 1, 0, 1, 127, 0, 0, 1, 0, 80]) =
     (Return (Do_connect (target_from (SockV4 0x7F000001 80))), wrote (slice_reader []) [5, 0])"
proof -
  let ?c = "slice_reader [5, 1, 0, 5, 1, 0, 1, 127, 0, 0, 1, 0, 80]"
  let ?bs = "encode_address [] (SockV4 0x7F000001 80)"
  have bs: "?bs = [1, 127, 0, 0, 1, 0, 80]"
    by (simp add: encode_address_def v4_octets_def port_bytes_def be_bytes_numeral)
  have answer: "auth_answer cfg_default = [5, 0]" "selected_method cfg_default = 0"
      "auth_message cfg_default = []"
    by (simp_all add: auth_answer_def selected_method_def auth_message_def cfg_default_def)
  have valid: "valid_credentials (cfg_username cfg_default) (cfg_password cfg_default)"
    by (simp add: valid_credentials_def cfg_default_def)
  have "counted [0] \<and> selected_method cfg_default \<in> set [0] \<and>
      target_wire (target_from (SockV4 0x7F000001 80)) = Some ?bs \<and>
      rx ?c = greeting [0] @ auth_message cfg_default @ [5, CONNECT, 0] @ ?bs @ []"
    by (simp add: counted_def answer greeting_def CONNECT_def bs target_wire_from)
  moreover have "c_opt ?c = Inr ()" "?c\<lparr>rx := []\<rparr> = slice_reader []" "room ?c n" for n
    by (simp_all add: slice_reader_def room_def)
  ultimately show ?thesis
    unfolding handshake_dispatch_iff [OF valid dispatched.simps(1)]
    by (intro conjI exI [of _ "[0]"] exI [of _ ?bs]) (simp_all add: answer)
qed

text \<open>Whatever a client sends or does not send, the handshake ends: with every write taken, it
  returns or fails, because both reading phases are under a timeout.\<close>

theorem handshake_ends:
  assumes "tx_room c = None"
  shows "\<exists>r c'. handle_handshake cfg c = (r, c') \<and> r \<noteq> Pending"
  using handle_handshake_not_Pending [OF assms]
  by (cases "handle_handshake cfg c") auto

theorem handshake_ends_witness:
  "\<exists>r c'. handle_handshake demo_config ((slice_reader [5])\<lparr>rx_end := Stall\<rparr>) = (r, c') \<and> r \<noteq> Pending"
  by (rule handshake_ends) (simp add: slice_reader_def)

text \<open>A request the server cannot serve is answered: an unknown command of an accepted client
  with the status for it and the unspecified address of the connection's family, after which
  the connection is over without an error.\<close>

theorem unsupported_command_answered:
  assumes "c_opt c = Inr ()" and "server_negotiate cfg c = (Return (), c1)"
    and "read_request_async c1 = (Return (k, t), c2)" and "k \<notin> {CONNECT, UDP_ASSOCIATE}"
    and "c_local c2 = Inr a" and "tx_room c2 = None"
  shows "handle_handshake cfg c =
    (Return Rejected,
     c2\<lparr>tx := tx c2 @ encode_address [5, COMMAND_UNSUPPORTED, 0] (unspecified (sock_ip a))\<rparr>)"
  using assms by (rule handshake_unsupported)

theorem unsupported_command_answered_witness:
  "handle_handshake cfg_default (slice_reader [5, 1, 0, 5, 2, 0, 1, 0, 0, 0, 0, 0, 0]) =
    (Return Rejected,
     (slice_reader [])\<lparr>tx := [5, 0] @ encode_address [5, COMMAND_UNSUPPORTED, 0] (SockV4 0 0)\<rparr>)"
proof -
  let ?c = "slice_reader [5, 1, 0, 5, 2, 0, 1, 0, 0, 0, 0, 0, 0]"
  let ?c1 = "(slice_reader [5, 2, 0, 1, 0, 0, 0, 0, 0, 0])\<lparr>tx := [5, 0]\<rparr>"
  have 1: "server_negotiate cfg_default ?c = (Return (), ?c1)"
    by (simp add: server_negotiate_def selected_method_def cfg_default_def io_bind_def read_exact_def
        write_all_def io_return_def slice_reader_def)
  have 2: "read_request_async ?c1 =
      (Return (2, target_from (SockV4 0 0)), (slice_reader [])\<lparr>tx := [5, 0]\<rparr>)"
    by (simp add: read_request_async_def read_target_async_def io_bind_def read_exact_def
        io_return_def slice_reader_def v4_of_octets_def port_of_bytes_def be_val_def target_from_def)
  from unsupported_command_answered [OF _ 1 2, of "SockV4 0 0"] show ?thesis
    by (simp add: slice_reader_def unspecified_def CONNECT_def UDP_ASSOCIATE_def)
qed

end
