(* ===== verification/Dns.thy ===== *)
theory Dns
  imports Protocol
begin

text \<open>
  \<open>DnsResolver::lookup\<close> of \<open>src/dns.rs\<close>. The resolver library's \<open>lookup_ip\<close> is a
  parameter: it answers a name with addresses or an error of its own, which the program
  wraps into an \<open>io::Error\<close>. \<open>lookup_blocking\<close> runs the same lookup to its end, on the
  runtime it finds. Of \<open>DnsResolver::new\<close> the configuration handed to the library is here.
\<close>

record name_server =
  ns_address :: ip_addr
  ns_trust_negative :: bool
  ns_udp_port :: u16
  ns_tcp_port :: u16

record resolver_options =
  ro_servers :: "name_server list"
  ro_timeout :: nat
  ro_attempts :: nat
  ro_hosts_file :: bool

definition resolver_options :: "socket_addr list \<Rightarrow> resolver_options" where
  "resolver_options servers =
     \<lparr>ro_servers =
        map (\<lambda>s. \<lparr>ns_address = sock_ip s, ns_trust_negative = True,
                   ns_udp_port = sock_port s, ns_tcp_port = sock_port s\<rparr>) servers,
      ro_timeout = 3, ro_attempts = 2, ro_hosts_file = False\<rparr>"

text \<open>
  \<open>DnsResolver::new\<close>: inside a runtime the resolver uses it, otherwise it gets one of its own.
  \<open>build\<close> is the library's answer, whose error is wrapped. The result says whether the
  resolver owns a runtime.
\<close>

definition dns_new ::
  "bool \<Rightarrow> io_error + unit \<Rightarrow> (resolver_options \<Rightarrow> net_error + 'r) \<Rightarrow> socket_addr list \<Rightarrow>
     io_error + bool \<times> 'r" where
  "dns_new in_runtime new_runtime build servers =
     (let built = (case build (resolver_options servers) of
                     Inl e \<Rightarrow> Inl (IoError OtherKind (Resolver e)) | Inr r \<Rightarrow> Inr r)
      in if in_runtime
         then (case built of Inl e \<Rightarrow> Inl e | Inr r \<Rightarrow> Inr (False, r))
         else
           (case new_runtime of
              Inl e \<Rightarrow> Inl e
            | Inr _ \<Rightarrow> (case built of Inl e \<Rightarrow> Inl e | Inr r \<Rightarrow> Inr (True, r))))"

definition dns_lookup ::
  "(string \<Rightarrow> net_error + ip_addr list) \<Rightarrow> target \<Rightarrow> io_error + socket_addr list" where
  "dns_lookup lookup_ip t =
     (case (case t_host t of
              Ip ip \<Rightarrow> Inr [sock_new ip (t_port t)]
            | Domain name \<Rightarrow>
                (case lookup_ip name of
                   Inl e \<Rightarrow> Inl (IoError OtherKind (Resolver e))
                 | Inr ips \<Rightarrow> Inr (map (\<lambda>ip. sock_new ip (t_port t)) ips))) of
        Inl e \<Rightarrow> Inl e
      | Inr addresses \<Rightarrow>
          if addresses = [] then Inl (IoError NotFound (Message NoLookupResult))
          else Inr addresses)"

definition lookup_blocking ::
  "bool \<Rightarrow> bool \<Rightarrow> io_error + unit \<Rightarrow> (string \<Rightarrow> net_error + ip_addr list) \<Rightarrow> target \<Rightarrow>
     io_error + socket_addr list" where
  "lookup_blocking in_runtime owns_runtime new_runtime lookup_ip t =
     (if in_runtime then dns_lookup lookup_ip t
      else if owns_runtime then dns_lookup lookup_ip t
      else
        (case new_runtime of
           Inl e \<Rightarrow> Inl e
         | Inr _ \<Rightarrow> dns_lookup lookup_ip t))"

text \<open>
  \<open>Drop\<close>: a runtime of its own is taken out of the resolver and released on a new thread that
  is joined, so that it is never released inside the runtime of the caller. The result names
  the threads on which a runtime is released.
\<close>

datatype release_thread = Caller_thread | New_thread

definition dns_drop :: "bool \<times> 'r \<Rightarrow> release_thread list \<times> bool \<times> 'r" where
  "dns_drop d =
     (case d of (owns_runtime, r) \<Rightarrow> (if owns_runtime then [New_thread] else [], False, r))"

text \<open>The resolver's interface: an answer is never empty and always for the asked port.\<close>

locale resolver =
  fixes lookup :: "target \<Rightarrow> io_error + socket_addr list"
  assumes lookup_nonempty: "lookup t = Inr addresses \<Longrightarrow> addresses \<noteq> []"
    and lookup_port: "lookup t = Inr addresses \<Longrightarrow> a \<in> set addresses \<Longrightarrow> sock_port a = t_port t"
    and lookup_literal: "t_host t = Ip ip \<Longrightarrow> lookup t = Inr [sock_new ip (t_port t)]"
begin

lemma lookup_index:
  "lookup t = Inr addresses \<Longrightarrow> i mod length addresses < length addresses"
  by (auto dest: lookup_nonempty)

lemma lookup_from: "lookup (target_from a) = Inr [sock_new (sock_ip a) (sock_port a)]"
  by (simp add: target_from_def lookup_literal)

end

interpretation dns: resolver "dns_lookup lookup_ip" for lookup_ip
  by unfold_locales
    (auto simp: dns_lookup_def split: host.splits sum.splits if_splits)

end
