(* ===== verification/Server.thy ===== *)
theory Server
  imports Registry Server_Handshake Dns
begin

text \<open>
  The life of the server: \<open>bind\<close>, \<open>run_async\<close> with its accept loop and its end, and the
  program's \<open>main\<close>. The accept loop is a state machine over what its \<open>select!\<close> waits for;
  the handlers it spawns are numbered, and hold a permit until they end.
\<close>

section \<open>Binding\<close>

definition and_then :: "'e + 'a \<Rightarrow> ('a \<Rightarrow> 'e + 'b) \<Rightarrow> 'e + 'b" where
  "and_then r f = (case r of Inl e \<Rightarrow> Inl e | Inr x \<Rightarrow> f x)"

text \<open>A socket by what the calls on it return; \<open>set_reuse_port\<close> is not checked.\<close>

record socket_calls =
  so_new :: "io_error + unit"
  so_only_v6 :: "io_error + unit"
  so_nonblocking :: "io_error + unit"
  so_reuse_address :: "io_error + unit"
  so_bind :: "socket_addr \<Rightarrow> io_error + unit"
  so_listen :: "io_error + unit"
  so_local :: "io_error + socket_addr"

definition open_socket :: "socket_calls \<Rightarrow> io_error + unit" where
  "open_socket s =
     and_then (so_new s) (\<lambda>_.
     and_then (so_only_v6 s) (\<lambda>_.
     and_then (so_nonblocking s) (\<lambda>_. so_reuse_address s)))"

definition server_bind :: "config \<Rightarrow> socket_calls \<Rightarrow> socket_calls \<Rightarrow> io_error + registry \<times> u64" where
  "server_bind cfg tcp udp =
     and_then (open_socket tcp) (\<lambda>_.
     and_then (so_bind tcp (sock_new (IpV6 0) (cfg_port cfg))) (\<lambda>_.
     and_then (so_listen tcp) (\<lambda>_.
     and_then (open_socket udp) (\<lambda>_.
     and_then (so_local tcp) (\<lambda>local.
     and_then (so_bind udp (sock_new (IpV6 0) (sock_port local))) (\<lambda>_.
     Inr (reg_default, 1)))))))"

section \<open>The accept loop\<close>

definition MAX_TCP_CLIENTS :: nat where "MAX_TCP_CLIENTS = 2048"

record serving =
  sv_next_id :: u64
  sv_spawned :: nat
  sv_clients :: "nat \<rightharpoonup> u64 \<times> socket_addr"

datatype udp_outcome = Udp_returned "io_error + unit" | Udp_panicked

datatype serve_event =
    Shutdown
  | Udp_ended udp_outcome
  | Accepted socket_addr
  | Accept_failed io_error

text \<open>The loop goes on, or it is left with \<open>result\<close> and \<open>udp_result\<close>.\<close>

datatype serve = Serving serving | Stopping "io_error + unit" "(io_error + unit) option"

definition serve_start :: "u64 \<Rightarrow> serving" where
  "serve_start first_id = \<lparr>sv_next_id = first_id, sv_spawned = 0, sv_clients = Map.empty\<rparr>"

definition udp_end_result :: "bool \<Rightarrow> udp_outcome \<Rightarrow> io_error + unit" where
  "udp_end_result cancelled ended =
     (case ended of
        Udp_returned (Inr _) \<Rightarrow>
          if \<not> cancelled then Inl (IoError OtherKind (Message UdpTaskEnded)) else Inr ()
      | Udp_returned (Inl e) \<Rightarrow> Inl e
      | Udp_panicked \<Rightarrow> Inl (IoError OtherKind TaskFailure))"

definition serve_step :: "config \<Rightarrow> bool \<Rightarrow> serve_event \<Rightarrow> serving \<Rightarrow> serve" where
  "serve_step cfg cancelled ev s =
     (case ev of
        Shutdown \<Rightarrow> Stopping (Inr ()) None
      | Udp_ended ended \<Rightarrow> Stopping (Inr ()) (Some (udp_end_result cancelled ended))
      | Accept_failed e \<Rightarrow> Stopping (Inl e) None
      | Accepted address \<Rightarrow>
          if \<not> wl_allows (cfg_whitelist cfg) (sock_ip address) then Serving s
          else if card (dom (sv_clients s)) \<ge> MAX_TCP_CLIENTS then Serving s
          else
            Serving (s\<lparr>sv_clients := (sv_clients s)(sv_spawned s \<mapsto> (sv_next_id s, address)),
                       sv_spawned := Suc (sv_spawned s), sv_next_id := sv_next_id s + 1\<rparr>))"

text \<open>A handler that ends gives its permit back.\<close>

definition client_ended :: "nat \<Rightarrow> serving \<Rightarrow> serving" where
  "client_ended n s = s\<lparr>sv_clients := (sv_clients s)(n := None)\<rparr>"

text \<open>The end: every registered association is stopped, and the UDP task is waited for.\<close>

definition stop_all :: "store \<times> registry \<Rightarrow> store \<times> registry" where
  "stop_all st =
     (case st of (h, r) \<Rightarrow>
        ((\<lambda>a. if a \<in> ran (entries r) then (h a)\<lparr>alive := False, stopped := True\<rparr> else h a), r))"

definition serve_result :: "io_error + unit \<Rightarrow> (io_error + unit) option \<Rightarrow> udp_outcome \<Rightarrow> io_error + unit" where
  "serve_result result udp_result awaited =
     (case udp_result of
        Some u \<Rightarrow> and_then result (\<lambda>_. u)
      | None \<Rightarrow>
          (case awaited of
             Udp_panicked \<Rightarrow> Inl (IoError OtherKind (Message UdpTaskAborted))
           | Udp_returned u \<Rightarrow> and_then result (\<lambda>_. u)))"

inductive serve_moves :: "config \<Rightarrow> serving \<Rightarrow> serving \<Rightarrow> bool" for cfg :: config where
  serve_event: "serve_step cfg cancelled ev s = Serving s' \<Longrightarrow> serve_moves cfg s s'"
| serve_ended: "serve_moves cfg s (client_ended n s)"

text \<open>
  The loop on a sequence of events, each with the state of the shutdown token (\<open>Inl\<close> is a
  handler that ends).
\<close>

fun serve_run :: "config \<Rightarrow> serve \<Rightarrow> (bool \<times> (nat + serve_event)) list \<Rightarrow> serve" where
  "serve_run cfg v [] = v"
| "serve_run cfg (Serving s) ((cancelled, Inl n) # evs) = serve_run cfg (Serving (client_ended n s)) evs"
| "serve_run cfg (Serving s) ((cancelled, Inr ev) # evs) = serve_run cfg (serve_step cfg cancelled ev s) evs"
| "serve_run cfg (Stopping result u) evs = Stopping result u"

text \<open>
  \<open>run_async\<close>: the resolver and the two sockets are taken over, the loop runs on the events,
  and when it is left everything that is registered then is stopped and the UDP task is
  waited for. The associations and the registry start as \<open>st\<close>; \<open>env\<close> 0 is what the handlers
  and the UDP task do to them until the loop is left, and \<open>env\<close> 1 what they still do, a
  registration included, while the UDP task is waited for. \<open>None\<close> is a server that still runs.
\<close>

definition run_async ::
  "config \<Rightarrow> io_error + unit \<Rightarrow> io_error + unit \<Rightarrow> io_error + unit \<Rightarrow>
     (bool \<times> (nat + serve_event)) list \<Rightarrow> udp_outcome \<Rightarrow>
     (nat \<Rightarrow> store \<times> registry \<Rightarrow> store \<times> registry) \<Rightarrow> store \<times> registry \<Rightarrow>
     ((io_error + unit) \<times> store \<times> registry) option" where
  "run_async cfg dns tcp udp evs awaited env st =
     (case and_then dns (\<lambda>_. and_then tcp (\<lambda>_. udp)) of
        Inl e \<Rightarrow> Some (Inl e, st)
      | Inr _ \<Rightarrow>
          (case serve_run cfg (Serving (serve_start 1)) evs of
             Stopping result u \<Rightarrow>
               (let st = stop_all (env 0 st);
                    st = (case u of Some _ \<Rightarrow> st | None \<Rightarrow> env 1 st)
                in Some (serve_result result u awaited, st))
           | Serving _ \<Rightarrow> None))"

text \<open>
  \<open>run\<close> uses the runtime it is called in or builds one, whose error it returns; \<open>result\<close> is what
  \<open>run_async\<close> comes to.
\<close>

definition server_run :: "bool \<Rightarrow> io_error + unit \<Rightarrow> io_error + unit \<Rightarrow> io_error + unit" where
  "server_run in_runtime new_runtime result =
     (if in_runtime then result else and_then new_runtime (\<lambda>_. result))"

definition server_local_addr :: "socket_calls \<Rightarrow> io_error + socket_addr" where
  "server_local_addr tcp = so_local tcp"

section \<open>The program\<close>

text \<open>
  \<open>main\<close>: \<open>run\<close> is the result of the server that was bound, given the configuration. The help
  option ends the program with success.
\<close>

definition program_main ::
  "(string \<Rightarrow> string option) \<Rightarrow> string list \<Rightarrow> io_error + unit \<Rightarrow> socket_calls \<Rightarrow> socket_calls \<Rightarrow>
     (config \<Rightarrow> io_error + unit) \<Rightarrow> (cfg_error + io_error) + unit" where
  "program_main read_to_string args set_handler tcp udp run =
     (case config_parse read_to_string args of
        Inl e \<Rightarrow> Inl (Inl e)
      | Inr None \<Rightarrow> Inr ()
      | Inr (Some cfg) \<Rightarrow>
          (case and_then set_handler (\<lambda>_. and_then (server_bind cfg tcp udp) (\<lambda>_. run cfg)) of
             Inl e \<Rightarrow> Inl (Inr e)
           | Inr _ \<Rightarrow> Inr ()))"

section \<open>What the server keeps\<close>

lemma and_then_Inr: "and_then r f = Inr y \<longleftrightarrow> (\<exists>x. r = Inr x \<and> f x = Inr y)"
  by (cases r) (simp_all add: and_then_def)

text \<open>Both sockets share the port the system chose.\<close>

lemma server_bind_port:
  assumes "server_bind cfg tcp udp = Inr res"
  shows "\<exists>local. so_local tcp = Inr local \<and> so_bind udp (sock_new (IpV6 0) (sock_port local)) = Inr () \<and>
    so_bind tcp (sock_new (IpV6 0) (cfg_port cfg)) = Inr () \<and> res = (reg_default, 1)"
  using assms by (auto simp: server_bind_def and_then_Inr)

definition serve_inv :: "config \<Rightarrow> serving \<Rightarrow> bool" where
  "serve_inv cfg s \<longleftrightarrow>
     sv_next_id s = 1 + word_of_nat (sv_spawned s) \<and>
     (\<forall>n i address. sv_clients s n = Some (i, address) \<longrightarrow>
        n < sv_spawned s \<and> i = 1 + word_of_nat n \<and> wl_allows (cfg_whitelist cfg) (sock_ip address))"

lemma serve_step_Serving:
  assumes "serve_step cfg cancelled ev s = Serving s'"
  obtains "s' = s"
  | address where "wl_allows (cfg_whitelist cfg) (sock_ip address)"
      "card (dom (sv_clients s)) < MAX_TCP_CLIENTS"
      "s' = s\<lparr>sv_clients := (sv_clients s)(sv_spawned s \<mapsto> (sv_next_id s, address)),
              sv_spawned := Suc (sv_spawned s), sv_next_id := sv_next_id s + 1\<rparr>"
proof (cases ev)
  case (Accepted address)
  show thesis
  proof (cases "s' = s")
    case False
    then show thesis
      using assms Accepted by (intro that(2) [of address]) (simp_all add: serve_step_def split: if_splits)
  qed (rule that(1))
qed (use assms in \<open>simp_all add: serve_step_def\<close>)

lemma serve_moves_inv:
  assumes "serve_inv cfg s" "serve_moves cfg s s'"
  shows "serve_inv cfg s'"
  using assms(2)
proof cases
  case (serve_event cancelled ev)
  from serve_event(1) show ?thesis
  proof (cases rule: serve_step_Serving)
    case 1
    then show ?thesis using assms(1) by simp
  next
    case (2 address)
    have "sv_next_id s' = 1 + word_of_nat (sv_spawned s')"
      using assms(1) by (simp add: serve_inv_def 2)
    moreover have "n < sv_spawned s' \<and> i = 1 + word_of_nat n \<and> wl_allows (cfg_whitelist cfg) (sock_ip x)"
      if "sv_clients s' n = Some (i, x)" for n i x
    proof (cases "n = sv_spawned s")
      case True
      then show ?thesis using that assms(1) 2(1) by (simp add: serve_inv_def 2(3))
    next
      case False
      then have "sv_clients s n = Some (i, x)" using that by (simp add: 2)
      then have "n < sv_spawned s \<and> i = 1 + word_of_nat n \<and> wl_allows (cfg_whitelist cfg) (sock_ip x)"
        using assms(1) unfolding serve_inv_def by blast
      then show ?thesis by (simp add: 2)
    qed
    ultimately show ?thesis unfolding serve_inv_def by blast
  qed
next
  case (serve_ended n)
  then show ?thesis using assms(1) by (simp add: serve_inv_def client_ended_def)
qed

interpretation serving: invariant_system "\<lambda>s. s = serve_start 1" "serve_moves cfg" "serve_inv cfg" for cfg
proof
  show "serve_inv cfg s" if "s = serve_start 1" for s
    using that by (simp add: serve_inv_def serve_start_def)
qed (rule serve_moves_inv)

interpretation client_permits:
  bounded_resource "\<lambda>s. s = serve_start 1" "serve_moves cfg" "\<lambda>s. dom (sv_clients s)" MAX_TCP_CLIENTS
  for cfg
proof
  fix s t assume "serve_moves cfg s t"
  then show "bounded_change MAX_TCP_CLIENTS (dom (sv_clients s)) (dom (sv_clients t))"
  proof cases
    case (serve_event cancelled ev)
    from serve_event(1) show ?thesis
      by (cases rule: serve_step_Serving) (auto intro: bounded_add)
  next
    case (serve_ended n)
    then show ?thesis by (auto simp: client_ended_def intro: bounded_keep)
  qed
qed (simp add: serve_start_def)

text \<open>Two handlers have the same id only if the counter has wrapped.\<close>

lemma serve_ids_distinct:
  assumes "serve_inv cfg s" "sv_spawned s < 2 ^ 64" "sv_clients s m = Some (i, x)" "sv_clients s n = Some (i, y)"
  shows "m = n"
proof -
  have c: "k < sv_spawned s" "i = 1 + word_of_nat k" if "sv_clients s k = Some (i, z)" for k z
    using assms(1) that unfolding serve_inv_def by blast+
  have "m < 2 ^ 64" "n < 2 ^ 64"
    using c(1) [OF assms(3)] c(1) [OF assms(4)] assms(2) by (meson less_trans)+
  moreover have "(word_of_nat m :: u64) = word_of_nat n"
    using c(2) [OF assms(3)] c(2) [OF assms(4)] by simp
  ultimately show ?thesis
    using word_of_nat_u64_inj by blast
qed

text \<open>C23: Clients are bounded, admitted and told apart. However connections come and go, at most 2048
  handlers run; each serves a client the whitelist admits; and as long as fewer than \<open>2 ^ 64\<close>
  connections were accepted no two handlers have the same id, so the registry's assumption
  that ids are fresh is met.\<close>

theorem clients_bounded:
  assumes "(serve_moves cfg)\<^sup>*\<^sup>* (serve_start 1) s"
  shows "card (dom (sv_clients s)) \<le> 2048 \<and>
    (\<forall>n i address. sv_clients s n = Some (i, address) \<longrightarrow> wl_allows (cfg_whitelist cfg) (sock_ip address)) \<and>
    (sv_spawned s < 2 ^ 64 \<longrightarrow>
       (\<forall>m n i x y. sv_clients s m = Some (i, x) \<longrightarrow> sv_clients s n = Some (i, y) \<longrightarrow> m = n))"
proof (intro conjI allI impI)
  have inv: "serve_inv cfg s"
    using serving.reachable_inv [OF refl assms] .
  show "card (dom (sv_clients s)) \<le> 2048"
    using client_permits.steps_bounded [OF refl assms] by (simp add: MAX_TCP_CLIENTS_def)
  show "wl_allows (cfg_whitelist cfg) (sock_ip address)" if "sv_clients s n = Some (i, address)" for n i address
    using inv that unfolding serve_inv_def by blast
  show "m = n" if "sv_spawned s < 2 ^ 64" "sv_clients s m = Some (i, x)" "sv_clients s n = Some (i, y)" for m n i x y
    using serve_ids_distinct [OF inv that] .
qed

definition demo_serving :: serving where
  "demo_serving = \<lparr>sv_next_id = 2, sv_spawned = 1, sv_clients = [0 \<mapsto> (1, SockV4 7 99)]\<rparr>"

theorem clients_bounded_witness:
  "card (dom (sv_clients demo_serving)) \<le> 2048 \<and> wl_allows (cfg_whitelist cfg_default) (IpV4 7)"
proof -
  have "serve_step cfg_default False (Accepted (SockV4 7 99)) (serve_start 1) = Serving demo_serving"
    by (simp add: serve_step_def serve_start_def demo_serving_def cfg_default_def wl_default_def wl_allows_def
        MAX_TCP_CLIENTS_def)
  then have "(serve_moves cfg_default)\<^sup>*\<^sup>* (serve_start 1) demo_serving"
    by (intro r_into_rtranclp serve_event)
  note bounded = clients_bounded [OF this]
  have "sv_clients demo_serving 0 = Some (1, SockV4 7 99)"
    by (simp add: demo_serving_def)
  then show ?thesis
    using bounded [THEN conjunct1] bounded [THEN conjunct2, THEN conjunct1, rule_format, of 0 1 "SockV4 7 99"]
    by simp
qed

section \<open>The end of the server\<close>

lemma stop_all_inv:
  assumes "reg_inv (h, r)"
  shows "reg_inv (stop_all (h, r))" "sessions (stop_all (h, r)) = sessions (h, r)"
proof -
  have "sessions (stop_all (h, r)) i = sessions (h, r) i" for i
    by (cases "entries r i") (auto simp: stop_all_def sessions_def)
  then show "sessions (stop_all (h, r)) = sessions (h, r)" by blast
  then show "reg_inv (stop_all (h, r))"
    using assms by (auto simp: reg_inv_def stop_all_def)
qed

text \<open>After the shutdown nothing is relayed. Once the server has left its loop, every registered
  association is marked and told to stop, and no datagram of any source finds an association
  any more.\<close>

theorem shutdown_stops_all:
  assumes "reg_inv (h, r)" and "stop_all (h, r) = (h', r')"
  shows "(\<forall>i a. entries r i = Some a \<longrightarrow> \<not> alive (h' a) \<and> stopped (h' a)) \<and>
    fst (reg_find source (h', r')) = None"
proof -
  have inv: "reg_inv (h', r')"
    using stop_all_inv(1) [OF assms(1)] assms(2) by simp
  have dead: "\<not> alive (h' a) \<and> stopped (h' a)" if "entries r i = Some a" for i a
    using assms(2) ranI [of "entries r", OF that] by (auto simp: stop_all_def)
  moreover have "r' = r" using assms(2) by (simp add: stop_all_def)
  ultimately have "fst (reg_find source (h', r')) \<noteq> Some a" for a
    using reg_find_owner [OF inv, of source a] by blast
  then show ?thesis
    using dead by (metis option.exhaust)
qed

theorem shutdown_stops_all_witness:
  "\<not> alive (fst (stop_all demo_state) 0) \<and> fst (reg_find (SockV4 7 5) (stop_all demo_state)) = None"
proof -
  have "entries (snd demo_state) 1 = Some 0"
    by (simp add: demo_state_def)
  then show ?thesis
    using shutdown_stops_all [of "fst demo_state" "snd demo_state" "fst (stop_all demo_state)"
        "snd (stop_all demo_state)" "SockV4 7 5"] demo_inv by auto
qed

lemma serve_step_ok:
  assumes "serve_step cfg cancelled ev s = Stopping result udp_result"
  shows "serve_result result udp_result awaited = Inr () \<longleftrightarrow>
    ev = Shutdown \<and> awaited = Udp_returned (Inr ()) \<or>
    ev = Udp_ended (Udp_returned (Inr ())) \<and> cancelled"
  using assms
  by (cases ev)
    (auto simp: serve_step_def serve_result_def udp_end_result_def and_then_Inr
      split: udp_outcome.splits sum.splits if_splits)

lemma serve_run_Stopping [simp]: "serve_run cfg (Stopping result u) evs = Stopping result u"
  by (cases evs) simp_all

text \<open>A run that stops does so at one event of the loop.\<close>

lemma serve_run_stops:
  "serve_run cfg (Serving s) evs = Stopping result u \<Longrightarrow>
     \<exists>s' cancelled ev. (cancelled, Inr ev) \<in> set evs \<and> serve_step cfg cancelled ev s' = Stopping result u"
proof (induction evs arbitrary: s)
  case (Cons e evs)
  obtain cancelled x where e: "e = (cancelled, x)" by (cases e)
  show ?case
  proof (cases x)
    case (Inl n)
    then have "serve_run cfg (Serving (client_ended n s)) evs = Stopping result u"
      using Cons.prems e by simp
    from Cons.IH [OF this] show ?thesis
      by (meson list.set_intros(2))
  next
    case (Inr ev)
    show ?thesis
    proof (cases "serve_step cfg cancelled ev s")
      case (Serving s')
      then have "serve_run cfg (Serving s') evs = Stopping result u"
        using Cons.prems e Inr by simp
      from Cons.IH [OF this] show ?thesis
        by (meson list.set_intros(2))
    next
      case (Stopping r v)
      then have "serve_step cfg cancelled ev s = Stopping result u"
        using Cons.prems e Inr by simp
      then show ?thesis
        using e Inr by (meson list.set_intros(1))
    qed
  qed
qed simp

lemma run_async_sound:
  assumes "run_async cfg dns tcp udp evs awaited env st = Some (result, st')"
  shows "(result = Inr () \<longrightarrow> dns = Inr () \<and> tcp = Inr () \<and> udp = Inr () \<and>
      ((\<exists>cancelled. (cancelled, Inr Shutdown) \<in> set evs) \<and> awaited = Udp_returned (Inr ()) \<or>
       (True, Inr (Udp_ended (Udp_returned (Inr ())))) \<in> set evs)) \<and>
    (dns = Inr () \<and> tcp = Inr () \<and> udp = Inr () \<longrightarrow>
       st' = stop_all (env 0 st) \<or> st' = env 1 (stop_all (env 0 st)))"
proof (cases "and_then dns (\<lambda>_. and_then tcp (\<lambda>_. udp))")
  case (Inl e)
  then show ?thesis
    using assms by (auto simp: run_async_def and_then_def split: sum.splits)
next
  case (Inr u)
  then have up: "dns = Inr ()" "tcp = Inr ()" "udp = Inr ()"
    by (auto simp: and_then_Inr)
  obtain r v where r: "serve_run cfg (Serving (serve_start 1)) evs = Stopping r v"
      "result = serve_result r v awaited" "st' = stop_all (env 0 st) \<or> st' = env 1 (stop_all (env 0 st))"
    using assms Inr by (auto simp: run_async_def Let_def split: serve.splits option.splits)
  obtain s' cancelled ev where ev: "(cancelled, Inr ev) \<in> set evs" "serve_step cfg cancelled ev s' = Stopping r v"
    using serve_run_stops [OF r(1)] by blast
  show ?thesis
    using serve_step_ok [OF ev(2), of awaited] ev(1) up r(2,3) by auto
qed

lemma run_async_ok:
  assumes "run_async cfg dns tcp udp evs awaited env st = Some (Inr (), st')"
  shows "st' = stop_all (env 0 st) \<or> st' = env 1 (stop_all (env 0 st))"
    and "(\<exists>cancelled. (cancelled, Inr Shutdown) \<in> set evs) \<and> awaited = Udp_returned (Inr ()) \<or>
      (True, Inr (Udp_ended (Udp_returned (Inr ())))) \<in> set evs"
  using run_async_sound [OF assms] by simp_all

end
