(* ===== verification/Happy_Eyeballs.thy ===== *)
theory Happy_Eyeballs
  imports Io "HOL-Library.Multiset" "HOL-Library.Sublist"
begin

text \<open>
  \<open>src/happy_eyeballs.rs\<close>: the interleaving of the candidate addresses and the race of
  connection attempts.

  The race is a loop that waits for one of several things: an attempt that ends (well, with
  an error, or because its task failed) or the 250 millisecond delay. Which happens first is
  not the program's choice, so a turn of the loop is a function of the event that arrives,
  \<open>race_step\<close>, and a race is a sequence of events. An attempt is named by the position
  of its address in the interleaved list.
\<close>

section \<open>Interleaving\<close>

text \<open>The two queues of the loop, and the loop: one of each family per turn.\<close>

fun interleave :: "'a list \<Rightarrow> 'a list \<Rightarrow> 'a list" where
  "interleave [] [] = []"
| "interleave (x # xs) [] = x # interleave xs []"
| "interleave [] (y # ys) = y # interleave [] ys"
| "interleave (x # xs) (y # ys) = x # y # interleave xs ys"

definition interleave_addresses :: "socket_addr list \<Rightarrow> socket_addr list" where
  "interleave_addresses addresses =
     interleave (filter (\<lambda>a. \<not> is_ipv4 (sock_ip a)) addresses)
                (filter (\<lambda>a. is_ipv4 (sock_ip a)) addresses)"

lemma interleave_Nil_right [simp]: "interleave xs [] = xs"
  by (induction xs) simp_all

lemma interleave_Nil_left [simp]: "interleave [] ys = ys"
  by (induction ys) simp_all

lemma mset_interleave: "mset (interleave xs ys) = mset xs + mset ys"
  by (induction xs ys rule: interleave.induct) simp_all

lemma set_interleave: "set (interleave xs ys) = set xs \<union> set ys"
  by (induction xs ys rule: interleave.induct) auto

lemma filter_interleave:
  "\<forall>x \<in> set xs. P x \<Longrightarrow> \<forall>y \<in> set ys. \<not> P y \<Longrightarrow> filter P (interleave xs ys) = xs"
  "\<forall>x \<in> set xs. P x \<Longrightarrow> \<forall>y \<in> set ys. \<not> P y \<Longrightarrow>
     filter (\<lambda>x. \<not> P x) (interleave xs ys) = ys"
  by (induction xs ys rule: interleave.induct) auto

lemma interleave_nth:
  "i < length xs \<Longrightarrow> i < length ys \<Longrightarrow>
     interleave xs ys ! (2 * i) = xs ! i \<and> interleave xs ys ! (2 * i + 1) = ys ! i"
proof (induction xs ys arbitrary: i rule: interleave.induct)
  case (4 x xs y ys)
  then show ?case by (cases i) auto
qed auto

text \<open>The order the interleaving promises, family by family.\<close>

lemma interleave_addresses_filter:
  "filter (\<lambda>a. \<not> is_ipv4 (sock_ip a)) (interleave_addresses as) =
     filter (\<lambda>a. \<not> is_ipv4 (sock_ip a)) as"
  "filter (\<lambda>a. is_ipv4 (sock_ip a)) (interleave_addresses as) =
     filter (\<lambda>a. is_ipv4 (sock_ip a)) as"
  using filter_interleave [where P = "\<lambda>a. \<not> is_ipv4 (sock_ip a)"]
  by (simp_all add: interleave_addresses_def)

lemma mset_interleave_addresses: "mset (interleave_addresses as) = mset as"
  by (simp add: interleave_addresses_def mset_interleave)

lemma interleave_addresses_Nil_iff [simp]: "interleave_addresses as = [] \<longleftrightarrow> as = []"
  by (metis mset_interleave_addresses mset_zero_iff)

lemma length_interleave_addresses [simp]: "length (interleave_addresses as) = length as"
  by (metis mset_interleave_addresses size_mset)

section \<open>The race\<close>

text \<open>
  What the loop sees of an attempt: a stream, a connection error, or a failed task (its
  \<open>JoinError\<close>, which the code wraps into an error). The stream is the address connected to.
\<close>

datatype attempt = Connected | Refused io_error | TaskFailed

definition task_error :: io_error where
  "task_error = IoError OtherKind TaskFailure"

definition all_failed :: io_error where
  "all_failed = IoError OtherKind (Message AllAttemptsFailed)"

record race =
  started :: "socket_addr list"     \<comment> \<open>every attempt spawned so far, in order\<close>
  running :: "nat set"              \<comment> \<open>the join set: positions in \<open>started\<close>\<close>
  waiting :: "socket_addr list"     \<comment> \<open>\<open>next_candidate\<close> and the rest of the iterator\<close>
  last_error :: "io_error option"

datatype event = Joined nat attempt | Delay

datatype verdict = Running race | Done "io_error + socket_addr"

text \<open>\<open>join_set.spawn\<close> of the next candidate.\<close>

definition spawn_next :: "race \<Rightarrow> race" where
  "spawn_next r =
     (case waiting r of
        [] \<Rightarrow> r
      | a # rest \<Rightarrow> r\<lparr>started := started r @ [a],
                     running := insert (length (started r)) (running r),
                     waiting := rest\<rparr>)"

definition race_start :: "socket_addr list \<Rightarrow> race" where
  "race_start addresses =
     spawn_next \<lparr>started = [], running = {}, waiting = addresses, last_error = None\<rparr>"

text \<open>The loop ends when no candidate waits and no attempt runs.\<close>

definition race_over :: "race \<Rightarrow> bool" where
  "race_over r \<longleftrightarrow> waiting r = [] \<and> running r = {}"

definition race_error :: "race \<Rightarrow> io_error" where
  "race_error r = (case last_error r of Some e \<Rightarrow> e | None \<Rightarrow> all_failed)"

text \<open>The check at the top of the loop.\<close>

definition race_check :: "race \<Rightarrow> verdict" where
  "race_check r = (if race_over r then Done (Inl (race_error r)) else Running r)"

text \<open>
  One turn. An event that cannot happen (an attempt that is not running, the delay when no
  candidate waits and only \<open>join_next\<close> is awaited) leaves the loop waiting.
\<close>

definition attempt_failed :: "race \<Rightarrow> nat \<Rightarrow> io_error \<Rightarrow> verdict" where
  "attempt_failed r i e =
     race_check (spawn_next (r\<lparr>running := running r - {i}, last_error := Some e\<rparr>))"

definition race_step :: "race \<Rightarrow> event \<Rightarrow> verdict" where
  "race_step r ev =
     (case ev of
        Joined i result \<Rightarrow>
          if i \<notin> running r then Running r
          else
            (case result of
               Connected \<Rightarrow> Done (Inr (started r ! i))
             | Refused e \<Rightarrow> attempt_failed r i e
             | TaskFailed \<Rightarrow> attempt_failed r i task_error)
      | Delay \<Rightarrow> if waiting r = [] then Running r else Running (spawn_next r))"

fun race_run :: "verdict \<Rightarrow> event list \<Rightarrow> verdict" where
  "race_run v [] = v"
| "race_run (Done res) evs = Done res"
| "race_run (Running r) (ev # evs) = race_run (race_step r ev) evs"

definition race_connect :: "socket_addr list \<Rightarrow> event list \<Rightarrow> verdict" where
  "race_connect addresses evs = race_run (race_check (race_start addresses)) evs"


text \<open>
  \<open>happy_eyeballs_connect\<close>. The events are those that arrive before the total timeout;
  a race that is still running then has timed out. A single address is connected to without
  a race.
\<close>

definition connect_timeout :: io_error where
  "connect_timeout = IoError TimedOut (Message ConnectTargetTimeout)"

fun direct_connect :: "socket_addr \<Rightarrow> event list \<Rightarrow> io_error + socket_addr" where
  "direct_connect a [] = Inl connect_timeout"
| "direct_connect a (ev # evs) =
     (case ev of
        Joined 0 Connected \<Rightarrow> Inr a
      | Joined 0 (Refused e) \<Rightarrow> Inl e
      | _ \<Rightarrow> direct_connect a evs)"

definition happy_eyeballs_connect ::
  "socket_addr list \<Rightarrow> event list \<Rightarrow> io_error + socket_addr" where
  "happy_eyeballs_connect addresses evs =
     (case addresses of
        [] \<Rightarrow> Inl (IoError NotFound (Message EmptyAddressList))
      | [a] \<Rightarrow> direct_connect a evs
      | _ \<Rightarrow>
          (case race_connect (interleave_addresses addresses) evs of
             Done res \<Rightarrow> res
           | Running _ \<Rightarrow> Inl connect_timeout))"

section \<open>What the race keeps\<close>

text \<open>
  Attempts are started in the order of the addresses, each position once; and as long as the
  race is not over some attempt is running, so the loop never waits for the delay alone.
\<close>

definition race_inv :: "socket_addr list \<Rightarrow> race \<Rightarrow> bool" where
  "race_inv as r \<longleftrightarrow>
     started r @ waiting r = as \<and> running r \<noteq> {} \<and> running r \<subseteq> {..<length (started r)}"

lemma race_start_inv: "as \<noteq> [] \<Longrightarrow> race_inv as (race_start as)"
  by (cases as) (simp_all add: race_inv_def race_start_def spawn_next_def)

lemma race_start_check: "as \<noteq> [] \<Longrightarrow> race_check (race_start as) = Running (race_start as)"
  using race_start_inv [of as] by (simp add: race_check_def race_over_def race_inv_def)

lemma spawn_next_inv:
  "race_inv as r \<Longrightarrow> race_inv as (spawn_next r)"
  by (auto simp: race_inv_def spawn_next_def split: list.splits)

lemma attempt_failed_Running:
  assumes "attempt_failed r i e = Running r'" and "race_inv as r" and "i \<in> running r"
  shows "race_inv as r'"
  using assms
  by (auto simp: attempt_failed_def race_check_def race_over_def race_inv_def spawn_next_def
      split: if_splits list.splits)

lemma race_step_inv:
  "race_inv as r \<Longrightarrow> race_step r ev = Running r' \<Longrightarrow> race_inv as r'"
  by (auto simp: race_step_def spawn_next_inv attempt_failed_Running
      split: event.splits attempt.splits if_splits)

interpretation race: invariant_system
  "\<lambda>r. as \<noteq> [] \<and> r = race_start as" "\<lambda>r r'. \<exists>ev. race_step r ev = Running r'" "race_inv as"
  for as
  by unfold_locales (auto intro: race_start_inv race_step_inv)

lemma race_run_Done [simp]: "race_run (Done res) evs = Done res"
  by (cases evs) simp_all

lemma race_run_Running:
  "race_run (Running r) evs = Running r' \<Longrightarrow>
     (\<lambda>r r'. \<exists>ev. race_step r ev = Running r')\<^sup>*\<^sup>* r r'"
proof (induction evs arbitrary: r)
  case (Cons ev evs)
  then obtain r2 where r2: "race_step r ev = Running r2"
    by (cases "race_step r ev") auto
  with Cons show ?case
    by (intro converse_rtranclp_into_rtranclp [of _ r r2]) auto
qed simp

lemma race_connect_Running:
  "as \<noteq> [] \<Longrightarrow> race_connect as evs = Running r \<Longrightarrow> race_inv as r"
  using race.reachable_inv race_run_Running race_start_check
  by (fastforce simp: race_connect_def)

text \<open>How a race ends: the last turn, from a state that keeps the invariant.\<close>

lemma race_run_ends:
  "race_run (Running r) evs = Done res \<Longrightarrow> race_inv as r \<Longrightarrow>
     \<exists>r1 ev. ev \<in> set evs \<and> race_inv as r1 \<and> race_step r1 ev = Done res"
proof (induction evs arbitrary: r)
  case (Cons ev evs)
  show ?case
  proof (cases "race_step r ev")
    case (Running r2)
    with Cons.prems Cons.IH [of r2] race_step_inv [OF Cons.prems(2)] show ?thesis
      by auto
  next
    case (Done res')
    with Cons.prems show ?thesis by auto
  qed
qed simp

lemma race_step_Done:
  assumes "race_step r ev = Done res" and "race_inv as r"
  shows "(\<exists>i. ev = Joined i Connected \<and> i < length as \<and> res = Inr (as ! i)) \<or>
    (\<exists>i e. (ev = Joined i (Refused e) \<or> ev = Joined i TaskFailed \<and> e = task_error) \<and>
       res = Inl e \<and> running r = {i} \<and> started r = as)"
  using assms
  by (auto simp: race_step_def attempt_failed_def race_check_def race_over_def race_error_def
      race_inv_def spawn_next_def nth_append
      split: event.splits attempt.splits if_splits list.splits)

section \<open>How long the race takes\<close>

text \<open>Events that can happen when they do, and what every one of them uses up.\<close>

definition enabled :: "race \<Rightarrow> event \<Rightarrow> bool" where
  "enabled r ev = (case ev of Joined i _ \<Rightarrow> i \<in> running r | Delay \<Rightarrow> waiting r \<noteq> [])"

fun all_enabled :: "verdict \<Rightarrow> event list \<Rightarrow> bool" where
  "all_enabled v [] = True"
| "all_enabled (Done res) evs = True"
| "all_enabled (Running r) (ev # evs) = (enabled r ev \<and> all_enabled (race_step r ev) evs)"

definition race_work :: "race \<Rightarrow> nat" where
  "race_work r = 2 * length (waiting r) + card (running r)"

lemma race_inv_finite: "race_inv as r \<Longrightarrow> finite (running r)"
  by (auto simp: race_inv_def intro: finite_subset)

lemma spawn_next_work:
  "race_inv as r \<Longrightarrow> waiting r \<noteq> [] \<Longrightarrow> Suc (race_work (spawn_next r)) = race_work r"
  using race_inv_finite [of as r]
  by (auto simp: race_inv_def race_work_def spawn_next_def card_insert_if split: list.splits)

lemma attempt_failed_work:
  assumes "race_inv as r" and "i \<in> running r" and "attempt_failed r i e = Running r'"
  shows "race_work r' < race_work r"
proof -
  have f: "finite (running r)" and p: "0 < card (running r)"
    using race_inv_finite [OF assms(1)] assms(2) by (auto simp: card_gt_0_iff)
  have "length (started r) \<notin> running r"
    using assms(1) by (auto simp: race_inv_def)
  with f p assms(2,3) show ?thesis
    by (auto simp: attempt_failed_def race_check_def race_work_def spawn_next_def card_insert_if
        card_Diff_singleton split: if_splits list.splits)
qed

lemma race_work_less:
  assumes "race_inv as r" and "enabled r ev" and "race_step r ev = Running r'"
  shows "race_work r' < race_work r"
  using assms spawn_next_work [OF assms(1)]
  by (auto simp: enabled_def race_step_def intro: attempt_failed_work
      split: event.splits attempt.splits if_splits)

lemma race_work_pos: "race_inv as r \<Longrightarrow> 0 < race_work r"
  using race_inv_finite [of as r] by (auto simp: race_inv_def race_work_def card_gt_0_iff)

lemma race_run_finishes:
  "race_inv as r \<Longrightarrow> all_enabled (Running r) evs \<Longrightarrow> race_work r \<le> length evs \<Longrightarrow>
     \<exists>res. race_run (Running r) evs = Done res"
proof (induction evs arbitrary: r)
  case Nil
  then show ?case using race_work_pos [of as r] by simp
next
  case (Cons ev evs)
  show ?case
  proof (cases "race_step r ev")
    case (Running r2)
    with Cons.prems race_work_less [of as r ev r2] have "race_work r2 \<le> length evs"
      by simp
    with Running Cons race_step_inv show ?thesis by simp
  qed auto
qed

lemma race_start_work: "as \<noteq> [] \<Longrightarrow> race_work (race_start as) = 2 * length as - 1"
  by (cases as) (simp_all add: race_work_def race_start_def spawn_next_def)

text \<open>The fast path for one address is the race over that address.\<close>

lemma direct_connect_race:
  assumes "\<forall>i. Joined i TaskFailed \<notin> set evs"
  shows "direct_connect a evs =
    (case race_connect [a] evs of Done res \<Rightarrow> res | Running _ \<Rightarrow> Inl connect_timeout)"
proof -
  let ?r = "\<lparr>started = [a], running = {0}, waiting = [], last_error = None\<rparr>"
  have start: "race_start [a] = ?r"
    by (simp add: race_start_def spawn_next_def)
  have "direct_connect a evs =
    (case race_run (Running ?r) evs of Done res \<Rightarrow> res | Running _ \<Rightarrow> Inl connect_timeout)"
    using assms
  proof (induction evs)
    case (Cons ev evs)
    then show ?case
      by (auto simp: race_step_def attempt_failed_def race_check_def race_over_def race_error_def
          spawn_next_def split: event.splits attempt.splits nat.splits)
  qed simp
  moreover have "race_check ?r = Running ?r"
    by (simp add: race_check_def race_over_def)
  ultimately show ?thesis
    by (simp add: race_connect_def start)
qed

section \<open>Properties\<close>

text \<open>The candidates are a rearrangement of the addresses that keeps each family in the
  resolver's order and alternates, IPv6 first, for as long as both families last.\<close>

theorem interleaving_fair:
  "mset (interleave_addresses as) = mset as \<and>
   filter (\<lambda>a. is_ipv4 (sock_ip a)) (interleave_addresses as) = filter (\<lambda>a. is_ipv4 (sock_ip a)) as \<and>
   filter (\<lambda>a. \<not> is_ipv4 (sock_ip a)) (interleave_addresses as) =
     filter (\<lambda>a. \<not> is_ipv4 (sock_ip a)) as \<and>
   (let v4 = filter (\<lambda>a. is_ipv4 (sock_ip a)) as; v6 = filter (\<lambda>a. \<not> is_ipv4 (sock_ip a)) as in
    \<forall>i < min (length v4) (length v6).
      interleave_addresses as ! (2 * i) = v6 ! i \<and> interleave_addresses as ! (2 * i + 1) = v4 ! i)"
proof (intro conjI)
  show "let v4 = filter (\<lambda>a. is_ipv4 (sock_ip a)) as; v6 = filter (\<lambda>a. \<not> is_ipv4 (sock_ip a)) as in
    \<forall>i < min (length v4) (length v6).
      interleave_addresses as ! (2 * i) = v6 ! i \<and> interleave_addresses as ! (2 * i + 1) = v4 ! i"
    unfolding Let_def interleave_addresses_def using interleave_nth by auto
qed (rule mset_interleave_addresses interleave_addresses_filter)+

theorem interleaving_fair_witness:
  "let as = [SockV4 1 80, SockV4 2 80, SockV6 3 80 0 0] in
   mset (interleave_addresses as) = mset as \<and>
   filter (\<lambda>a. is_ipv4 (sock_ip a)) (interleave_addresses as) = filter (\<lambda>a. is_ipv4 (sock_ip a)) as \<and>
   filter (\<lambda>a. \<not> is_ipv4 (sock_ip a)) (interleave_addresses as) =
     filter (\<lambda>a. \<not> is_ipv4 (sock_ip a)) as \<and>
   interleave_addresses as ! 0 = SockV6 3 80 0 0 \<and> interleave_addresses as ! 1 = SockV4 1 80"
  using interleaving_fair [of "[SockV4 1 80, SockV4 2 80, SockV6 3 80 0 0]"]
  by (auto simp: Let_def)

lemma race_outcome:
  assumes "length as \<ge> 2" and "happy_eyeballs_connect as evs = res"
  shows "(\<exists>i. Joined i Connected \<in> set evs \<and> i < length as \<and> res = Inr (interleave_addresses as ! i)) \<or>
    (\<exists>i e r. (Joined i (Refused e) \<in> set evs \<or> Joined i TaskFailed \<in> set evs \<and> e = task_error) \<and>
       res = Inl e \<and> race_inv (interleave_addresses as) r \<and> running r = {i} \<and>
       started r = interleave_addresses as) \<or>
    res = Inl connect_timeout"
proof -
  obtain a b rest where as: "as = a # b # rest"
    using assms(1) by (cases as rule: list.exhaust; cases "tl as") auto
  let ?cs = "interleave_addresses as"
  have ne: "?cs \<noteq> []" using as by simp
  have run: "race_connect ?cs evs = race_run (Running (race_start ?cs)) evs"
    using race_start_check [OF ne] by (simp add: race_connect_def)
  show ?thesis
  proof (cases "race_connect ?cs evs")
    case (Running r)
    then show ?thesis
      using assms(2) by (simp add: happy_eyeballs_connect_def as)
  next
    case (Done res')
    then have res: "res = res'"
      using assms(2) by (simp add: happy_eyeballs_connect_def as)
    obtain r ev where r: "ev \<in> set evs" "race_inv ?cs r" "race_step r ev = Done res"
      using race_run_ends [of "race_start ?cs" evs res ?cs] race_start_inv [OF ne] Done run res
      by auto
    from race_step_Done [OF r(3,2)] show ?thesis
      using r(1,2) by auto
  qed
qed

text \<open>So a connection is one of the addresses.\<close>

lemma direct_connect_Inr: "direct_connect a evs = Inr b \<Longrightarrow> b = a"
  by (induction a evs rule: direct_connect.induct) (auto split: event.splits attempt.splits nat.splits)

lemma connected_in_addresses:
  assumes "happy_eyeballs_connect as evs = Inr a"
  shows "a \<in> set as"
proof (cases "length as \<ge> 2")
  case True
  from race_outcome [OF this assms] show ?thesis
    using mset_interleave_addresses [of as] by (auto dest!: arg_cong [of _ _ set_mset])
next
  case False
  then consider "as = []" | b where "as = [b]"
    by (cases as rule: list.exhaust; cases "tl as") auto
  then show ?thesis
    using assms by cases (auto simp: happy_eyeballs_connect_def dest: direct_connect_Inr)
qed

text \<open>
  What the events alone say: which attempts have failed, and whether one has connected.
\<close>

definition fails_with :: "event \<Rightarrow> nat \<Rightarrow> io_error \<Rightarrow> bool" where
  "fails_with ev i e \<longleftrightarrow> ev = Joined i (Refused e) \<or> ev = Joined i TaskFailed \<and> e = task_error"

definition failed_attempts :: "event list \<Rightarrow> nat set" where
  "failed_attempts evs = {i. \<exists>ev \<in> set evs. \<exists>e. fails_with ev i e}"

definition no_connection :: "event list \<Rightarrow> bool" where
  "no_connection evs \<longleftrightarrow> (\<forall>i. Joined i Connected \<notin> set evs)"

lemma failed_attempts_simps [simp]:
  "failed_attempts [] = {}"
  "failed_attempts (ev # evs) = {i. \<exists>e. fails_with ev i e} \<union> failed_attempts evs"
  "failed_attempts (evs @ evs') = failed_attempts evs \<union> failed_attempts evs'"
  by (auto simp: failed_attempts_def)

lemma no_connection_simps [simp]:
  "no_connection []" "no_connection (ev # evs) \<longleftrightarrow> (\<forall>i. ev \<noteq> Joined i Connected) \<and> no_connection evs"
  by (auto simp: no_connection_def)

lemma fails_with_simps [simp]:
  "fails_with (Joined j (Refused x)) i e \<longleftrightarrow> i = j \<and> e = x"
  "fails_with (Joined j TaskFailed) i e \<longleftrightarrow> i = j \<and> e = task_error"
  "\<not> fails_with (Joined j Connected) i e" "\<not> fails_with Delay i e"
  by (auto simp: fails_with_def)

text \<open>The attempts that were started and do not run any more have failed.\<close>

definition tried :: "race \<Rightarrow> nat set" where
  "tried r = {..<length (started r)} - running r"

lemma tried_incomplete:
  assumes "race_inv as r"
  shows "\<not> {..<length as} \<subseteq> tried r"
proof -
  obtain i where i: "i \<in> running r" "i < length (started r)"
    using assms by (auto simp: race_inv_def)
  then have "i < length as"
    using assms by (auto simp: race_inv_def)
  then show ?thesis
    using i by (auto simp: tried_def)
qed

lemma race_start_tried: "as \<noteq> [] \<Longrightarrow> tried (race_start as) = {}"
  by (cases as) (auto simp: tried_def race_start_def spawn_next_def)

lemma spawn_next_tried: "tried (spawn_next r) = tried r"
  by (auto simp: tried_def spawn_next_def split: list.splits)

lemma attempt_failed_tried:
  assumes "attempt_failed r i e = Running r'" "race_inv as r" "i \<in> running r"
  shows "tried r' = insert i (tried r)"
proof -
  let ?r = "r\<lparr>running := running r - {i}, last_error := Some e\<rparr>"
  have "r' = spawn_next ?r"
    using assms(1) by (simp add: attempt_failed_def race_check_def split: if_splits)
  then have "tried r' = tried ?r"
    by (simp only: spawn_next_tried)
  then show ?thesis
    using assms(2,3) by (auto simp: tried_def race_inv_def)
qed

lemma race_step_tried:
  assumes "race_step r ev = Running r'" "race_inv as r" "enabled r ev"
  shows "tried r' = tried r \<union> failed_attempts [ev] \<and> no_connection [ev]"
proof (cases ev)
  case (Joined i result)
  then show ?thesis
    using assms attempt_failed_tried [OF _ assms(2), of i]
    by (cases result) (auto simp: race_step_def enabled_def)
qed (use assms spawn_next_tried [of r] in \<open>auto simp: race_step_def enabled_def\<close>)

text \<open>A race is decided by the first connection, or by the failure that leaves no address.\<close>

definition decided_by :: "socket_addr list \<Rightarrow> nat set \<Rightarrow> event list \<Rightarrow> verdict \<Rightarrow> bool" where
  "decided_by as failed evs v \<longleftrightarrow>
     (case v of
        Running r \<Rightarrow> no_connection evs \<and> \<not> {..<length as} \<subseteq> failed \<union> failed_attempts evs
      | Done (Inr a) \<Rightarrow>
          (\<exists>before i after. evs = before @ Joined i Connected # after \<and> no_connection before \<and> i < length as \<and>
             i \<notin> failed \<union> failed_attempts before \<and> a = as ! i)
      | Done (Inl e) \<Rightarrow>
          (\<exists>before ev i after. evs = before @ ev # after \<and> no_connection before \<and> fails_with ev i e \<and>
             \<not> {..<length as} \<subseteq> failed \<union> failed_attempts before \<and>
             failed \<union> failed_attempts (before @ [ev]) = {..<length as}))"

lemma decided_by_connection:
  assumes "no_connection before" "i < length as" "i \<notin> failed \<union> failed_attempts before"
  shows "decided_by as failed (before @ Joined i Connected # after) (Done (Inr (as ! i)))"
  using assms unfolding decided_by_def by auto

lemma decided_by_failure:
  assumes "no_connection before" "fails_with ev i e" "\<not> {..<length as} \<subseteq> failed \<union> failed_attempts before"
    and "failed \<union> failed_attempts (before @ [ev]) = {..<length as}"
  shows "decided_by as failed (before @ ev # after) (Done (Inl e))"
  using assms unfolding decided_by_def by (simp only: verdict.case sum.case) blast

lemma decided_by_later:
  assumes "decided_by as (failed \<union> failed_attempts [ev]) evs v" "no_connection [ev]"
  shows "decided_by as failed (ev # evs) v"
proof (cases v)
  case (Running r)
  then show ?thesis
    using assms by (auto simp: decided_by_def)
next
  case (Done res)
  show ?thesis
  proof (cases res)
    case (Inr a)
    obtain before i after where b: "evs = before @ Joined i Connected # after" "no_connection before" "i < length as"
      "i \<notin> failed \<union> failed_attempts (ev # before)" "a = as ! i"
      using assms(1) unfolding Done Inr decided_by_def by auto
    have "decided_by as failed ((ev # before) @ Joined i Connected # after) (Done (Inr (as ! i)))"
      by (rule decided_by_connection) (use b assms(2) in auto)
    then show ?thesis
      by (simp add: Done Inr b(1,5))
  next
    case (Inl e)
    define now where "now = failed \<union> failed_attempts [ev]"
    have app: "failed \<union> failed_attempts (ev # xs) = now \<union> failed_attempts xs" for xs
      by (auto simp: now_def)
    obtain before x i after where b: "evs = before @ x # after" "no_connection before" "fails_with x i e"
      "\<not> {..<length as} \<subseteq> now \<union> failed_attempts before" "now \<union> failed_attempts (before @ [x]) = {..<length as}"
      using assms(1) unfolding Done Inl decided_by_def now_def [symmetric] by (simp only: verdict.case sum.case) blast
    have "decided_by as failed ((ev # before) @ x # after) (Done (Inl e))"
    proof (rule decided_by_failure [OF _ b(3)])
      show "no_connection (ev # before)"
        using b(2) assms(2) by simp
      show "\<not> {..<length as} \<subseteq> failed \<union> failed_attempts (ev # before)"
        "failed \<union> failed_attempts ((ev # before) @ [x]) = {..<length as}"
        unfolding append_Cons app by (rule b(4,5))+
    qed
    then show ?thesis
      by (simp add: Done Inl b(1))
  qed
qed

lemma race_run_decided:
  assumes "race_inv as r" "all_enabled (Running r) evs"
  shows "decided_by as (tried r) evs (race_run (Running r) evs)"
  using assms
proof (induction evs arbitrary: r)
  case Nil
  then show ?case
    using tried_incomplete by (simp add: decided_by_def)
next
  case (Cons ev evs)
  note en = Cons.prems(2)
  show ?case
  proof (cases "race_step r ev")
    case (Running r2)
    have "decided_by as (tried r2) evs (race_run (Running r2) evs)"
      using Cons.IH [OF race_step_inv [OF Cons.prems(1) Running]] en Running by simp
    then show ?thesis
      using decided_by_later [of as "tried r" ev] race_step_tried [OF Running Cons.prems(1)] en Running by simp
  next
    case (Done res)
    from race_step_Done [OF Done Cons.prems(1), folded fails_with_def] show ?thesis
    proof (elim disjE exE conjE)
      fix i assume i: "ev = Joined i Connected" "i < length as" "res = Inr (as ! i)"
      then have "i \<notin> tried r"
        using en by (simp add: enabled_def tried_def)
      then show ?thesis
        using decided_by_connection [of "[]" i as "tried r" evs] i Done by simp
    next
      fix i e assume i: "fails_with ev i e" "res = Inl e" "running r = {i}" "started r = as"
      then have f: "fails_with ev i e" "i < length as"
        using Cons.prems(1) by (auto simp: race_inv_def)
      moreover have "failed_attempts [ev] = {i}"
        using i(1) by (auto simp: fails_with_def)
      then have "tried r \<union> failed_attempts ([] @ [ev]) = {..<length as}"
        using i(3,4) f(2) by (auto simp: tried_def)
      ultimately show ?thesis
        using decided_by_failure [of "[]" ev i e as "tried r" evs] tried_incomplete [OF Cons.prems(1)] i(2) Done by simp
    qed
  qed
qed

text \<open>C34: The race tries every address. On events that can happen when they do, over two addresses or
  more: the result is a connection if and only if some attempt connects before all have
  failed, and then it is the address of the first attempt that does; it is an attempt's error only
  when that attempt was the last of all addresses to fail, none having connected before; and
  otherwise, with no connection and an address left that has not failed, it is the timeout.\<close>

theorem race_outcome_sound:
  assumes "length as \<ge> 2" and "all_enabled (Running (race_start (interleave_addresses as))) evs"
    and "happy_eyeballs_connect as evs = res"
  shows "(\<exists>before i after. evs = before @ Joined i Connected # after \<and> no_connection before \<and> i < length as \<and>
       i \<notin> failed_attempts before \<and> res = Inr (interleave_addresses as ! i)) \<or>
    (\<exists>before ev i e after. evs = before @ ev # after \<and> no_connection before \<and> fails_with ev i e \<and>
       \<not> {..<length as} \<subseteq> failed_attempts before \<and> failed_attempts (before @ [ev]) = {..<length as} \<and> res = Inl e) \<or>
    no_connection evs \<and> \<not> {..<length as} \<subseteq> failed_attempts evs \<and> res = Inl connect_timeout"
proof -
  obtain a b rest where as: "as = a # b # rest"
    using assms(1) by (cases as rule: list.exhaust; cases "tl as") auto
  let ?cs = "interleave_addresses as"
  have ne: "?cs \<noteq> []" using as by simp
  have run: "race_connect ?cs evs = race_run (Running (race_start ?cs)) evs"
    using race_start_check [OF ne] by (simp add: race_connect_def)
  note none = race_start_tried [OF ne]
  have d: "decided_by ?cs {} evs (race_connect ?cs evs)"
    using race_run_decided [OF race_start_inv [OF ne] assms(2)] by (simp add: run none)
  have res: "res = (case race_connect ?cs evs of Done res \<Rightarrow> res | Running _ \<Rightarrow> Inl connect_timeout)"
    using assms(3) by (simp add: happy_eyeballs_connect_def as)
  show ?thesis
    using d unfolding res decided_by_def by (auto split: verdict.splits sum.splits)
qed

text \<open>A failure before the last one makes no difference; the last one does.\<close>

theorem race_outcome_sound_witness:
  "(\<exists>before i after. [Joined 0 TaskFailed, Joined 1 Connected] = before @ Joined i Connected # after \<and>
      no_connection before \<and> i < length [SockV4 1 80, SockV4 2 80] \<and> i \<notin> failed_attempts before \<and>
      (Inr (SockV4 2 80) :: io_error + socket_addr) = Inr (interleave_addresses [SockV4 1 80, SockV4 2 80] ! i)) \<and>
   failed_attempts ([Joined 0 TaskFailed] @ [Joined 1 (Refused eof_error)]) = {..<length [SockV4 1 80, SockV4 2 80]}"
proof -
  have i: "interleave_addresses [SockV4 1 80, SockV4 2 80] = [SockV4 1 80, SockV4 2 80]"
    by (simp add: interleave_addresses_def)
  have "happy_eyeballs_connect [SockV4 1 80, SockV4 2 80] [Joined 0 TaskFailed, Joined 1 Connected] =
      Inr (SockV4 2 80)"
    by (simp add: happy_eyeballs_connect_def race_connect_def race_start_def spawn_next_def attempt_failed_def
        race_check_def race_over_def race_step_def i)
  moreover have "all_enabled (Running (race_start (interleave_addresses [SockV4 1 80, SockV4 2 80])))
      [Joined 0 TaskFailed, Joined 1 Connected]"
    by (simp add: i race_start_def spawn_next_def race_step_def enabled_def attempt_failed_def race_check_def race_over_def)
  ultimately show ?thesis
    using race_outcome_sound [of "[SockV4 1 80, SockV4 2 80]" "[Joined 0 TaskFailed, Joined 1 Connected]"]
    by (auto simp: lessThan_Suc)
qed

text \<open>C35: A race makes progress and ends: over \<open>n\<close> addresses, any \<open>2 n - 1\<close> events that can happen
  when they do decide it. No order of successes, failures and delays keeps the loop going.\<close>

theorem race_terminates:
  assumes "as \<noteq> []" and "all_enabled (Running (race_start as)) evs" and "2 * length as - 1 \<le> length evs"
  shows "\<exists>res. race_connect as evs = Done res"
  using race_run_finishes [OF race_start_inv [OF assms(1)] assms(2)] race_start_work [OF assms(1)]
    race_start_check [OF assms(1)] assms(3)
  by (simp add: race_connect_def)

theorem race_terminates_witness:
  "\<exists>res. race_connect [SockV4 1 80, SockV4 2 80]
     [Delay, Joined 1 TaskFailed, Joined 0 (Refused eof_error)] = Done res"
  by (rule race_terminates)
    (simp_all add: race_start_def spawn_next_def race_step_def enabled_def attempt_failed_def
      race_check_def race_over_def)

text \<open>The fast path for a single address returns what the race over that address would.\<close>

theorem fast_path_is_race:
  assumes "\<forall>i. Joined i TaskFailed \<notin> set evs"
  shows "happy_eyeballs_connect [a] evs =
    (case race_connect (interleave_addresses [a]) evs of Done res \<Rightarrow> res | Running _ \<Rightarrow> Inl connect_timeout)"
proof -
  have "interleave_addresses [a] = [a]"
    by (simp add: interleave_addresses_def)
  then show ?thesis
    using direct_connect_race [OF assms] by (simp add: happy_eyeballs_connect_def)
qed

theorem fast_path_is_race_witness:
  "happy_eyeballs_connect [SockV4 1 80] [Joined 0 Connected] =
    (case race_connect (interleave_addresses [SockV4 1 80]) [Joined 0 Connected] of
       Done res \<Rightarrow> res | Running _ \<Rightarrow> Inl connect_timeout)"
  by (rule fast_path_is_race) simp

end
