(* ===== verification/Tcp_Relay.thy ===== *)
theory Tcp_Relay
  imports Server_Handshake Happy_Eyeballs Dns
begin

text \<open>
  The TCP half of \<open>src/server.rs\<close>: \<open>connect\<close>, \<open>forward_bidirectional\<close> and
  \<open>copy_direction\<close>.

  A direction is a state machine between two streams. Its steps are the completions of the
  operation it awaits: a read, one write of \<open>write_all\<close>, the shutdown of the writer. What was
  taken from the reader and what the writer has accepted are part of the state. The transfer
  interleaves two directions with the timer of the idle timeout.
\<close>

section \<open>One direction\<close>

definition COPY_BUFFER_SIZE :: nat where "COPY_BUFFER_SIZE = 65536"

datatype copy_stage =
    Reading
  | Writing nat "u8 list"      \<comment> \<open>the length of the chunk, and what is left of it\<close>
  | Closing
  | Copied "io_error + u64"

record direction =
  d_stage :: copy_stage
  d_total :: u64
  d_read :: "u8 list"
  d_written :: "u8 list"
  d_closed :: bool

datatype copy_event =
    Read_done "io_error + u8 list"
  | Write_done "io_error + nat"
  | Shutdown_done "io_error + unit"

definition direction_start :: direction where
  "direction_start = \<lparr>d_stage = Reading, d_total = 0, d_read = [], d_written = [], d_closed = False\<rparr>"

text \<open>\<open>write_all\<close> fails with \<open>WriteZero\<close> when the stream accepts nothing.\<close>

definition write_zero :: io_error where "write_zero = IoError WriteZero OsError"

text \<open>The second result says whether \<open>activity\<close> is updated. Other events are not awaited.\<close>

definition copy_step :: "copy_event \<Rightarrow> direction \<Rightarrow> direction \<times> bool" where
  "copy_step ev d =
     (case (d_stage d, ev) of
        (Reading, Read_done (Inl e)) \<Rightarrow> (d\<lparr>d_stage := Copied (Inl e)\<rparr>, False)
      | (Reading, Read_done (Inr available)) \<Rightarrow>
          (let chunk = take COPY_BUFFER_SIZE available in
           if chunk = [] then (d\<lparr>d_stage := Closing\<rparr>, False)
           else (d\<lparr>d_stage := Writing (length chunk) chunk, d_read := d_read d @ chunk\<rparr>, False))
      | (Writing n rest, Write_done (Inl e)) \<Rightarrow> (d\<lparr>d_stage := Copied (Inl e)\<rparr>, False)
      | (Writing n rest, Write_done (Inr k)) \<Rightarrow>
          if k = 0 then (d\<lparr>d_stage := Copied (Inl write_zero)\<rparr>, False)
          else if k < length rest
          then (d\<lparr>d_stage := Writing n (drop k rest), d_written := d_written d @ take k rest\<rparr>, False)
          else (d\<lparr>d_stage := Reading, d_written := d_written d @ rest,
                  d_total := d_total d + word_of_nat n\<rparr>, True)
      | (Closing, Shutdown_done (Inl e)) \<Rightarrow> (d\<lparr>d_stage := Copied (Inl e)\<rparr>, False)
      | (Closing, Shutdown_done (Inr _)) \<Rightarrow>
          (d\<lparr>d_stage := Copied (Inr (d_total d)), d_closed := True\<rparr>, False)
      | _ \<Rightarrow> (d, False))"

section \<open>Both directions and the idle timeout\<close>

text \<open>
  \<open>last_active\<close> is the value of the \<open>watch\<close> channel and \<open>unseen\<close> its changed flag;
  \<open>deadline\<close> is what the loop computed on its last turn. Times are in the unit of the
  timeout; an instant after \<open>max_instant\<close> cannot be represented and the addition panics.
\<close>

record transfer =
  upward :: direction
  downward :: direction
  last_active :: nat
  unseen :: bool
  deadline :: nat

datatype forwarding = Forwarding transfer | Forwarded "io_error + unit" transfer | Forward_panic

datatype forward_event = Upward copy_event | Downward copy_event | Timer | Changed

definition idle_error :: io_error where
  "idle_error = IoError TimedOut (Message TcpIdleTimeout)"

text \<open>The top of the loop.\<close>

definition loop_top :: "nat \<Rightarrow> nat \<Rightarrow> transfer \<Rightarrow> forwarding" where
  "loop_top max_instant idle t =
     (if last_active t + idle > max_instant then Forward_panic
      else Forwarding (t\<lparr>unseen := False, deadline := last_active t + idle\<rparr>))"

definition forward_start :: "nat \<Rightarrow> nat \<Rightarrow> nat \<Rightarrow> forwarding" where
  "forward_start max_instant idle now =
     loop_top max_instant idle
       \<lparr>upward = direction_start, downward = direction_start, last_active = now,
        unseen = False, deadline = 0\<rparr>"

text \<open>\<open>try_join!\<close>: the first error, or success when both are done.\<close>

definition join_result :: "transfer \<Rightarrow> (io_error + unit) option" where
  "join_result t =
     (case (d_stage (upward t), d_stage (downward t)) of
        (Copied (Inl e), _) \<Rightarrow> Some (Inl e)
      | (_, Copied (Inl e)) \<Rightarrow> Some (Inl e)
      | (Copied (Inr _), Copied (Inr _)) \<Rightarrow> Some (Inr ())
      | _ \<Rightarrow> None)"

definition after_copy :: "nat \<Rightarrow> bool \<Rightarrow> transfer \<Rightarrow> forwarding" where
  "after_copy now active t =
     (let t = (if active then t\<lparr>last_active := now, unseen := True\<rparr> else t) in
      case join_result t of Some r \<Rightarrow> Forwarded r t | None \<Rightarrow> Forwarding t)"

text \<open>
  One completion of the \<open>select!\<close>: progress of a direction, the timer (at or after the
  deadline), or the news of an activity. The sender of the channel outlives the loop, so
  \<open>changed\<close> never fails.
\<close>

definition forward_step :: "nat \<Rightarrow> nat \<Rightarrow> nat \<Rightarrow> forward_event \<Rightarrow> transfer \<Rightarrow> forwarding" where
  "forward_step max_instant idle now ev t =
     (case ev of
        Upward e \<Rightarrow> (case copy_step e (upward t) of
          (d, active) \<Rightarrow> after_copy now active (t\<lparr>upward := d\<rparr>))
      | Downward e \<Rightarrow> (case copy_step e (downward t) of
          (d, active) \<Rightarrow> after_copy now active (t\<lparr>downward := d\<rparr>))
      | Timer \<Rightarrow>
          if now < deadline t then Forwarding t
          else if now - last_active t \<ge> idle then Forwarded (Inl idle_error) t
          else loop_top max_instant idle t
      | Changed \<Rightarrow> if unseen t then loop_top max_instant idle t else Forwarding t)"

fun forward_run :: "nat \<Rightarrow> nat \<Rightarrow> forwarding \<Rightarrow> (nat \<times> forward_event) list \<Rightarrow> forwarding" where
  "forward_run mx idle v [] = v"
| "forward_run mx idle (Forwarding t) ((now, ev) # evs) =
     forward_run mx idle (forward_step mx idle now ev t) evs"
| "forward_run mx idle (Forwarded r t) evs = Forwarded r t"
| "forward_run mx idle Forward_panic evs = Forward_panic"

text \<open>
  Without a timeout the library's \<open>copy_bidirectional\<close> does the work: the argument
  \<open>copy_both\<close> is its result. The result is \<open>None\<close> while the transfer still runs, and a
  panic ends the task without a result.
\<close>

definition forward_bidirectional ::
  "(io_error + nat \<times> nat) option \<Rightarrow> nat \<Rightarrow> nat option \<Rightarrow> nat \<Rightarrow> (nat \<times> forward_event) list \<Rightarrow>
     (io_error + unit) option" where
  "forward_bidirectional copy_both max_instant timeout now evs =
     (case timeout of
        None \<Rightarrow> map_option (\<lambda>r. case r of Inl e \<Rightarrow> Inl e | Inr _ \<Rightarrow> Inr ()) copy_both
      | Some idle \<Rightarrow>
          (case forward_run max_instant idle (forward_start max_instant idle now) evs of
             Forwarded r t \<Rightarrow> Some r
           | _ \<Rightarrow> None))"

section \<open>Connecting\<close>

text \<open>
  \<open>connect\<close> up to the forwarding: the lookup, the race and the reply. The resolver, the
  events of the race and the results of \<open>set_nodelay\<close> and \<open>local_addr\<close> on the remote
  stream are arguments. The result is the address that was connected to.
\<close>

definition connect_status :: "io_error \<Rightarrow> u8" where
  "connect_status error =
     (if error_kind error = ConnectionRefused then CONNECTION_REFUSED else HOST_UNREACHABLE)"

definition server_connect ::
  "(string \<Rightarrow> net_error + ip_addr list) \<Rightarrow> event list \<Rightarrow> io_error + unit \<Rightarrow> io_error + socket_addr \<Rightarrow>
     target \<Rightarrow> socket_addr io" where
  "server_connect lookup_ip evs remote_nodelay remote_local target =
     io_bind local_addr (\<lambda>local.
     let address = unspecified (sock_ip local) in
     case dns_lookup lookup_ip target of
       Inl error \<Rightarrow>
         io_bind (write_reply_async HOST_UNREACHABLE address) (\<lambda>_. io_raise error)
     | Inr addresses \<Rightarrow>
         (case happy_eyeballs_connect addresses evs of
            Inl error \<Rightarrow>
              io_bind (write_reply_async (connect_status error) address) (\<lambda>_. io_raise error)
          | Inr remote \<Rightarrow>
              io_bind (io_lift remote_nodelay) (\<lambda>_.
              io_bind (io_lift remote_local) (\<lambda>bound.
              io_bind (write_reply_async SUCCESS bound) (\<lambda>_. io_return remote)))))"

text \<open>
  The whole of \<open>connect\<close>: \<open>None\<close> is a task that still runs (or has panicked). The shutdown
  ends it at any time, with success; \<open>now\<close> is the time at which the forwarding starts.
\<close>

definition run_connect ::
  "bool \<Rightarrow> (string \<Rightarrow> net_error + ip_addr list) \<Rightarrow> event list \<Rightarrow> io_error + unit \<Rightarrow>
     io_error + socket_addr \<Rightarrow> (io_error + nat \<times> nat) option \<Rightarrow> nat \<Rightarrow> nat option \<Rightarrow> nat \<Rightarrow>
     (nat \<times> forward_event) list \<Rightarrow> target \<Rightarrow> conn \<Rightarrow> (io_error + unit) option" where
  "run_connect cancelled lookup_ip evs remote_nodelay remote_local copy_both max_instant timeout now
     transfer_evs target client =
     (if cancelled then Some (Inr ())
      else
        (case fst (server_connect lookup_ip evs remote_nodelay remote_local target client) of
           Return remote \<Rightarrow> forward_bidirectional copy_both max_instant timeout now transfer_evs
         | Raise error \<Rightarrow> Some (Inl error)
         | Pending \<Rightarrow> None))"

section \<open>What a direction keeps\<close>

text \<open>
  Nothing is lost, made up or reordered: what was written and what waits to be written is
  what was read. A direction that has ended well has written everything and closed the
  writer after the end of the reader.
\<close>

definition direction_inv :: "direction \<Rightarrow> bool" where
  "direction_inv d \<longleftrightarrow>
     (case d_stage d of
        Reading \<Rightarrow> d_read d = d_written d \<and> \<not> d_closed d \<and> d_total d = word_of_nat (length (d_read d))
      | Writing n rest \<Rightarrow> d_read d = d_written d @ rest \<and> rest \<noteq> [] \<and> \<not> d_closed d \<and>
          length rest \<le> n \<and> d_total d + word_of_nat n = word_of_nat (length (d_read d))
      | Closing \<Rightarrow> d_read d = d_written d \<and> \<not> d_closed d \<and> d_total d = word_of_nat (length (d_read d))
      | Copied (Inl e) \<Rightarrow> (\<exists>rest. d_read d = d_written d @ rest) \<and> \<not> d_closed d
      | Copied (Inr sum_total) \<Rightarrow> d_read d = d_written d \<and> d_closed d \<and>
          sum_total = word_of_nat (length (d_read d)))"

lemma direction_start_inv: "direction_inv direction_start"
  by (simp add: direction_inv_def direction_start_def)

lemma copy_step_inv:
  assumes "direction_inv d"
  shows "direction_inv (fst (copy_step ev d))"
proof (cases "d_stage d")
  case Reading
  then show ?thesis
    using assms by (cases ev) (auto simp: copy_step_def direction_inv_def Let_def split: sum.splits)
next
  case (Writing n rest)
  show ?thesis
  proof (cases ev)
    case (Write_done r)
    show ?thesis
    proof (cases r)
      case (Inr k)
      have "rest = take k rest @ drop k rest" by simp
      then show ?thesis
        using assms Writing Write_done Inr by (auto simp: copy_step_def direction_inv_def)
    qed (use assms Writing Write_done in \<open>simp add: copy_step_def direction_inv_def\<close>)
  qed (use assms Writing in \<open>simp_all add: copy_step_def\<close>)
next
  case Closing
  then show ?thesis
    using assms by (cases ev) (auto simp: copy_step_def direction_inv_def split: sum.splits)
next
  case (Copied r)
  then show ?thesis
    using assms by (cases ev) (simp_all add: copy_step_def)
qed

section \<open>What the transfer keeps\<close>

definition transfer_inv :: "nat \<Rightarrow> nat \<Rightarrow> transfer \<Rightarrow> bool" where
  "transfer_inv idle now t \<longleftrightarrow>
     direction_inv (upward t) \<and> direction_inv (downward t) \<and>
     last_active t \<le> now \<and> deadline t \<le> last_active t + idle"

definition forwarding_inv :: "nat \<Rightarrow> nat \<Rightarrow> forwarding \<Rightarrow> bool" where
  "forwarding_inv idle now v \<longleftrightarrow>
     (case v of
        Forwarding t \<Rightarrow> transfer_inv idle now t
      | Forwarded r t \<Rightarrow> transfer_inv idle now t \<and> (r = Inl idle_error \<or> join_result t = Some r)
      | Forward_panic \<Rightarrow> True)"

lemma loop_top_inv: "transfer_inv idle now t \<Longrightarrow> forwarding_inv idle now (loop_top mx idle t)"
  by (simp add: loop_top_def forwarding_inv_def transfer_inv_def)

lemma after_copy_inv:
  assumes "transfer_inv idle now t"
  shows "forwarding_inv idle now (after_copy now active t)"
proof -
  have "transfer_inv idle now (if active then t\<lparr>last_active := now, unseen := True\<rparr> else t)"
    using assms by (simp add: transfer_inv_def)
  then show ?thesis
    by (auto simp: after_copy_def forwarding_inv_def Let_def split: option.split)
qed

lemma transfer_inv_later: "transfer_inv idle now t \<Longrightarrow> now \<le> later \<Longrightarrow> transfer_inv idle later t"
  by (simp add: transfer_inv_def)

lemma forward_step_inv:
  assumes "transfer_inv idle before t" "before \<le> now"
  shows "forwarding_inv idle now (forward_step mx idle now ev t)"
proof -
  note inv = transfer_inv_later [OF assms]
  have up: "transfer_inv idle now (t\<lparr>upward := fst (copy_step e (upward t))\<rparr>)"
    and down: "transfer_inv idle now (t\<lparr>downward := fst (copy_step e (downward t))\<rparr>)" for e
    using inv copy_step_inv by (simp_all add: transfer_inv_def)
  show ?thesis
  proof (cases ev)
    case (Upward e)
    then show ?thesis
      using after_copy_inv [OF up [of e]] by (simp add: forward_step_def split_beta)
  next
    case (Downward e)
    then show ?thesis
      using after_copy_inv [OF down [of e]] by (simp add: forward_step_def split_beta)
  next
    case Timer
    then show ?thesis
      using loop_top_inv [OF inv] inv by (simp add: forward_step_def forwarding_inv_def)
  next
    case Changed
    then show ?thesis
      using loop_top_inv [OF inv] inv by (simp add: forward_step_def forwarding_inv_def)
  qed
qed

lemma forward_run_over [simp]:
  "forward_run mx idle (Forwarded r t) evs = Forwarded r t"
  "forward_run mx idle Forward_panic evs = Forward_panic"
  by (cases evs; simp)+

lemma forward_run_inv:
  "forwarding_inv idle now v \<Longrightarrow> sorted (now # map fst evs) \<Longrightarrow>
     \<exists>later. forwarding_inv idle later (forward_run mx idle v evs) \<and>
       (\<forall>t. forward_run mx idle v evs = Forwarding t \<longrightarrow> later = last (now # map fst evs))"
proof (induction mx idle v evs arbitrary: now rule: forward_run.induct)
  case (2 mx idle t time ev evs)
  have "forwarding_inv idle time (forward_step mx idle time ev t)"
    using "2.prems" by (intro forward_step_inv) (auto simp: forwarding_inv_def)
  from "2.IH" [OF this] show ?case
    using "2.prems"(2) by simp
qed (auto simp: forwarding_inv_def)

lemma forward_start_inv: "forwarding_inv idle now (forward_start mx idle now)"
  unfolding forward_start_def
  by (rule loop_top_inv) (simp add: transfer_inv_def direction_start_inv)

lemma direction_inv_prefix: "direction_inv d \<Longrightarrow> prefix (d_written d) (d_read d)"
  by (cases "d_stage d")
    (auto simp: direction_inv_def prefix_def split: sum.splits)

lemma join_result_Ok:
  "join_result t = Some (Inr u) \<longleftrightarrow>
     (\<exists>m n. d_stage (upward t) = Copied (Inr m) \<and> d_stage (downward t) = Copied (Inr n))"
  by (auto simp: join_result_def split: copy_stage.splits sum.splits)

lemma idle_error_not_joined:
  "join_result t = Some (Inl e) \<Longrightarrow>
     d_stage (upward t) = Copied (Inl e) \<or> d_stage (downward t) = Copied (Inl e)"
  by (auto simp: join_result_def split: copy_stage.splits sum.splits)

section \<open>The transfer\<close>

text \<open>C12: The relay is transparent. Whatever the two streams and the timer do, in both directions
  the bytes written are a prefix of the bytes read, in order; and when the transfer ends
  well, every byte of both directions was delivered, the number is the total that
  \<open>copy_direction\<close> counted, and both writers were shut down after the end of their readers.\<close>

theorem transfer_transparent:
  assumes "forward_run mx idle (forward_start mx idle now) evs = v" and "sorted (now # map fst evs)"
    and "v = Forwarding t \<or> v = Forwarded r t"
  shows "prefix (d_written (upward t)) (d_read (upward t)) \<and>
    prefix (d_written (downward t)) (d_read (downward t)) \<and>
    (v = Forwarded (Inr ()) t \<longrightarrow>
       d_written (upward t) = d_read (upward t) \<and> d_closed (upward t) \<and>
       d_stage (upward t) = Copied (Inr (word_of_nat (length (d_read (upward t))))) \<and>
       d_written (downward t) = d_read (downward t) \<and> d_closed (downward t) \<and>
       d_stage (downward t) = Copied (Inr (word_of_nat (length (d_read (downward t))))))"
proof -
  obtain later where "forwarding_inv idle later v"
    using forward_run_inv [OF forward_start_inv assms(2)] assms(1) by metis
  then have inv: "transfer_inv idle later t"
    and joined: "v = Forwarded (Inr ()) t \<Longrightarrow> join_result t = Some (Inr ())"
    using assms(3) by (auto simp: forwarding_inv_def)
  show ?thesis
    using inv joined by (auto simp: transfer_inv_def direction_inv_prefix join_result_Ok direction_inv_def)
qed

definition demo_events :: "(nat \<times> forward_event) list" where
  "demo_events =
     [(1, Upward (Read_done (Inr [7, 8]))), (3, Upward (Write_done (Inr 1))), (4, Changed),
      (5, Upward (Write_done (Inr 1)))]"

definition demo_finish :: "(nat \<times> forward_event) list" where
  "demo_finish =
     [(6, Upward (Read_done (Inr []))), (7, Downward (Read_done (Inr []))),
      (8, Downward (Shutdown_done (Inr ()))), (9, Upward (Shutdown_done (Inr ())))]"

definition demo_direction :: "copy_stage \<Rightarrow> bool \<Rightarrow> u8 list \<Rightarrow> direction" where
  "demo_direction g closed bs =
     \<lparr>d_stage = g, d_total = word_of_nat (length bs), d_read = bs, d_written = bs, d_closed = closed\<rparr>"

definition demo_transfer :: transfer where
  "demo_transfer = \<lparr>upward = demo_direction Reading False [7, 8], downward = direction_start,
     last_active = 5, unseen = True, deadline = 10\<rparr>"

lemma demo_events_run: "forward_run 1000 10 (forward_start 1000 10 0) demo_events = Forwarding demo_transfer"
  by (simp add: demo_events_def forward_start_def loop_top_def forward_step_def copy_step_def after_copy_def
      join_result_def direction_start_def demo_transfer_def demo_direction_def Let_def COPY_BUFFER_SIZE_def)

definition demo_finished :: transfer where
  "demo_finished = demo_transfer
     \<lparr>upward := demo_direction (Copied (Inr 2)) True [7, 8],
      downward := demo_direction (Copied (Inr 0)) True []\<rparr>"

lemma demo_finish_run: "forward_run 1000 10 (Forwarding demo_transfer) demo_finish = Forwarded (Inr ()) demo_finished"
  by (simp add: demo_finish_def forward_step_def copy_step_def after_copy_def join_result_def
      direction_start_def demo_transfer_def demo_direction_def demo_finished_def Let_def COPY_BUFFER_SIZE_def)

lemma forward_run_append:
  "forward_run mx idle v (evs @ evs') = forward_run mx idle (forward_run mx idle v evs) evs'"
  by (induction mx idle v evs rule: forward_run.induct) simp_all

theorem transfer_transparent_witness:
  "prefix (d_written (upward demo_finished)) (d_read (upward demo_finished)) \<and>
    d_written (upward demo_finished) = d_read (upward demo_finished) \<and> d_closed (upward demo_finished) \<and>
    d_stage (upward demo_finished) = Copied (Inr (word_of_nat (length (d_read (upward demo_finished)))))"
proof -
  have "forward_run 1000 10 (forward_start 1000 10 0) (demo_events @ demo_finish) =
      Forwarded (Inr ()) demo_finished"
    by (simp add: forward_run_append demo_events_run demo_finish_run)
  from transfer_transparent [OF this] show ?thesis
    by (simp add: demo_events_def demo_finish_def)
qed

text \<open>
  Deliveries, told from the bytes alone: a step delivers when the writer has accepted more
  than before and nothing that was read is left.
\<close>

definition chunk_delivered :: "direction \<Rightarrow> direction \<Rightarrow> bool" where
  "chunk_delivered d d' \<longleftrightarrow> length (d_written d) < length (d_written d') \<and> d_written d' = d_read d'"

definition delivers :: "transfer \<Rightarrow> forwarding \<Rightarrow> bool" where
  "delivers t v \<longleftrightarrow>
     (case v of
        Forwarding t' \<Rightarrow> chunk_delivered (upward t) (upward t') \<or> chunk_delivered (downward t) (downward t')
      | Forwarded r t' \<Rightarrow> chunk_delivered (upward t) (upward t') \<or> chunk_delivered (downward t) (downward t')
      | Forward_panic \<Rightarrow> False)"

fun delivery_times :: "nat \<Rightarrow> nat \<Rightarrow> forwarding \<Rightarrow> (nat \<times> forward_event) list \<Rightarrow> nat list" where
  "delivery_times mx idle (Forwarding t) ((now, ev) # evs) =
     (if delivers t (forward_step mx idle now ev t) then [now] else []) @
     delivery_times mx idle (forward_step mx idle now ev t) evs"
| "delivery_times mx idle v evs = []"

text \<open>The code reports an activity exactly then.\<close>

lemma chunk_delivered_same [simp]: "\<not> chunk_delivered d d"
  by (simp add: chunk_delivered_def)

lemma copy_step_delivers:
  assumes "direction_inv d"
  shows "snd (copy_step ev d) \<longleftrightarrow> chunk_delivered d (fst (copy_step ev d))"
proof (cases "d_stage d")
  case (Writing n rest)
  then have "d_read d = d_written d @ rest" "rest \<noteq> []"
    using assms by (simp_all add: direction_inv_def)
  then show ?thesis
    by (cases ev) (auto simp: copy_step_def Writing chunk_delivered_def split: sum.splits)
qed (cases ev; auto simp: copy_step_def chunk_delivered_def Let_def split: sum.splits)+

lemma forward_step_active:
  assumes step: "forward_step mx idle now ev t = Forwarding t' \<or> forward_step mx idle now ev t = Forwarded r t'"
    and inv: "transfer_inv idle before t"
  shows "last_active t' = (if delivers t (forward_step mx idle now ev t) then now else last_active t)"
proof -
  have d: "direction_inv (upward t)" "direction_inv (downward t)"
    using inv by (simp_all add: transfer_inv_def)
  have copy: "last_active t' = (if active then now else last_active t) \<and> upward t' = upward u \<and> downward t' = downward u"
    if "after_copy now active u = Forwarding t' \<or> after_copy now active u = Forwarded r t'" "last_active u = last_active t"
    for active u
    using that by (auto simp: after_copy_def Let_def split: option.splits if_splits)
  show ?thesis
  proof (cases ev)
    case (Upward e)
    then show ?thesis
      using step copy [of "snd (copy_step e (upward t))" "t\<lparr>upward := fst (copy_step e (upward t))\<rparr>"]
        copy_step_delivers [OF d(1), of e]
      by (auto simp: forward_step_def delivers_def split_beta)
  next
    case (Downward e)
    then show ?thesis
      using step copy [of "snd (copy_step e (downward t))" "t\<lparr>downward := fst (copy_step e (downward t))\<rparr>"]
        copy_step_delivers [OF d(2), of e]
      by (auto simp: forward_step_def delivers_def split_beta)
  qed (use step in \<open>auto simp: forward_step_def delivers_def loop_top_def split: if_splits\<close>)
qed

lemma last_active_run:
  "forward_run mx idle (Forwarding t) evs = Forwarding t' \<Longrightarrow> transfer_inv idle before t \<Longrightarrow>
     sorted (before # map fst evs) \<Longrightarrow>
     last_active t' = last (last_active t # delivery_times mx idle (Forwarding t) evs)"
proof (induction evs arbitrary: t before)
  case (Cons e evs)
  obtain now ev where e: "e = (now, ev)" by (cases e)
  show ?case
  proof (cases "forward_step mx idle now ev t")
    case (Forwarding u)
    have "before \<le> now" using Cons.prems(3) by (simp add: e)
    then have "transfer_inv idle now u"
      using forward_step_inv [OF Cons.prems(2), of now mx ev] Forwarding by (simp add: forwarding_inv_def)
    then have "last_active t' = last (last_active u # delivery_times mx idle (Forwarding u) evs)"
      using Cons.IH [of u now] Cons.prems(1,3) Forwarding by (simp add: e)
    then show ?thesis
      using forward_step_active [OF disjI1 [OF Forwarding] Cons.prems(2)] Forwarding by (simp add: e)
  qed (use Cons.prems in \<open>simp_all add: e\<close>)
qed simp

text \<open>The state of a transfer that runs: when it was active last, and what its timer can be.\<close>

lemma forward_run_active:
  assumes "forward_run mx idle (forward_start mx idle now) evs = Forwarding t" and "sorted (now # map fst evs)"
  shows "last_active t = last (now # delivery_times mx idle (forward_start mx idle now) evs)"
    and "deadline t \<le> last_active t + idle" and "last_active t \<le> last (now # map fst evs)"
proof -
  obtain t0 where t0: "forward_start mx idle now = Forwarding t0" "last_active t0 = now"
    using assms(1) by (cases "now + idle > mx") (auto simp: forward_start_def loop_top_def)
  then have "transfer_inv idle now t0"
    using forward_start_inv [of idle now mx] by (simp add: forwarding_inv_def)
  then show "last_active t = last (now # delivery_times mx idle (forward_start mx idle now) evs)"
    using last_active_run [of mx idle t0 evs t now] assms t0 by simp
  obtain later where "forwarding_inv idle later (forward_run mx idle (forward_start mx idle now) evs)"
      "\<forall>t. forward_run mx idle (forward_start mx idle now) evs = Forwarding t \<longrightarrow>
         later = last (now # map fst evs)"
    using forward_run_inv [OF forward_start_inv assms(2)] by blast
  then show "deadline t \<le> last_active t + idle" "last_active t \<le> last (now # map fst evs)"
    unfolding assms(1) by (simp_all add: forwarding_inv_def transfer_inv_def)
qed

text \<open>C26: The idle timeout is exact. Let \<open>l\<close> be the time at which, in either direction, the bytes
  accepted by the writer last grew to all that had been read, or the start. When the timer
  fires, the connection is closed with \<open>TimedOut\<close> if and only if this was at least the whole
  timeout ago; and the timer is never set later than \<open>l\<close> plus the timeout, so an idle
  connection is closed then and one that delivers chunk after chunk is not.\<close>

theorem idle_timeout_exact:
  assumes "forward_run mx idle (forward_start mx idle now) evs = Forwarding t"
    and "sorted (now # map fst evs)" and "last (now # map fst evs) \<le> time"
    and "l = last (now # delivery_times mx idle (forward_start mx idle now) evs)"
  shows "deadline t \<le> l + idle \<and>
    (forward_step mx idle time Timer t = Forwarded (Inl idle_error) t \<longleftrightarrow> l + idle \<le> time) \<and>
    (time < l + idle \<and> l + idle \<le> mx \<longrightarrow>
       (\<exists>t'. forward_step mx idle time Timer t = Forwarding t' \<and>
          (deadline t \<le> time \<longrightarrow> deadline t' = l + idle)))"
proof -
  note run = forward_run_active [OF assms(1,2)]
  have l: "last_active t = l"
    using run(1) assms(4) by simp
  have "deadline t \<le> last_active t + idle" "last_active t \<le> time"
    using run(2,3) assms(3) by simp_all
  then show ?thesis
    unfolding l by (auto simp: forward_step_def loop_top_def l)
qed

lemma demo_events_sorted: "sorted (0 # map fst demo_events)" "last (0 # map fst demo_events) \<le> 15"
  by (simp_all add: demo_events_def)

lemma demo_delivery_times: "delivery_times 1000 10 (forward_start 1000 10 0) demo_events = [5]"
  by (simp add: demo_events_def forward_start_def loop_top_def forward_step_def copy_step_def after_copy_def
      join_result_def direction_start_def Let_def delivers_def chunk_delivered_def COPY_BUFFER_SIZE_def)

theorem idle_timeout_exact_witness:
  "deadline demo_transfer \<le> 5 + 10 \<and>
    (forward_step 1000 10 15 Timer demo_transfer = Forwarded (Inl idle_error) demo_transfer \<longleftrightarrow> 5 + 10 \<le> (15 :: nat))"
proof -
  have "5 = last (0 # delivery_times 1000 10 (forward_start 1000 10 0) demo_events)"
    by (simp add: demo_delivery_times)
  from idle_timeout_exact [OF demo_events_run demo_events_sorted this] show ?thesis
    by blast
qed

text \<open>A transfer that runs has no result yet.\<close>

lemma join_result_times:
  "join_result (t\<lparr>unseen := b, deadline := n\<rparr>) = join_result t" "join_result (t\<lparr>last_active := m, unseen := b\<rparr>) = join_result t"
  by (simp_all add: join_result_def)

lemma forward_step_unjoined:
  "forward_step mx idle now ev t = Forwarding t' \<Longrightarrow> join_result t = None \<Longrightarrow> join_result t' = None"
  by (auto simp: forward_step_def after_copy_def loop_top_def join_result_times Let_def
      split: forward_event.splits prod.splits option.splits if_splits)

lemma forward_run_unjoined:
  "forward_run mx idle v evs = Forwarding t' \<Longrightarrow> (\<And>t. v = Forwarding t \<Longrightarrow> join_result t = None) \<Longrightarrow> join_result t' = None"
  by (induction mx idle v evs rule: forward_run.induct) (auto intro: forward_step_unjoined)

lemma forward_start_unjoined: "forward_start mx idle now = Forwarding t \<Longrightarrow> join_result t = None"
  by (auto simp: forward_start_def loop_top_def join_result_def direction_start_def split: if_splits)

text \<open>C39: A slow writer times out although it takes bytes. The writes inside \<open>write_all\<close> deliver bytes but
  do not count for the idle timeout, only the end of the whole chunk does: if the last chunk
  was complete a timeout ago, then a write that takes a part of the next one at \<open>time\<close> does not
  keep the connection, and the timer closes it as idle at the very instant at which these
  bytes were delivered. (The documentation says that every successful forwarding renews the
  timeout.)\<close>

theorem partial_writes_time_out:
  assumes "forward_run mx idle (forward_start mx idle now) evs = Forwarding t"
    and "sorted (now # map fst evs)" and "last (now # map fst evs) \<le> time"
    and "last (now # delivery_times mx idle (forward_start mx idle now) evs) + idle \<le> time"
    and "d_stage (upward t) = Writing n rest" and "0 < k" and "k < length rest"
  shows "\<exists>t'. forward_step mx idle time (Upward (Write_done (Inr k))) t = Forwarding t' \<and>
    d_written (upward t') = d_written (upward t) @ take k rest \<and>
    forward_step mx idle time Timer t' = Forwarded (Inl idle_error) t'"
proof -
  let ?t = "t\<lparr>upward := (upward t)\<lparr>d_stage := Writing n (drop k rest),
    d_written := d_written (upward t) @ take k rest\<rparr>\<rparr>"
  note run = forward_run_active [OF assms(1,2)]
  have "join_result t = None"
    using forward_run_unjoined [OF assms(1)] forward_start_unjoined by blast
  then have "join_result ?t = None"
    by (auto simp: join_result_def assms(5) split: copy_stage.splits sum.splits)
  then have "forward_step mx idle time (Upward (Write_done (Inr k))) t = Forwarding ?t"
    using assms(6,7) by (simp add: forward_step_def copy_step_def assms(5) after_copy_def)
  moreover have "idle \<le> time - last_active t" "deadline t \<le> time"
    using run(1,2) assms(4) by simp_all
  then have "forward_step mx idle time Timer ?t = Forwarded (Inl idle_error) ?t"
    by (simp add: forward_step_def)
  ultimately show ?thesis
    by auto
qed

text \<open>A chunk of four bytes, of which one is taken every five seconds.\<close>

definition demo_slow :: "(nat \<times> forward_event) list" where
  "demo_slow = [(1, Upward (Read_done (Inr [1, 2, 3, 4]))), (5, Upward (Write_done (Inr 1)))]"

definition demo_slow_transfer :: transfer where
  "demo_slow_transfer = \<lparr>upward = \<lparr>d_stage = Writing 4 [2, 3, 4], d_total = 0, d_read = [1, 2, 3, 4], d_written = [1],
     d_closed = False\<rparr>, downward = direction_start, last_active = 0, unseen = False, deadline = 10\<rparr>"

theorem partial_writes_time_out_witness:
  "\<exists>t'. forward_step 1000 10 10 (Upward (Write_done (Inr 1))) demo_slow_transfer = Forwarding t' \<and>
    d_written (upward t') = [1] @ take 1 [2, 3, 4] \<and>
    forward_step 1000 10 10 Timer t' = Forwarded (Inl idle_error) t'"
proof -
  have run: "forward_run 1000 10 (forward_start 1000 10 0) demo_slow = Forwarding demo_slow_transfer"
    by (simp add: demo_slow_def forward_start_def loop_top_def forward_step_def copy_step_def after_copy_def
        join_result_def direction_start_def demo_slow_transfer_def Let_def COPY_BUFFER_SIZE_def)
  have "last (0 # delivery_times 1000 10 (forward_start 1000 10 0) demo_slow) + 10 \<le> 10"
    by (simp add: demo_slow_def forward_start_def loop_top_def forward_step_def copy_step_def after_copy_def
        join_result_def direction_start_def Let_def delivers_def chunk_delivered_def COPY_BUFFER_SIZE_def)
  from partial_writes_time_out [OF run _ _ this, of 4 "[2, 3, 4]" 1] show ?thesis
    by (simp add: demo_slow_def demo_slow_transfer_def)
qed

section \<open>Connecting\<close>

text \<open>What the lookup and the race give together.\<close>

definition connect_outcome ::
  "(string \<Rightarrow> net_error + ip_addr list) \<Rightarrow> event list \<Rightarrow> target \<Rightarrow> io_error + socket_addr" where
  "connect_outcome lookup_ip evs target =
     (case dns_lookup lookup_ip target of
        Inl e \<Rightarrow> Inl e
      | Inr addresses \<Rightarrow> happy_eyeballs_connect addresses evs)"

lemma dns_lookup_status: "dns_lookup lookup_ip target = Inl e \<Longrightarrow> connect_status e = HOST_UNREACHABLE"
  by (auto simp: dns_lookup_def connect_status_def split: host.splits sum.splits if_splits)

lemma server_connect_eq:
  assumes "c_local c = Inr local" and "tx_room c = None"
    and "remote_nodelay = Inr ()" and "remote_local = Inr bound"
  shows "server_connect lookup_ip evs remote_nodelay remote_local target c =
    (case connect_outcome lookup_ip evs target of
       Inl e \<Rightarrow> (Raise e, wrote c (encode_address [5, connect_status e, 0] (unspecified (sock_ip local))))
     | Inr remote \<Rightarrow> (Return remote, wrote c (encode_address [5, SUCCESS, 0] bound)))"
proof -
  have room: "room c n" for n using assms(2) by (simp add: room_def)
  show ?thesis
    using assms(1,3,4) dns_lookup_status [of lookup_ip target]
    by (auto simp: server_connect_def connect_outcome_def local_addr_def io_bind_def io_lift_def
        write_reply_async_def write_all_room [OF room] io_raise_def io_return_def Let_def split: sum.splits)
qed

lemma connect_outcome_Inr:
  "connect_outcome lookup_ip evs target = Inr remote \<Longrightarrow>
     \<exists>addresses. dns_lookup lookup_ip target = Inr addresses \<and> remote \<in> set addresses"
  by (auto simp: connect_outcome_def connected_in_addresses split: sum.splits)

text \<open>A failed connect never reports success.\<close>

lemma connect_status_fails: "connect_status e \<noteq> SUCCESS"
  by (simp add: connect_status_def CONNECTION_REFUSED_def HOST_UNREACHABLE_def SUCCESS_def)

end
