(* ===== verification/Associate.thy ===== *)
theory Associate
  imports Registry Server_Handshake
begin

text \<open>
  The control connection of a UDP association: \<open>associate\<close> of \<open>src/server.rs\<close>, from the
  check of the request to the removal of the association. Between its accesses to the
  registry other tasks run; what they do to the associations and the registry is the
  argument \<open>env\<close> of the definitions, and the lemmas ask of it only that it consists of steps
  of the registry.
\<close>

section \<open>Definitions\<close>

text \<open>
  The checks before the registration. The result is the relay's address for the client and
  the client's own address.
\<close>

definition refuse :: "u8 \<Rightarrow> io_error \<Rightarrow> 'a io" where
  "refuse status error =
     io_bind local_addr (\<lambda>local.
     io_bind (write_reply_async status (unspecified (sock_ip local))) (\<lambda>_. io_raise error))"

definition associate_relay :: "io_error + socket_addr \<Rightarrow> target \<Rightarrow> (socket_addr \<times> ip_addr) io" where
  "associate_relay udp_local target =
     io_bind peer_addr (\<lambda>peer.
     io_bind
       (case t_host target of
          Ip ip \<Rightarrow>
            if \<not> is_unspecified ip \<and> normalize_ip ip \<noteq> normalize_ip (sock_ip peer)
            then refuse SERVER_FAILURE (IoError PermissionDenied (Message UdpClientMismatch))
            else io_return ()
        | Domain _ \<Rightarrow> refuse ADDRESS_UNSUPPORTED (IoError InvalidInput (Message UdpClientNotIp)))
       (\<lambda>_.
     io_bind local_addr (\<lambda>local.
     io_bind (io_lift udp_local) (\<lambda>udp.
     io_return (sock_new (normalize_ip (sock_ip local)) (sock_port udp), sock_ip peer)))))"

definition new_association :: "ip_addr \<Rightarrow> u16 \<Rightarrow> association" where
  "new_association ip p =
     \<lparr>client_ip = ip, requested_port = p, endpoint = None, alive = True, stopped = False,
      flows = Map.empty, preferred = Map.empty\<rparr>"

definition associate_register ::
  "nat \<Rightarrow> u64 \<Rightarrow> association \<Rightarrow> store \<times> registry \<Rightarrow> bool \<times> store \<times> registry" where
  "associate_register a aid x st =
     (case st of (h, r) \<Rightarrow>
        (case reg_insert (h(a := x)) aid a r of (ok, r') \<Rightarrow> (ok, h(a := x), r')))"

definition associate_close :: "nat \<Rightarrow> u64 \<Rightarrow> store \<times> registry \<Rightarrow> store \<times> registry" where
  "associate_close a aid st =
     (case st of (h, r) \<Rightarrow>
        (let h = h(a := (h a)\<lparr>alive := False, stopped := True\<rparr>) in (h, reg_remove h aid r)))"

text \<open>
  The loop on the control connection reads 1024 bytes at a time and drops them. It ends at the
  end of the stream, at an error, or with the shutdown, which is only waited for once the
  client is silent: when it comes makes no difference to what follows.
\<close>

function control_loop :: "bool \<Rightarrow> unit io" where
  "control_loop shutdown c =
     (if rx c \<noteq> [] then control_loop shutdown (c\<lparr>rx := drop 1024 (rx c)\<rparr>)
      else if rx_end c = Stall \<and> \<not> shutdown then (Pending, c)
      else (Return (), c))"
  by pat_completeness auto

termination
  by (relation "measure (\<lambda>(shutdown, c). length (rx c))") auto

declare control_loop.simps [simp del]

text \<open>The whole handler. \<open>env\<close> 0, 1, 2 is what other tasks do before the registration, while the
  reply is written, and while the control connection is open.\<close>

definition associate ::
  "io_error + socket_addr \<Rightarrow> bool \<Rightarrow> (nat \<Rightarrow> store \<times> registry \<Rightarrow> store \<times> registry) \<Rightarrow> nat \<Rightarrow> u64 \<Rightarrow>
     target \<Rightarrow> conn \<times> store \<times> registry \<Rightarrow> unit outcome \<times> conn \<times> store \<times> registry" where
  "associate udp_local shutdown env a aid target s =
     (case s of (c, st) \<Rightarrow>
      (case associate_relay udp_local target c of
         (Raise e, c) \<Rightarrow> (Raise e, c, env 0 st)
       | (Pending, c) \<Rightarrow> (Pending, c, env 0 st)
       | (Return (relay, ip), c) \<Rightarrow>
          (case associate_register a aid (new_association ip (t_port target)) (env 0 st) of
             (False, st) \<Rightarrow>
               (case refuse SERVER_FAILURE (IoError AddrInUse (Message UdpEndpointTaken)) c of
                  (result, c) \<Rightarrow> (result, c, env 1 st))
           | (True, st) \<Rightarrow>
               (case write_reply_async SUCCESS relay c of
                  (Raise e, c) \<Rightarrow> (Raise e, c, associate_close a aid (env 1 st))
                | (Pending, c) \<Rightarrow> (Pending, c, env 1 st)
                | (Return _, c) \<Rightarrow>
                    (case control_loop shutdown c of
                       (Return _, c) \<Rightarrow> (Return (), c, associate_close a aid (env 2 (env 1 st)))
                     | (result, c) \<Rightarrow> (result, c, env 2 (env 1 st)))))))"

section \<open>The control connection\<close>

lemma control_loop_eq:
  "control_loop shutdown c =
     (if rx_end c = Stall \<and> \<not> shutdown then (Pending, c\<lparr>rx := []\<rparr>) else (Return (), c\<lparr>rx := []\<rparr>))"
proof (induction shutdown c rule: control_loop.induct)
  case (1 shutdown c)
  show ?case
    by (subst control_loop.simps) (use 1 in \<open>auto\<close>)
qed

section \<open>The registration\<close>

lemma refuse_not_Return: "fst (refuse status e c) \<noteq> Return x"
  by (auto simp: refuse_def io_bind_def io_raise_def split: outcome.splits prod.splits)

lemma local_peer_Return:
  "local_addr c = (Return x, c') \<longleftrightarrow> c' = c \<and> c_local c = Inr x"
  "peer_addr c = (Return x, c') \<longleftrightarrow> c' = c \<and> c_peer c = Inr x"
  "io_lift r c = (Return y, c') \<longleftrightarrow> c' = c \<and> r = Inr y"
  by (auto simp: local_addr_def peer_addr_def io_lift_def split: sum.splits)

lemma refuse_Return [simp]: "refuse status e c = (Return x, c') \<longleftrightarrow> False"
  using refuse_not_Return [of status e c x] by (metis fst_conv)

lemma associate_relay_Return:
  assumes "associate_relay udp_local target c = (Return (relay, ip), c')"
  shows "c' = c \<and> (\<exists>peer. c_peer c = Inr peer \<and> ip = sock_ip peer) \<and>
    (\<exists>req. t_host target = Ip req \<and> (is_unspecified req \<or> normalize_ip req = normalize_ip ip))"
  using assms
  by (cases "t_host target")
    (auto simp: associate_relay_def io_bind_eq_Return local_peer_Return io_return_simps split: if_splits)

text \<open>Registering and closing are steps of the registry, when the association is new.\<close>

lemma associate_register_step:
  assumes "entries (snd st) aid = None" "a \<notin> ran (entries (snd st))" "endpoint x = None"
  shows "reg_step st (snd (associate_register a aid x st))"
proof (cases st)
  case (Pair h r)
  obtain ok r' where i: "reg_insert (h(a := x)) aid a r = (ok, r')"
    by (cases "reg_insert (h(a := x)) aid a r")
  have "fresh (h(a := x)) aid a r"
    using assms Pair by (simp add: fresh_def)
  then show ?thesis
    using reg_register i by (simp add: associate_register_def Pair)
qed

lemma associate_close_steps: "reg_step\<^sup>*\<^sup>* st (associate_close a aid st)"
proof (cases st)
  case (Pair h r)
  let ?h = "h(a := (h a)\<lparr>alive := False, stopped := True\<rparr>)"
  have "reg_step (h, r) (?h, r)" "reg_step (?h, r) (?h, reg_remove ?h aid r)"
    by (rule reg_stop, rule reg_close)
  then show ?thesis
    by (simp add: associate_close_def Pair Let_def)
qed

lemma reg_remove_gone: "entries (reg_remove h aid r) aid = None"
  by (auto simp: reg_remove_def Let_def split: option.splits)

lemma associate_close_gone:
  "entries (snd (associate_close a aid st)) aid = None \<and>
   \<not> alive (fst (associate_close a aid st) a) \<and> stopped (fst (associate_close a aid st) a)"
  by (cases st) (simp add: associate_close_def Let_def reg_remove_gone)

lemma associate_register_entries:
  "associate_register a aid x st = (ok, st') \<Longrightarrow>
     entries (snd st') = (if ok then (entries (snd st))(aid \<mapsto> a) else entries (snd st)) \<and>
     fst st' = (fst st)(a := x)"
  by (cases st) (auto simp: associate_register_def reg_insert_def Let_def split: prod.splits if_splits)

section \<open>The life of an association\<close>

lemma associate_cases:
  assumes "associate udp_local shutdown env a aid target (c, st) = (result, c', st')"
  obtains (rejected) "st' = env 0 st" "\<And>x. result \<noteq> Return x"
      "\<And>relay ip c0. associate_relay udp_local target c \<noteq> (Return (relay, ip), c0)"
  | (refused) relay ip st1 where "associate_relay udp_local target c = (Return (relay, ip), c)"
      "associate_register a aid (new_association ip (t_port target)) (env 0 st) = (False, st1)"
      "st' = env 1 st1" "\<And>x. result \<noteq> Return x"
  | (closed) relay ip st1 where "associate_relay udp_local target c = (Return (relay, ip), c)"
      "associate_register a aid (new_association ip (t_port target)) (env 0 st) = (True, st1)"
      "st' = associate_close a aid (env 1 st1) \<or> st' = associate_close a aid (env 2 (env 1 st1))"
  | (running) relay ip st1 where "associate_relay udp_local target c = (Return (relay, ip), c)"
      "associate_register a aid (new_association ip (t_port target)) (env 0 st) = (True, st1)"
      "st' = env 1 st1 \<or> st' = env 2 (env 1 st1)" "result = Pending"
proof -
  obtain out c1 where rel: "associate_relay udp_local target c = (out, c1)"
    by (cases "associate_relay udp_local target c")
  show thesis
  proof (cases out)
    case (Return ri)
    obtain relay ip where ri: "ri = (relay, ip)" by (cases ri)
    have c1: "c1 = c" and rel: "associate_relay udp_local target c = (Return (relay, ip), c)"
      using associate_relay_Return [of udp_local target c relay ip c1] rel Return ri by auto
    obtain ok st1 where regd:
      "associate_register a aid (new_association ip (t_port target)) (env 0 st) = (ok, st1)"
      by (cases "associate_register a aid (new_association ip (t_port target)) (env 0 st)")
    show thesis
    proof (cases ok)
      case False
      then show thesis
        using assms rel regd refuse_not_Return
        by (intro refused [OF rel]) (auto simp: associate_def split: prod.splits)
    next
      case True
      have "associate_register a aid (new_association ip (t_port target)) (env 0 st) = (True, st1)"
        using regd True by simp
      note k = assms rel this
      show thesis
      proof (cases "\<exists>u. fst (write_reply_async SUCCESS relay c) = Return u \<and> fst (control_loop shutdown
          (snd (write_reply_async SUCCESS relay c))) = Pending \<or> fst (write_reply_async SUCCESS relay c) = Pending")
        case True
        then show thesis
          using k by (intro running [OF rel k(3)])
            (auto simp: associate_def control_loop_eq split: prod.splits outcome.splits if_splits)
      next
        case False
        then show thesis
          using k by (intro closed [OF rel k(3)])
            (auto simp: associate_def control_loop_eq split: prod.splits outcome.splits if_splits)
      qed
    qed
  qed (use assms rel in \<open>auto intro!: rejected simp: associate_def\<close>)
qed

lemma new_association_simps [simp]:
  "client_ip (new_association ip p) = ip" "requested_port (new_association ip p) = p"
  "endpoint (new_association ip p) = None" "alive (new_association ip p)"
  by (simp_all add: new_association_def)

text \<open>Once the shutdown is requested the handler ends, if the client takes what is written to it.\<close>

lemma io_bind_fst_Pending:
  "fst (m c) \<noteq> Pending \<Longrightarrow> (\<And>x c'. m c = (Return x, c') \<Longrightarrow> fst (f x c') \<noteq> Pending) \<Longrightarrow> fst (io_bind m f c) \<noteq> Pending"
  by (auto simp: io_bind_def split: outcome.splits prod.splits)

lemma refuse_ends: "tx_room c = None \<Longrightarrow> fst (refuse status e c) \<noteq> Pending"
  by (simp add: refuse_def io_bind_def local_addr_def io_lift_def write_reply_async_def write_all_free io_raise_def
      split: sum.split)

lemma associate_ends:
  assumes "tx_room c = None"
  shows "fst (associate udp_local True env a aid target (c, st)) \<noteq> Pending"
proof -
  have lift: "fst (io_lift x c) \<noteq> Pending" "fst (local_addr c) \<noteq> Pending" "fst (peer_addr c) \<noteq> Pending"
    for x :: "io_error + socket_addr" and c
    by (simp_all add: io_lift_def local_addr_def peer_addr_def split: sum.splits)
  note refused = refuse_ends [OF assms]
  have "fst (associate_relay udp_local target c) \<noteq> Pending"
    unfolding associate_relay_def
    by (intro io_bind_fst_Pending lift)
      (auto split: host.splits simp: refused io_return_def io_bind_eq_Return local_peer_Return io_return_simps)
  then have relay: "associate_relay udp_local target c \<noteq> (Pending, c')" for c'
    by auto
  obtain result c' st' where run: "associate udp_local True env a aid target (c, st) = (result, c', st')"
    by (metis prod_cases3)
  from run have "result \<noteq> Pending"
  proof (cases rule: associate_cases)
    case rejected
    then show ?thesis
      using run relay by (auto simp: associate_def split: prod.splits outcome.splits)
  next
    case (refused rl ip st1)
    have "refuse SERVER_FAILURE (IoError AddrInUse (Message UdpEndpointTaken)) c \<noteq> (Pending :: unit outcome, c')"
      by (metis refuse_ends [OF assms] fst_conv)
    then show ?thesis
      using run refused by (auto simp: associate_def split: prod.splits)
  next
    case (closed rl ip st1)
    then show ?thesis
      using run assms by (auto simp: associate_def write_reply_async_def write_all_free control_loop_eq)
  next
    case (running rl ip st1)
    then show ?thesis
      using run assms by (auto simp: associate_def write_reply_async_def write_all_free control_loop_eq)
  qed
  then show ?thesis
    by (simp add: run)
qed

text \<open>An id without an entry is in no index.\<close>

lemma no_entry_no_index:
  assumes "reg_inv st" "entries (snd st) aid = None"
  shows "aid \<notin> ran (endpoints (snd st))" "aid \<notin> ran (pending (snd st))" "\<not> owner (sessions st) source aid"
proof -
  have none: "sessions st aid = None"
    using assms(2) by (cases st) (simp add: sessions_def)
  then show "aid \<notin> ran (endpoints (snd st))" "aid \<notin> ran (pending (snd st))"
    using assms(1) by (auto simp: reg_inv_def indexed_def ran_def)
  show "\<not> owner (sessions st) source aid"
    using none by (simp add: owner_def)
qed

lemma reg_steps_inv: "reg_step\<^sup>*\<^sup>* s t \<Longrightarrow> reg_inv s \<Longrightarrow> reg_inv t"
  by (induction rule: rtranclp_induct) (auto intro: reg_step_inv)

text \<open>C16: A control connection does to the registry what the registry allows and cleans up. Whatever
  the other tasks do in between, the handler is a run of the registry's steps; and when it
  has ended, in any way, nothing in the registry names its id: no entry, no index, and no
  lookup reaches its association any more. If the association had been registered then,
  whether the control connection was closed or the reply to the client failed, it is not
  alive and its tasks are told to stop.\<close>

theorem association_cleans_up:
  assumes "associate udp_local shutdown env a aid target (c, st) = (result, c', st')"
    and "reg_inv st" and "\<And>n s. reg_step\<^sup>*\<^sup>* s (env n s)"
    and "\<And>n s. n > 0 \<Longrightarrow> entries (snd s) aid = None \<Longrightarrow> entries (snd (env n s)) aid = None"
    and "entries (snd (env 0 st)) aid = None" and "a \<notin> ran (entries (snd (env 0 st)))"
  shows "reg_step\<^sup>*\<^sup>* st st' \<and>
    (result \<noteq> Pending \<longrightarrow>
       entries (snd st') aid = None \<and> aid \<notin> ran (endpoints (snd st')) \<and> aid \<notin> ran (pending (snd st')) \<and>
       (\<forall>source. \<not> owner (sessions st') source aid) \<and>
       (\<forall>relay ip st1. associate_relay udp_local target c = (Return (relay, ip), c) \<longrightarrow>
          associate_register a aid (new_association ip (t_port target)) (env 0 st) = (True, st1) \<longrightarrow>
          \<not> alive (fst st' a) \<and> stopped (fst st' a)))"
proof -
  have reg: "reg_step\<^sup>*\<^sup>* st st1" if "associate_register a aid (new_association ip p) (env 0 st) = (ok, st1)"
    for ip p ok st1
    using associate_register_step [OF assms(5,6), of "new_association ip p"] assms(3) [of st 0] that
    by (auto intro: rtranclp.rtrancl_into_rtrancl)
  have "reg_step\<^sup>*\<^sup>* st st' \<and> (result \<noteq> Pending \<longrightarrow> entries (snd st') aid = None \<and>
      (\<forall>relay ip st1. associate_relay udp_local target c = (Return (relay, ip), c) \<longrightarrow>
          associate_register a aid (new_association ip (t_port target)) (env 0 st) = (True, st1) \<longrightarrow>
          \<not> alive (fst st' a) \<and> stopped (fst st' a)))"
    using assms(1)
  proof (cases rule: associate_cases)
    case rejected
    then show ?thesis using assms(3,5) by blast
  next
    case (refused relay ip st1)
    have "entries (snd st1) aid = None"
      using associate_register_entries [OF refused(2)] assms(5) by simp
    then show ?thesis
      using refused(1-3) reg [OF refused(2)] assms(3,4) by (auto simp: rtranclp_trans [OF _ assms(3)])
  next
    case (closed relay ip st1)
    have "reg_step\<^sup>*\<^sup>* st (associate_close a aid (env 1 st1))"
      "reg_step\<^sup>*\<^sup>* st (associate_close a aid (env 2 (env 1 st1)))"
      using reg [OF closed(2)] assms(3) associate_close_steps by (meson rtranclp_trans)+
    then show ?thesis
      using closed(3) associate_close_gone by metis
  next
    case (running relay ip st1)
    have "reg_step\<^sup>*\<^sup>* st (env 1 st1)" "reg_step\<^sup>*\<^sup>* st (env 2 (env 1 st1))"
      using reg [OF running(2)] assms(3) by (meson rtranclp_trans)+
    then show ?thesis using running(3,4) by auto
  qed
  then show ?thesis
    using no_entry_no_index [OF reg_steps_inv [OF _ assms(2)]] by blast
qed

definition demo_conn :: conn where
  "demo_conn = (slice_reader [])\<lparr>c_local := Inr (SockV4 1 1080), c_peer := Inr (SockV4 7 99)\<rparr>"

definition demo_request :: target where
  "demo_request = \<lparr>t_host = Ip (IpV4 0), t_port = 0\<rparr>"

text \<open>The client is there until it closes the connection; or it is gone when the reply is written.\<close>

lemma demo_relay_address:
  "associate_relay (Inr (SockV6 0 1080 0 0)) demo_request (demo_conn\<lparr>tx_room := n\<rparr>) =
     (Return (SockV4 1 1080, IpV4 7), demo_conn\<lparr>tx_room := n\<rparr>)"
  by (simp add: associate_relay_def demo_conn_def demo_request_def io_bind_def peer_addr_def
      local_addr_def io_return_def io_lift_def normalize_ip_def slice_reader_def)

lemma demo_associate_register:
  "associate_register 0 1 (new_association (IpV4 7) (t_port demo_request)) demo_start = (True, demo_state)"
  using demo_insert
  by (simp add: associate_register_def demo_start_def new_association_def demo_request_def
      demo_association_def fun_upd_idem) (simp add: demo_state_def demo_association_def)

lemma demo_associate:
  "associate (Inr (SockV6 0 1080 0 0)) False (\<lambda>n st. st) 0 1 demo_request (demo_conn, demo_start) =
     (Return (), wrote demo_conn (encode_address [5, SUCCESS, 0] (SockV4 1 1080)), associate_close 0 1 demo_state)"
  using demo_relay_address [of None] demo_associate_register
  by (simp add: associate_def write_reply_async_def write_all_def control_loop_eq demo_conn_def slice_reader_def wrote_def)

lemma demo_associate_fails:
  "\<exists>e c'. associate (Inr (SockV6 0 1080 0 0)) False (\<lambda>n st. st) 0 1 demo_request (demo_conn\<lparr>tx_room := Some 0\<rparr>, demo_start) =
     (Raise e, c', associate_close 0 1 demo_state)"
proof -
  have "encode_address [5, SUCCESS, 0] (SockV4 1 1080) \<noteq> []"
    by (subst encode_address_wire) simp
  then have "write_reply_async SUCCESS (SockV4 1 1080) (demo_conn\<lparr>tx_room := Some 0\<rparr>) =
      (Raise (IoError WriteZero OsError), demo_conn\<lparr>tx_room := Some 0\<rparr>)"
    by (simp add: write_reply_async_def write_all_def demo_conn_def slice_reader_def stop_write_def write_fault_def)
  then show ?thesis
    using demo_relay_address [of "Some 0"] demo_associate_register by (auto simp: associate_def)
qed

text \<open>Both ends: the client closes the connection, and the reply to it fails.\<close>

theorem association_cleans_up_witness:
  "(\<exists>e c'. associate (Inr (SockV6 0 1080 0 0)) False (\<lambda>n st. st) 0 1 demo_request
      (demo_conn\<lparr>tx_room := Some 0\<rparr>, demo_start) = (Raise e, c', associate_close 0 1 demo_state)) \<and>
   (\<exists>c'. associate (Inr (SockV6 0 1080 0 0)) False (\<lambda>n st. st) 0 1 demo_request (demo_conn, demo_start) =
      (Return (), c', associate_close 0 1 demo_state)) \<and>
   1 \<notin> ran (pending (snd (associate_close 0 1 demo_state))) \<and>
   \<not> alive (fst (associate_close 0 1 demo_state) 0)"
proof (intro conjI)
  have "entries (snd demo_start) 1 = None" "ran (entries (snd demo_start)) = {}"
    by (simp_all add: demo_start_def reg_default_def)
  then show "1 \<notin> ran (pending (snd (associate_close 0 1 demo_state)))" "\<not> alive (fst (associate_close 0 1 demo_state) 0)"
    using association_cleans_up [OF demo_associate demo_start_inv] demo_relay_address [of None] demo_associate_register
    by (auto simp: demo_conn_def slice_reader_def)
qed (use demo_associate demo_associate_fails in blast)+

text \<open>The client of a registered association does not change.\<close>

lemma reg_find_client:
  assumes "reg_find source st = (res, st')"
  shows "client_ip (fst st' a) = client_ip (fst st a)"
proof -
  have "client_ip (snd (accepts x source)) = client_ip x" for x
    by (simp add: accepts_def split: option.splits)
  then show ?thesis
    using assms
    by (auto simp: reg_find_def Let_def split: option.splits if_splits prod.splits) (metis snd_conv)+
qed

lemma reg_step_client:
  assumes "reg_step st st'" "entries (snd st) aid = Some a"
  shows "client_ip (fst st' a) = client_ip (fst st a)"
  using assms(1)
proof cases
  case (reg_register h b x i r ok r')
  have "b \<noteq> a"
    using assms(2) reg_register by (auto simp: fresh_def ran_def)
  then show ?thesis using reg_register by simp
next
  case (reg_datagram source res)
  then show ?thesis using reg_find_client by blast
qed auto

text \<open>A client gets only its own datagrams. When the handler registers an association the client
  is the peer of the control connection: it cannot name another host's address, and as long
  as its session exists every datagram handed to it comes from the peer's address (an
  IPv4-mapped address counting as its IPv4 address).\<close>

theorem association_confined:
  assumes "associate_relay udp_local target c = (Return (relay, ip), c')"
    and "associate_register a aid (new_association ip (t_port target)) st = (True, st1)"
    and "(\<lambda>s t. reg_step s t \<and> entries (snd t) aid = Some a)\<^sup>*\<^sup>* st1 st2"
    and "owner (sessions st2) source aid"
  shows "\<exists>peer. c_peer c = Inr peer \<and> normalize_ip (sock_ip source) = normalize_ip (sock_ip peer)"
proof -
  obtain peer where peer: "c_peer c = Inr peer" "ip = sock_ip peer"
    using associate_relay_Return [OF assms(1)] by blast
  have "entries (snd st2) aid = Some a \<and> client_ip (fst st2 a) = ip"
    using assms(3)
  proof (induction rule: rtranclp_induct)
    case base
    show ?case using associate_register_entries [OF assms(2)] by simp
  next
    case (step s t)
    then show ?case using reg_step_client by metis
  qed
  then show ?thesis
    using assms(4) peer by (auto simp: owner_def sessions_def session_of_def Let_def)
qed

theorem association_confined_witness:
  "\<exists>peer. c_peer demo_conn = Inr peer \<and> normalize_ip (sock_ip (SockV4 7 5)) = normalize_ip (sock_ip peer)"
proof (rule association_confined [OF _ _ rtranclp.rtrancl_refl])
  show "associate_relay (Inr (SockV6 0 1080 0 0)) demo_request demo_conn =
      (Return (SockV4 1 1080, IpV4 7), demo_conn)"
    by (simp add: associate_relay_def demo_conn_def demo_request_def io_bind_def peer_addr_def
        local_addr_def io_return_def io_lift_def normalize_ip_def)
  show "associate_register 0 1 (new_association (IpV4 7) (t_port demo_request)) demo_start = (True, demo_state)"
    by (rule demo_associate_register)
  show "owner (sessions demo_state) (SockV4 7 5) 1"
    by (simp add: owner_def sessions_def session_of_def bound_port_def demo_state_def demo_association_def
        normalize_ip_def Let_def ran_def)
qed

end
