(* ===== verification/Handler.thy ===== *)
theory Handler
  imports Tcp_Relay Associate
begin

text \<open>
  \<open>handle_client\<close> of \<open>src/server.rs\<close> as a whole: the handshake of Server_Handshake, and
  then \<open>connect\<close> of Tcp_Relay or \<open>associate\<close> of Associate. What the rest of the world
  contributes is a record.
\<close>

record surroundings =
  w_cancelled :: bool
  w_lookup :: "string \<Rightarrow> net_error + ip_addr list"
  w_race :: "event list"
  w_nodelay :: "io_error + unit"
  w_remote_local :: "io_error + socket_addr"
  w_copy_both :: "(io_error + nat \<times> nat) option"
  w_max_instant :: nat
  w_start :: nat
  w_transfer :: "(nat \<times> forward_event) list"
  w_udp_local :: "io_error + socket_addr"
  w_env :: "nat \<Rightarrow> store \<times> registry \<Rightarrow> store \<times> registry"
  w_alloc :: nat

text \<open>\<open>None\<close> is a handler that still runs.\<close>

definition handle_client ::
  "config \<Rightarrow> surroundings \<Rightarrow> u64 \<Rightarrow> conn \<Rightarrow> store \<times> registry \<Rightarrow> (io_error + unit) option \<times> store \<times> registry" where
  "handle_client cfg w aid c st =
     (case handle_handshake cfg c of
        (Return (Do_connect target), c) \<Rightarrow>
          (run_connect (w_cancelled w) (w_lookup w) (w_race w) (w_nodelay w) (w_remote_local w) (w_copy_both w)
             (w_max_instant w) (map_option unat (cfg_tcp_timeout cfg)) (w_start w) (w_transfer w) target c,
           w_env w 0 st)
      | (Return (Do_associate target), c) \<Rightarrow>
          (case associate (w_udp_local w) (w_cancelled w) (w_env w) (w_alloc w) aid target (c, st) of
             (Return _, c, st) \<Rightarrow> (Some (Inr ()), st)
           | (Raise e, c, st) \<Rightarrow> (Some (Inl e), st)
           | (Pending, c, st) \<Rightarrow> (None, st))
      | (Return Rejected, c) \<Rightarrow> (Some (Inr ()), w_env w 0 st)
      | (Raise e, c) \<Rightarrow> (Some (Inl e), w_env w 0 st)
      | (Pending, c) \<Rightarrow> (None, w_env w 0 st))"

text \<open>C31: A client that does not authenticate does nothing. If the client's bytes do not start with a
  greeting that offers the required method, the configured credentials and a well-formed UDP
  ASSOCIATE, its handler leaves the associations and the registry to the other tasks; and if
  they do not start so with a CONNECT either, the result does not depend on the resolver, the
  remote side or the relay: nothing is contacted for it.\<close>

theorem unauthenticated_inert:
  assumes "valid_credentials (cfg_username cfg) (cfg_password cfg)"
    and "\<And>ms t bs rest. counted ms \<Longrightarrow> selected_method cfg \<in> set ms \<Longrightarrow> wf_target t \<Longrightarrow>
      target_wire t = Some bs \<Longrightarrow> rx c \<noteq> greeting ms @ auth_message cfg @ [5, UDP_ASSOCIATE, 0] @ bs @ rest"
  shows "snd (handle_client cfg w aid c st) = w_env w 0 st \<and>
    ((\<forall>ms t bs rest. counted ms \<longrightarrow> selected_method cfg \<in> set ms \<longrightarrow> wf_target t \<longrightarrow>
        target_wire t = Some bs \<longrightarrow> rx c \<noteq> greeting ms @ auth_message cfg @ [5, CONNECT, 0] @ bs @ rest) \<longrightarrow>
      fst (handle_client cfg w aid c st) = fst (handle_client cfg w' aid c st))"
proof -
  obtain out c1 where hs: "handle_handshake cfg c = (out, c1)"
    by (cases "handle_handshake cfg c")
  have no: "out \<noteq> Return (Do_associate t)" for t
    using handle_handshake_iff [OF assms(1) dispatched.simps(2), where t = t and c = c and c' = c1] assms(2) hs by metis
  have no_connect: "out \<noteq> Return (Do_connect t)"
    if "\<forall>ms t bs rest. counted ms \<longrightarrow> selected_method cfg \<in> set ms \<longrightarrow> wf_target t \<longrightarrow>
        target_wire t = Some bs \<longrightarrow> rx c \<noteq> greeting ms @ auth_message cfg @ [5, CONNECT, 0] @ bs @ rest" for t
    using handle_handshake_iff [OF assms(1) dispatched.simps(1), where t = t and c = c and c' = c1] that hs by metis
  show ?thesis
    using no no_connect by (auto simp: handle_client_def hs split: outcome.splits dispatch.splits)
qed

definition demo_world :: surroundings where
  "demo_world = \<lparr>w_cancelled = False, w_lookup = (\<lambda>_. Inr []), w_race = [], w_nodelay = Inr (),
     w_remote_local = Inr (SockV4 9 9), w_copy_both = None, w_max_instant = 1000, w_start = 0,
     w_transfer = [], w_udp_local = Inr (SockV6 0 1080 0 0), w_env = (\<lambda>n st. st), w_alloc = 0\<rparr>"

theorem unauthenticated_inert_witness:
  "snd (handle_client demo_config demo_world 1 (slice_reader [5, 1, 0]) demo_start) = w_env demo_world 0 demo_start \<and>
   fst (handle_client demo_config demo_world 1 (slice_reader [5, 1, 0]) demo_start) =
   fst (handle_client demo_config (demo_world\<lparr>w_cancelled := True\<rparr>) 1 (slice_reader [5, 1, 0]) demo_start)"
proof -
  have short: "rx (slice_reader [5, 1, 0]) \<noteq> greeting ms @ auth_message demo_config @ [5, k, 0] @ bs @ rest"
    for ms k bs rest
    by (auto simp: greeting_def dest!: arg_cong [of _ _ length])
  show ?thesis
    using unauthenticated_inert [OF demo_valid short, of demo_world 1 demo_start] short by blast
qed

end
