(* ===== verification/Udp_Relay.thy ===== *)
theory Udp_Relay
  imports Registry Dns Config
begin

text \<open>
  The UDP relay of \<open>src/server.rs\<close>: \<open>udp_loop\<close>, \<open>handle_udp_packet\<close>, \<open>receive_remote\<close>, the
  preferred addresses and the flow slots.

  The state is shared by any number of tasks: the associations and the registry, the cell of
  every flow slot (a \<open>OnceCell\<close>), the packet tasks and the receiver tasks. A packet task is
  a state machine whose stages are the points where another task can come in between (an
  \<open>await\<close>, or a lock that is released); \<open>packet_step\<close> is the code between two such points.
  What the network, the resolver, the clock and the other halves of the locks contribute is
  the input of a step. A receiver has stages of the same kind: the top of its loop, the
  \<open>select!\<close>, an answer that was accepted, and the \<open>send_to\<close> it waits for.

  A slot is live while something refers to it, and its permit of the semaphore is taken for
  as long: \<open>live_slots\<close> collects the references. \<open>udp_step\<close> interleaves everything.
\<close>

section \<open>Constants and state\<close>

definition RELAY_BUFFER_SIZE :: nat where "RELAY_BUFFER_SIZE = 65535"
definition MAX_UDP_PACKET_TASKS :: nat where "MAX_UDP_PACKET_TASKS = 256"
definition MAX_UDP_FLOWS :: nat where "MAX_UDP_FLOWS = 1024"
definition MAX_FLOWS_PER_ASSOCIATION :: nat where "MAX_FLOWS_PER_ASSOCIATION = 128"

text \<open>
  A flow; its socket is the address it is connected to. Times are in seconds. A panic while
  \<open>last_activity\<close> is locked poisons the mutex, and every later \<open>lock().unwrap()\<close> panics.
\<close>

record flow =
  f_peer :: socket_addr
  f_index :: nat
  f_count :: nat
  f_active :: bool
  f_stopped :: bool
  f_last :: nat
  f_poisoned :: bool

datatype stage =
    Begin                               \<comment> \<open>before the first look at \<open>alive\<close>\<close>
  | Choose                              \<comment> \<open>the top of the loop\<close>
  | Got nat                             \<comment> \<open>a slot, before or waiting in \<open>get_or_init\<close>\<close>
  | Init nat "socket_addr list" nat     \<comment> \<open>in the initialiser: addresses and start\<close>
  | Have nat                            \<comment> \<open>\<open>get_or_init\<close> has returned\<close>
  | Sending nat                         \<comment> \<open>before the result of \<open>send\<close>\<close>

record packet_task =
  t_assoc :: nat
  t_target :: target
  t_payload :: "u8 list"
  t_attempts :: nat
  t_stale :: nat
  t_stage :: stage

datatype receive_stage =
    Top                                 \<comment> \<open>the top of the loop\<close>
  | Waiting                             \<comment> \<open>in the \<open>select!\<close>\<close>
  | Answering nat                       \<comment> \<open>an answer of that length is in the buffer, and \<open>alive\<close> was set\<close>
  | Replying "u8 list" socket_addr      \<comment> \<open>in \<open>relay.send_to\<close>: the packet and the client\<close>

record receiver =
  r_assoc :: nat
  r_target :: target
  r_dest :: socket_addr
  r_buffer :: "u8 list"
  r_replied :: bool
  r_stage :: receive_stage

record relay =
  assocs :: store
  reg :: registry
  cells :: "nat \<Rightarrow> flow option option"
  next_slot :: nat
  packets :: "nat \<rightharpoonup> packet_task"
  next_packet :: nat
  receivers :: "nat \<rightharpoonup> receiver"

definition upd_assoc :: "nat \<Rightarrow> (association \<Rightarrow> association) \<Rightarrow> relay \<Rightarrow> relay" where
  "upd_assoc a f s = s\<lparr>assocs := (assocs s)(a := f (assocs s a))\<rparr>"

definition set_cell :: "nat \<Rightarrow> flow option \<Rightarrow> relay \<Rightarrow> relay" where
  "set_cell k c s = s\<lparr>cells := (cells s)(k := Some c)\<rparr>"

definition set_stage :: "nat \<Rightarrow> packet_task \<Rightarrow> stage \<Rightarrow> relay \<Rightarrow> relay" where
  "set_stage i t g s = s\<lparr>packets := (packets s)(i \<mapsto> t\<lparr>t_stage := g\<rparr>)\<rparr>"

definition end_packet :: "nat \<Rightarrow> relay \<Rightarrow> relay" where
  "end_packet i s = s\<lparr>packets := (packets s)(i := None)\<rparr>"

section \<open>Preferred addresses and flow slots\<close>

text \<open>
  \<open>keys().next()\<close> of a hash map is some key of it: the argument \<open>oldest\<close>.
\<close>

definition remember_udp_address ::
  "target option \<Rightarrow> target \<Rightarrow> nat \<Rightarrow> association \<Rightarrow> association" where
  "remember_udp_address oldest target index a =
     (let m = preferred a;
          m = (if map_len m \<ge> MAX_FLOWS_PER_ASSOCIATION \<and> target \<notin> dom m
               then (case oldest of Some k \<Rightarrow> m(k := None) | None \<Rightarrow> m) else m)
      in a\<lparr>preferred := m(target \<mapsto> index)\<rparr>)"

definition advance_udp_address ::
  "target option \<Rightarrow> target \<Rightarrow> flow \<Rightarrow> association \<Rightarrow> association" where
  "advance_udp_address oldest target f a =
     (if f_count f > 1
      then remember_udp_address oldest target ((f_index f + 1) mod f_count f) a else a)"

definition remove_flow_slot :: "target \<Rightarrow> nat \<Rightarrow> association \<Rightarrow> association" where
  "remove_flow_slot target slot a =
     (if flows a target = Some slot then a\<lparr>flows := (flows a)(target := None)\<rparr> else a)"

text \<open>The first block of the loop; \<open>permit\<close> is what \<open>try_acquire_owned\<close> answers.\<close>

definition choose_slot :: "bool \<Rightarrow> nat \<Rightarrow> target \<Rightarrow> relay \<Rightarrow> nat option \<times> relay" where
  "choose_slot permit a target s =
     (case flows (assocs s a) target of
        Some slot \<Rightarrow> (Some slot, s)
      | None \<Rightarrow>
          if map_len (flows (assocs s a)) \<ge> MAX_FLOWS_PER_ASSOCIATION then (None, s)
          else if \<not> permit then (None, s)
          else
            (let slot = next_slot s in
             (Some slot,
              (upd_assoc a (\<lambda>x. x\<lparr>flows := (flows x)(target \<mapsto> slot)\<rparr>) s)
                \<lparr>cells := (cells s)(slot := None), next_slot := Suc slot\<rparr>)))"

definition start_index :: "(target \<rightharpoonup> nat) \<Rightarrow> target \<Rightarrow> nat \<Rightarrow> nat" where
  "start_index m target n = (case m target of Some i \<Rightarrow> i | None \<Rightarrow> 0) mod n"

text \<open>
  The loop over the offsets; \<open>usable\<close> says for which destination a socket can be bound,
  connected and set up.
\<close>

definition select_address :: "(socket_addr \<Rightarrow> bool) \<Rightarrow> socket_addr list \<Rightarrow> nat \<Rightarrow> nat option" where
  "select_address usable addresses start =
     find (\<lambda>index. usable (addresses ! index))
       (map (\<lambda>offset. (start + offset) mod length addresses) [0..<length addresses])"

section \<open>Packet tasks\<close>

text \<open>
  What a step takes from outside: the permit, the key the hash map would evict, the
  resolver's answer, the usable destinations, whether \<open>send\<close> succeeds, and the time.
\<close>

record packet_input =
  in_permit :: bool
  in_oldest :: "target option"
  in_answer :: "net_error + ip_addr list"
  in_usable :: "socket_addr \<Rightarrow> bool"
  in_sent :: bool
  in_now :: nat

definition begin_init :: "packet_input \<Rightarrow> nat \<Rightarrow> packet_task \<Rightarrow> nat \<Rightarrow> relay \<Rightarrow> relay" where
  "begin_init inp i t slot s =
     (case dns_lookup (\<lambda>_. in_answer inp) (t_target t) of
        Inl _ \<Rightarrow> set_stage i t (Have slot) (set_cell slot None s)
      | Inr addresses \<Rightarrow>
          set_stage i t
            (Init slot addresses
              (start_index (preferred (assocs s (t_assoc t))) (t_target t) (length addresses))) s)"

definition end_init ::
  "packet_input \<Rightarrow> nat \<Rightarrow> packet_task \<Rightarrow> nat \<Rightarrow> socket_addr list \<Rightarrow> nat \<Rightarrow> relay \<Rightarrow> relay" where
  "end_init inp i t slot addresses start s =
     (case select_address (in_usable inp) addresses start of
        None \<Rightarrow> set_stage i t (Have slot) (set_cell slot None s)
      | Some index \<Rightarrow>
          (let s = (if length addresses > 1
                    then upd_assoc (t_assoc t)
                      (remember_udp_address (in_oldest inp) (t_target t) index) s
                    else s);
               s = set_cell slot
                     (Some \<lparr>f_peer = addresses ! index, f_index = index, f_count = length addresses, f_active = True,
                            f_stopped = False, f_last = in_now inp, f_poisoned = False\<rparr>) s;
               s = s\<lparr>receivers := (receivers s)(slot \<mapsto>
                     \<lparr>r_assoc = t_assoc t, r_target = t_target t,
                      r_dest = addresses ! index, r_buffer = replicate RELAY_BUFFER_SIZE 0,
                      r_replied = False, r_stage = Top\<rparr>)\<rparr>
           in set_stage i t (Have slot) s))"

text \<open>After \<open>get_or_init\<close>: no flow, a stale one, or one to send on. A panic ends the task.\<close>

definition use_flow :: "packet_input \<Rightarrow> nat \<Rightarrow> packet_task \<Rightarrow> nat \<Rightarrow> flow option \<Rightarrow> relay \<Rightarrow> relay" where
  "use_flow inp i t slot fl s =
     (case fl of
        None \<Rightarrow> end_packet i (upd_assoc (t_assoc t) (remove_flow_slot (t_target t) slot) s)
      | Some f \<Rightarrow>
          if \<not> f_active f then
            (let s = upd_assoc (t_assoc t) (remove_flow_slot (t_target t) slot) s;
                 t = t\<lparr>t_stale := t_stale t + 1\<rparr>
             in if t_stale t > 2 then end_packet i s else set_stage i t Choose s)
          else if \<not> alive (assocs s (t_assoc t)) then end_packet i s
          else if f_poisoned f then end_packet i s
          else set_stage i (t\<lparr>t_attempts := t_attempts t + 1\<rparr>) (Sending slot)
                 (set_cell slot (Some (f\<lparr>f_last := in_now inp\<rparr>)) s))"

definition finish_send :: "packet_input \<Rightarrow> nat \<Rightarrow> packet_task \<Rightarrow> nat \<Rightarrow> flow \<Rightarrow> relay \<Rightarrow> relay" where
  "finish_send inp i t slot f s =
     (if in_sent inp
      then end_packet i
        (if f_poisoned f then s else set_cell slot (Some (f\<lparr>f_last := in_now inp\<rparr>)) s)
      else
        (let s = (if f_active f
                  then upd_assoc (t_assoc t)
                    (advance_udp_address (in_oldest inp) (t_target t) f) s
                  else s);
             s = set_cell slot (Some (f\<lparr>f_active := False, f_stopped := True\<rparr>)) s;
             s = upd_assoc (t_assoc t) (remove_flow_slot (t_target t) slot) s
         in if t_attempts t \<ge> f_count f then end_packet i s else set_stage i t Choose s))"

text \<open>Some task is in the initialiser of the slot; \<open>get_or_init\<close> lets only one in.\<close>

definition initialising :: "relay \<Rightarrow> nat \<Rightarrow> bool" where
  "initialising s slot \<longleftrightarrow>
     (\<exists>t \<in> ran (packets s). \<exists>addresses start. t_stage t = Init slot addresses start)"

definition packet_step :: "packet_input \<Rightarrow> nat \<Rightarrow> relay \<Rightarrow> relay" where
  "packet_step inp i s =
     (case packets s i of
        None \<Rightarrow> s
      | Some t \<Rightarrow>
          (case t_stage t of
             Begin \<Rightarrow>
               if \<not> alive (assocs s (t_assoc t)) then end_packet i s else set_stage i t Choose s
           | Choose \<Rightarrow>
               (case choose_slot (in_permit inp) (t_assoc t) (t_target t) s of
                  (None, s) \<Rightarrow> end_packet i s
                | (Some slot, s) \<Rightarrow> set_stage i t (Got slot) s)
           | Got slot \<Rightarrow>
               (case cells s slot of
                  Some _ \<Rightarrow> set_stage i t (Have slot) s
                | None \<Rightarrow> if initialising s slot then s else begin_init inp i t slot s)
           | Init slot addresses start \<Rightarrow> end_init inp i t slot addresses start s
           | Have slot \<Rightarrow>
               (case cells s slot of
                  Some fl \<Rightarrow> use_flow inp i t slot fl s
                | None \<Rightarrow> s)
           | Sending slot \<Rightarrow>
               (case cells s slot of
                  Some (Some f) \<Rightarrow> finish_send inp i t slot f s
                | _ \<Rightarrow> s)))"

section \<open>Receivers\<close>

text \<open>
  The answer is received behind a gap of 22 bytes; what does not fit is cut off. The header
  is written into the end of the gap: the result is the buffer and the packet, or \<open>None\<close> for
  a panic.
\<close>

definition receive_into :: "u8 list \<Rightarrow> u8 list \<Rightarrow> u8 list \<times> nat" where
  "receive_into buffer datagram =
     (let received = take (length buffer - 22) datagram
      in (take 22 buffer @ received @ drop (22 + length received) buffer, length received))"

definition pack_reply :: "u8 list \<Rightarrow> nat \<Rightarrow> socket_addr \<Rightarrow> (u8 list \<times> u8 list) option" where
  "pack_reply buffer n destination =
     (let start = 22 - datagram_header_len destination
      in case write_datagram_header (drop start (take 22 buffer)) destination of
           None \<Rightarrow> None
         | Some header \<Rightarrow>
             (let buffer = take start buffer @ header @ drop 22 buffer
              in Some (buffer, drop start (take (22 + n) buffer))))"

datatype receive_event =
  Association_stopped | Flow_stopped | Deadline_passed | Received_reply "u8 list" | Receive_failed

text \<open>
  What a step of a receiver comes to: the loop is left, the task panics, or it goes on in
  another stage, with the time of the last activity. \<open>Instant\<close> plus a duration panics beyond
  the last instant the platform can represent, \<open>max_instant\<close>, and the mutex is locked then:
  \<open>Panic\<close> says whether it is.
\<close>

datatype receive_result = Exit bool | Panic bool | Next receiver nat

definition receive_top ::
  "nat \<Rightarrow> nat \<Rightarrow> nat \<Rightarrow> association \<Rightarrow> flow \<Rightarrow> receiver \<Rightarrow> receive_result" where
  "receive_top max_instant timeout now a f r =
     (if \<not> alive a then Exit False
      else if timeout = 0 then Next (r\<lparr>r_stage := Waiting\<rparr>) (f_last f)
      else if f_poisoned f \<or> f_last f + timeout > max_instant then Panic True
      else if now \<ge> f_last f + timeout then Exit (\<not> r_replied r)
      else Next (r\<lparr>r_stage := Waiting\<rparr>) (f_last f))"

text \<open>
  The branch of the \<open>select!\<close> that is taken. An answer is accepted by the look at \<open>alive\<close>, and
  the lock of the last activity is released again.
\<close>

definition receive_event ::
  "receive_event \<Rightarrow> nat \<Rightarrow> association \<Rightarrow> flow \<Rightarrow> receiver \<Rightarrow> receive_result" where
  "receive_event ev now a f r =
     (case ev of
        Association_stopped \<Rightarrow> Exit False
      | Flow_stopped \<Rightarrow> Exit False
      | Deadline_passed \<Rightarrow> Next (r\<lparr>r_stage := Top\<rparr>) (f_last f)
      | Received_reply datagram \<Rightarrow>
          if \<not> alive a then Exit False
          else if f_poisoned f then Panic True
          else
            (let (buffer, n) = receive_into (r_buffer r) datagram
             in Next (r\<lparr>r_buffer := buffer, r_replied := True, r_stage := Answering n\<rparr>) now)
      | Receive_failed \<Rightarrow> Exit True)"

text \<open>The lock of the endpoint is taken and released, and the packet is made for \<open>send_to\<close>.\<close>

definition receive_answer :: "nat \<Rightarrow> association \<Rightarrow> flow \<Rightarrow> receiver \<Rightarrow> receive_result" where
  "receive_answer n a f r =
     (case endpoint a of
        None \<Rightarrow> Next (r\<lparr>r_stage := Top\<rparr>) (f_last f)
      | Some source \<Rightarrow>
          (case pack_reply (r_buffer r) n (r_dest r) of
             None \<Rightarrow> Panic False
           | Some (buffer, packet) \<Rightarrow>
               Next (r\<lparr>r_buffer := buffer, r_stage := Replying packet source\<rparr>) (f_last f)))"

definition receive_turn ::
  "nat \<Rightarrow> nat \<Rightarrow> receive_event \<Rightarrow> nat \<Rightarrow> association \<Rightarrow> flow \<Rightarrow> receiver \<Rightarrow> receive_result" where
  "receive_turn max_instant timeout ev now a f r =
     (case r_stage r of
        Top \<Rightarrow> receive_top max_instant timeout now a f r
      | Waiting \<Rightarrow> receive_event ev now a f r
      | Answering n \<Rightarrow> receive_answer n a f r
      | Replying packet source \<Rightarrow> Next (r\<lparr>r_stage := Top\<rparr>) (f_last f))"

definition end_receiver :: "target option \<Rightarrow> bool \<Rightarrow> nat \<Rightarrow> receiver \<Rightarrow> flow \<Rightarrow> relay \<Rightarrow> relay" where
  "end_receiver oldest failed slot r f s =
     (let s = (if f_active f \<and> failed
               then upd_assoc (r_assoc r) (advance_udp_address oldest (r_target r) f) s
               else s);
          s = set_cell slot (Some (f\<lparr>f_active := False\<rparr>)) s;
          s = upd_assoc (r_assoc r) (remove_flow_slot (r_target r) slot) s
      in s\<lparr>receivers := (receivers s)(slot := None)\<rparr>)"

text \<open>A panic ends the task where it is.\<close>

definition apply_result ::
  "target option \<Rightarrow> nat \<Rightarrow> receiver \<Rightarrow> flow \<Rightarrow> receive_result \<Rightarrow> relay \<Rightarrow> relay" where
  "apply_result oldest slot r f result s =
     (case result of
        Exit failed \<Rightarrow> end_receiver oldest failed slot r f s
      | Panic locked \<Rightarrow>
          (set_cell slot (Some (f\<lparr>f_poisoned := f_poisoned f \<or> locked\<rparr>)) s)
            \<lparr>receivers := (receivers s)(slot := None)\<rparr>
      | Next r active_at \<Rightarrow>
          (set_cell slot (Some (f\<lparr>f_last := active_at\<rparr>)) s)
            \<lparr>receivers := (receivers s)(slot \<mapsto> r)\<rparr>)"

text \<open>What leaves on the relay's socket when \<open>send_to\<close> is done; its result is ignored.\<close>

definition answer_sent :: "receiver \<Rightarrow> (u8 list \<times> socket_addr) option" where
  "answer_sent r = (case r_stage r of Replying packet source \<Rightarrow> Some (packet, source) | _ \<Rightarrow> None)"

definition receiver_step ::
  "nat \<Rightarrow> nat \<Rightarrow> target option \<Rightarrow> nat \<Rightarrow> receive_event \<Rightarrow> nat \<Rightarrow> relay \<Rightarrow>
     relay \<times> (u8 list \<times> socket_addr) option" where
  "receiver_step max_instant timeout oldest now ev slot s =
     (case (receivers s slot, cells s slot) of
        (Some r, Some (Some f)) \<Rightarrow>
          (apply_result oldest slot r f
             (receive_turn max_instant timeout ev now (assocs s (r_assoc r)) f r) s,
           answer_sent r)
      | _ \<Rightarrow> (s, None))"

section \<open>The datagram loop\<close>

text \<open>
  One datagram of \<open>udp_loop\<close>: the whitelist, the parser, the registry and the permit, in
  this order; what passes becomes a packet task.
\<close>

definition udp_datagram :: "config \<Rightarrow> bool \<Rightarrow> socket_addr \<Rightarrow> u8 list \<Rightarrow> relay \<Rightarrow> relay" where
  "udp_datagram cfg permit source datagram s =
     (if \<not> wl_allows (cfg_whitelist cfg) (sock_ip source) then s
      else
        (case parse_datagram (take RELAY_BUFFER_SIZE datagram) of
           Inl _ \<Rightarrow> s
         | Inr (target, payload) \<Rightarrow>
             (case reg_find source (assocs s, reg s) of
                (None, h, r) \<Rightarrow> s\<lparr>assocs := h, reg := r\<rparr>
              | (Some a, h, r) \<Rightarrow>
                  if \<not> permit then s\<lparr>assocs := h, reg := r\<rparr>
                  else
                    s\<lparr>assocs := h, reg := r,
                      packets := (packets s)(next_packet s \<mapsto>
                        \<lparr>t_assoc = a, t_target = target, t_payload = payload, t_attempts = 0,
                         t_stale = 0, t_stage = Begin\<rparr>),
                      next_packet := Suc (next_packet s)\<rparr>)))"

text \<open>What a receive error does to the loop: two kinds are skipped, the others end it.\<close>

definition udp_receive_error :: "io_error \<Rightarrow> (io_error + unit) option" where
  "udp_receive_error e =
     (if error_kind e \<in> {ConnectionReset, ConnectionRefused} then None else Some (Inl e))"

section \<open>Interleavings\<close>

fun held_slot :: "stage \<Rightarrow> nat option" where
  "held_slot Begin = None"
| "held_slot Choose = None"
| "held_slot (Got k) = Some k"
| "held_slot (Init k addresses start) = Some k"
| "held_slot (Have k) = Some k"
| "held_slot (Sending k) = Some k"

definition held_slots :: "relay \<Rightarrow> nat set" where
  "held_slots s = {k. \<exists>t \<in> ran (packets s). held_slot (t_stage t) = Some k}"

definition mapped_slots :: "relay \<Rightarrow> nat set" where
  "mapped_slots s = (\<Union>a. ran (flows (assocs s a)))"

text \<open>The slots that something refers to: a map, a packet task or a receiver.\<close>

definition live_slots :: "relay \<Rightarrow> nat set" where
  "live_slots s = mapped_slots s \<union> held_slots s \<union> dom (receivers s)"

text \<open>An admissible eviction: some key, if there is one.\<close>

definition evicts :: "target option \<Rightarrow> (target \<rightharpoonup> nat) \<Rightarrow> bool" where
  "evicts oldest m \<longleftrightarrow> (case oldest of None \<Rightarrow> m = Map.empty | Some k \<Rightarrow> k \<in> dom m)"

definition event_enabled :: "nat \<Rightarrow> receive_event \<Rightarrow> association \<Rightarrow> flow \<Rightarrow> bool" where
  "event_enabled timeout ev a f \<longleftrightarrow>
     (case ev of
        Association_stopped \<Rightarrow> stopped a
      | Flow_stopped \<Rightarrow> f_stopped f
      | Deadline_passed \<Rightarrow> timeout \<noteq> 0
      | _ \<Rightarrow> True)"

text \<open>
  The steps of the relay's own tasks: a datagram, a packet task, a receiver. \<open>horizon\<close> bounds
  the clock.
\<close>

inductive relay_moves :: "config \<Rightarrow> nat \<Rightarrow> nat \<Rightarrow> relay \<Rightarrow> relay \<Rightarrow> bool"
  for cfg :: config and max_instant horizon :: nat where
  relay_datagram: "(permit \<Longrightarrow> card (dom (packets s)) < MAX_UDP_PACKET_TASKS) \<Longrightarrow>
    relay_moves cfg max_instant horizon s (udp_datagram cfg permit source datagram s)"
| relay_packet: "(in_permit inp \<Longrightarrow> card (live_slots s) < MAX_UDP_FLOWS) \<Longrightarrow>
    (\<And>t. packets s i = Some t \<Longrightarrow> evicts (in_oldest inp) (preferred (assocs s (t_assoc t)))) \<Longrightarrow>
    in_now inp \<le> horizon \<Longrightarrow>
    relay_moves cfg max_instant horizon s (packet_step inp i s)"
| relay_reply: "(\<And>r f. receivers s slot = Some r \<Longrightarrow> cells s slot = Some (Some f) \<Longrightarrow>
      evicts oldest (preferred (assocs s (r_assoc r))) \<and>
      event_enabled (unat (cfg_udp_timeout cfg)) ev (assocs s (r_assoc r)) f) \<Longrightarrow>
    now \<le> horizon \<Longrightarrow>
    relay_moves cfg max_instant horizon s
      (fst (receiver_step max_instant (unat (cfg_udp_timeout cfg)) oldest now ev slot s))"

text \<open>They interleave with whatever the control connections do to the registry.\<close>

inductive udp_step :: "config \<Rightarrow> nat \<Rightarrow> nat \<Rightarrow> relay \<Rightarrow> relay \<Rightarrow> bool"
  for cfg :: config and max_instant horizon :: nat where
  udp_task: "relay_moves cfg max_instant horizon s t \<Longrightarrow> udp_step cfg max_instant horizon s t"
| udp_control: "reg_step (assocs s, reg s) (h, r) \<Longrightarrow>
    (\<And>a. flows (h a) = flows (assocs s a) \<and> preferred (h a) = preferred (assocs s a)) \<Longrightarrow>
    udp_step cfg max_instant horizon s (s\<lparr>assocs := h, reg := r\<rparr>)"

lemmas udp_receive = udp_task [OF relay_datagram]
lemmas udp_packet = udp_task [OF relay_packet]
lemmas udp_reply = udp_task [OF relay_reply]

lemma relay_moves_udp: "(relay_moves cfg mx hz)\<^sup>*\<^sup>* s t \<Longrightarrow> (udp_step cfg mx hz)\<^sup>*\<^sup>* s t"
  by (induction rule: rtranclp_induct) (auto intro: rtranclp.rtrancl_into_rtrancl udp_task)

lemma udp_step_cases [consumes 1, case_names udp_receive udp_packet udp_reply udp_control, cases pred: udp_step]:
  assumes "udp_step cfg max_instant horizon s s'"
  obtains (udp_receive) permit source datagram where "s' = udp_datagram cfg permit source datagram s"
      "permit \<Longrightarrow> card (dom (packets s)) < MAX_UDP_PACKET_TASKS"
  | (udp_packet) inp i where "s' = packet_step inp i s"
      "in_permit inp \<Longrightarrow> card (live_slots s) < MAX_UDP_FLOWS"
      "\<And>t. packets s i = Some t \<Longrightarrow> evicts (in_oldest inp) (preferred (assocs s (t_assoc t)))"
      "in_now inp \<le> horizon"
  | (udp_reply) slot oldest ev now where
      "s' = fst (receiver_step max_instant (unat (cfg_udp_timeout cfg)) oldest now ev slot s)"
      "\<And>r f. receivers s slot = Some r \<Longrightarrow> cells s slot = Some (Some f) \<Longrightarrow>
        evicts oldest (preferred (assocs s (r_assoc r))) \<and>
        event_enabled (unat (cfg_udp_timeout cfg)) ev (assocs s (r_assoc r)) f"
      "now \<le> horizon"
  | (udp_control) h r where "s' = s\<lparr>assocs := h, reg := r\<rparr>" "reg_step (assocs s, reg s) (h, r)"
      "\<And>a. flows (h a) = flows (assocs s a) \<and> preferred (h a) = preferred (assocs s a)"
  using assms
proof (cases rule: udp_step.cases)
  case udp_task
  then show thesis
    by (cases rule: relay_moves.cases) (use udp_receive udp_packet udp_reply in blast)+
qed (use udp_control in blast)

definition udp_start :: "relay \<Rightarrow> bool" where
  "udp_start s \<longleftrightarrow>
     reg s = reg_default \<and> (\<forall>a. flows (assocs s a) = Map.empty \<and> preferred (assocs s a) = Map.empty) \<and>
     cells s = (\<lambda>_. None) \<and> packets s = Map.empty \<and> receivers s = Map.empty"

section \<open>What the pieces change\<close>

lemma relay_updates [simp]:
  "assocs (set_cell k c s) = assocs s" "assocs (set_stage i t g s) = assocs s"
  "assocs (end_packet i s) = assocs s"
  "cells (upd_assoc a fn s) = cells s" "cells (set_stage i t g s) = cells s"
  "cells (end_packet i s) = cells s" "cells (set_cell k c s) = (cells s)(k := Some c)"
  "packets (upd_assoc a fn s) = packets s" "packets (set_cell k c s) = packets s"
  "packets (set_stage i t g s) = (packets s)(i \<mapsto> t\<lparr>t_stage := g\<rparr>)"
  "packets (end_packet i s) = (packets s)(i := None)"
  "receivers (upd_assoc a fn s) = receivers s" "receivers (set_cell k c s) = receivers s"
  "receivers (set_stage i t g s) = receivers s" "receivers (end_packet i s) = receivers s"
  "next_slot (upd_assoc a fn s) = next_slot s" "next_slot (set_cell k c s) = next_slot s"
  "next_slot (set_stage i t g s) = next_slot s" "next_slot (end_packet i s) = next_slot s"
  "next_packet (upd_assoc a fn s) = next_packet s" "next_packet (set_cell k c s) = next_packet s"
  "next_packet (set_stage i t g s) = next_packet s" "next_packet (end_packet i s) = next_packet s"
  "reg (upd_assoc a fn s) = reg s" "reg (set_cell k c s) = reg s"
  "reg (set_stage i t g s) = reg s" "reg (end_packet i s) = reg s"
  "assocs (upd_assoc a fn s) = (assocs s)(a := fn (assocs s a))"
  by (simp_all add: upd_assoc_def set_cell_def set_stage_def end_packet_def)

lemma remember_keeps [simp]:
  "flows (remember_udp_address oldest target i a) = flows a"
  "alive (remember_udp_address oldest target i a) = alive a"
  by (simp_all add: remember_udp_address_def Let_def)

lemma advance_keeps [simp]:
  "flows (advance_udp_address oldest target f a) = flows a"
  "alive (advance_udp_address oldest target f a) = alive a"
  by (simp_all add: advance_udp_address_def)

lemma remove_flow_slot_simps [simp]:
  "preferred (remove_flow_slot target k a) = preferred a"
  "alive (remove_flow_slot target k a) = alive a"
  "flows (remove_flow_slot target k a) =
     (if flows a target = Some k then (flows a)(target := None) else flows a)"
  by (simp_all add: remove_flow_slot_def)

text \<open>Every one of them is a change of the flows and the preferred addresses only.\<close>

lemma flows_update_exists:
  "\<exists>fs ps. remember_udp_address oldest target i a = a\<lparr>flows := fs, preferred := ps\<rparr>"
  "\<exists>fs ps. advance_udp_address oldest target f a = a\<lparr>flows := fs, preferred := ps\<rparr>"
  "\<exists>fs ps. remove_flow_slot target k a = a\<lparr>flows := fs, preferred := ps\<rparr>"
proof -
  have e: "\<exists>fs ps. a\<lparr>preferred := qs\<rparr> = a\<lparr>flows := fs, preferred := ps\<rparr>"
    "\<exists>fs ps. a\<lparr>flows := gs\<rparr> = a\<lparr>flows := fs, preferred := ps\<rparr>"
    "\<exists>fs ps. a = a\<lparr>flows := fs, preferred := ps\<rparr>" for gs qs
    by (intro exI [of _ "flows a"] exI [of _ qs], simp,
        intro exI [of _ gs] exI [of _ "preferred a"], simp,
        intro exI [of _ "flows a"] exI [of _ "preferred a"], simp)
  show r: "\<exists>fs ps. remember_udp_address oldest target i a = a\<lparr>flows := fs, preferred := ps\<rparr>" for i
    unfolding remember_udp_address_def Let_def by (rule e)
  show "\<exists>fs ps. advance_udp_address oldest target f a = a\<lparr>flows := fs, preferred := ps\<rparr>"
    unfolding advance_udp_address_def using r e(3) by (cases "f_count f > 1") simp_all
  show "\<exists>fs ps. remove_flow_slot target k a = a\<lparr>flows := fs, preferred := ps\<rparr>"
    unfolding remove_flow_slot_def using e(2,3) by (cases "flows a target = Some k") simp_all
qed

text \<open>The preferred addresses stay within their bound, whichever key is evicted.\<close>

lemma remember_bounded:
  assumes "evicts oldest (preferred a)"
  shows "bounded_change MAX_FLOWS_PER_ASSOCIATION (dom (preferred a))
    (dom (preferred (remember_udp_address oldest target i a)))"
proof (cases "target \<in> dom (preferred a)")
  case True
  then show ?thesis
    by (intro bounded_keep) (auto simp: remember_udp_address_def Let_def)
next
  case new: False
  show ?thesis
  proof (cases "map_len (preferred a) \<ge> MAX_FLOWS_PER_ASSOCIATION")
    case True
    then obtain k where k: "oldest = Some k" "k \<in> dom (preferred a)"
      using assms by (auto simp: evicts_def MAX_FLOWS_PER_ASSOCIATION_def split: option.splits)
    then show ?thesis
      using True new by (intro bounded_trade [of k _ _ target]) (auto simp: remember_udp_address_def Let_def)
  next
    case False
    then show ?thesis
      by (intro bounded_add [of _ target]) (simp_all add: remember_udp_address_def Let_def map_len_def)
  qed
qed

lemma remember_lookup:
  "preferred (remember_udp_address oldest target i a) target = Some i"
  by (simp add: remember_udp_address_def Let_def)

section \<open>The steps, case by case\<close>

text \<open>One equation per stage, in the terms the cases below are stated in.\<close>

lemma packet_step_Begin:
  "packets s i = Some t \<Longrightarrow> t_stage t = Begin \<Longrightarrow>
     packet_step inp i s =
       (if alive (assocs s (t_assoc t)) then set_stage i t Choose s else end_packet i s)"
  by (simp add: packet_step_def)

lemma packet_step_Choose:
  "packets s i = Some t \<Longrightarrow> t_stage t = Choose \<Longrightarrow>
     packet_step inp i s =
       (case flows (assocs s (t_assoc t)) (t_target t) of
          Some k \<Rightarrow> set_stage i t (Got k) s
        | None \<Rightarrow>
            if card (dom (flows (assocs s (t_assoc t)))) < MAX_FLOWS_PER_ASSOCIATION \<and> in_permit inp
            then set_stage i t (Got (next_slot s))
              ((upd_assoc (t_assoc t) (\<lambda>x. x\<lparr>flows := (flows x)(t_target t \<mapsto> next_slot s)\<rparr>) s)
                 \<lparr>cells := (cells s)(next_slot s := None), next_slot := Suc (next_slot s)\<rparr>)
            else end_packet i s)"
  by (auto simp: packet_step_def choose_slot_def map_len_def Let_def split: option.splits)

lemma packet_step_Got:
  "packets s i = Some t \<Longrightarrow> t_stage t = Got k \<Longrightarrow>
     packet_step inp i s =
       (if cells s k \<noteq> None then set_stage i t (Have k) s
        else if initialising s k then s
        else
          (case dns_lookup (\<lambda>_. in_answer inp) (t_target t) of
             Inl _ \<Rightarrow> set_stage i t (Have k) (set_cell k None s)
           | Inr addresses \<Rightarrow> set_stage i t (Init k addresses
               (start_index (preferred (assocs s (t_assoc t))) (t_target t) (length addresses))) s))"
  by (auto simp: packet_step_def begin_init_def split: option.splits)

lemma packet_step_Have:
  "packets s i = Some t \<Longrightarrow> t_stage t = Have k \<Longrightarrow> cells s k = Some (Some f) \<Longrightarrow>
     packet_step inp i s =
       (if \<not> f_active f
        then if t_stale t < 2
          then set_stage i (t\<lparr>t_stale := t_stale t + 1\<rparr>) Choose
            (upd_assoc (t_assoc t) (remove_flow_slot (t_target t) k) s)
          else end_packet i (upd_assoc (t_assoc t) (remove_flow_slot (t_target t) k) s)
        else if alive (assocs s (t_assoc t)) \<and> \<not> f_poisoned f
        then set_stage i (t\<lparr>t_attempts := t_attempts t + 1\<rparr>) (Sending k)
          (set_cell k (Some (f\<lparr>f_last := in_now inp\<rparr>)) s)
        else end_packet i s)"
  by (simp add: packet_step_def use_flow_def Let_def)

lemma packet_step_Sending:
  "packets s i = Some t \<Longrightarrow> t_stage t = Sending k \<Longrightarrow> cells s k = Some (Some f) \<Longrightarrow>
     packet_step inp i s =
       (if in_sent inp then end_packet i
          (if f_poisoned f then s else set_cell k (Some (f\<lparr>f_last := in_now inp\<rparr>)) s)
        else
          (let s1 = upd_assoc (t_assoc t) (remove_flow_slot (t_target t) k)
             (set_cell k (Some (f\<lparr>f_active := False, f_stopped := True\<rparr>))
               (if f_active f
                then upd_assoc (t_assoc t) (advance_udp_address (in_oldest inp) (t_target t) f) s else s))
           in if f_count f \<le> t_attempts t then end_packet i s1 else set_stage i t Choose s1))"
  by (simp add: packet_step_def finish_send_def Let_def)

lemma packet_step_cases:
  obtains (idle) "packet_step inp i s = s"
  | (gone) t where "packets s i = Some t" "packet_step inp i s = end_packet i s"
      "\<And>k. held_slot (t_stage t) = Some k \<Longrightarrow> \<exists>f. cells s k = Some (Some f)"
  | (live) t where "packets s i = Some t" "t_stage t = Begin"
      "packet_step inp i s = set_stage i t Choose s"
  | (reuse) t k where "packets s i = Some t" "t_stage t = Choose"
      "flows (assocs s (t_assoc t)) (t_target t) = Some k"
      "packet_step inp i s = set_stage i t (Got k) s"
  | (alloc) t where "packets s i = Some t" "t_stage t = Choose" "in_permit inp"
      "flows (assocs s (t_assoc t)) (t_target t) = None"
      "card (dom (flows (assocs s (t_assoc t)))) < MAX_FLOWS_PER_ASSOCIATION"
      "packet_step inp i s = set_stage i t (Got (next_slot s))
        ((upd_assoc (t_assoc t) (\<lambda>x. x\<lparr>flows := (flows x)(t_target t \<mapsto> next_slot s)\<rparr>) s)
           \<lparr>cells := (cells s)(next_slot s := None), next_slot := Suc (next_slot s)\<rparr>)"
  | (ready) t k where "packets s i = Some t" "t_stage t = Got k" "cells s k \<noteq> None"
      "packet_step inp i s = set_stage i t (Have k) s"
  | (no_answer) t k where "packets s i = Some t" "t_stage t = Got k" "cells s k = None"
      "\<not> initialising s k" "packet_step inp i s = set_stage i t (Have k) (set_cell k None s)"
  | (answer) t k addresses start where "packets s i = Some t" "t_stage t = Got k"
      "cells s k = None" "\<not> initialising s k"
      "dns_lookup (\<lambda>_. in_answer inp) (t_target t) = Inr addresses"
      "start = start_index (preferred (assocs s (t_assoc t))) (t_target t) (length addresses)"
      "packet_step inp i s = set_stage i t (Init k addresses start) s"
  | (no_address) t k addresses start where "packets s i = Some t"
      "t_stage t = Init k addresses start"
      "packet_step inp i s = set_stage i t (Have k) (set_cell k None s)"
  | (opened) t k addresses start index s1 where "packets s i = Some t"
      "t_stage t = Init k addresses start"
      "select_address (in_usable inp) addresses start = Some index"
      "s1 = (if length addresses > 1
             then upd_assoc (t_assoc t) (remember_udp_address (in_oldest inp) (t_target t) index) s
             else s)"
      "packet_step inp i s = set_stage i t (Have k)
         ((set_cell k (Some \<lparr>f_peer = addresses ! index, f_index = index, f_count = length addresses, f_active = True,
             f_stopped = False, f_last = in_now inp, f_poisoned = False\<rparr>) s1)
           \<lparr>receivers := (receivers s)(k \<mapsto>
              \<lparr>r_assoc = t_assoc t, r_target = t_target t, r_dest = addresses ! index,
               r_buffer = replicate RELAY_BUFFER_SIZE 0, r_replied = False, r_stage = Top\<rparr>)\<rparr>)"
  | (no_flow) t k where "packets s i = Some t" "t_stage t = Have k" "cells s k = Some None"
      "packet_step inp i s =
         end_packet i (upd_assoc (t_assoc t) (remove_flow_slot (t_target t) k) s)"
  | (stale_end) t k f where "packets s i = Some t" "t_stage t = Have k"
      "cells s k = Some (Some f)" "\<not> f_active f"
      "packet_step inp i s =
         end_packet i (upd_assoc (t_assoc t) (remove_flow_slot (t_target t) k) s)"
  | (stale) t k f where "packets s i = Some t" "t_stage t = Have k"
      "cells s k = Some (Some f)" "\<not> f_active f" "t_stale t < 2"
      "packet_step inp i s = set_stage i (t\<lparr>t_stale := t_stale t + 1\<rparr>) Choose
         (upd_assoc (t_assoc t) (remove_flow_slot (t_target t) k) s)"
  | (send) t k f where "packets s i = Some t" "t_stage t = Have k"
      "cells s k = Some (Some f)" "f_active f" "alive (assocs s (t_assoc t))" "\<not> f_poisoned f"
      "packet_step inp i s = set_stage i (t\<lparr>t_attempts := t_attempts t + 1\<rparr>) (Sending k)
         (set_cell k (Some (f\<lparr>f_last := in_now inp\<rparr>)) s)"
  | (sent) t k f where "packets s i = Some t" "t_stage t = Sending k" "cells s k = Some (Some f)"
      "packet_step inp i s = end_packet i (set_cell k (Some (f\<lparr>f_last := in_now inp\<rparr>)) s)"
  | (failed) t k f s1 where "packets s i = Some t" "t_stage t = Sending k"
      "cells s k = Some (Some f)"
      "s1 = upd_assoc (t_assoc t) (remove_flow_slot (t_target t) k)
         (set_cell k (Some (f\<lparr>f_active := False, f_stopped := True\<rparr>))
           (if f_active f
            then upd_assoc (t_assoc t) (advance_udp_address (in_oldest inp) (t_target t) f) s else s))"
      "packet_step inp i s =
         (if f_count f \<le> t_attempts t then end_packet i s1 else set_stage i t Choose s1)"
proof (cases "packets s i")
  case None
  then show thesis by (intro idle) (simp add: packet_step_def)
next
  case t: (Some t)
  show thesis
  proof (cases "t_stage t")
    case Begin
    then show thesis
      using gone [OF t] live [OF t] by (cases "alive (assocs s (t_assoc t))") (simp_all add: packet_step_Begin t)
  next
    case Choose
    then show thesis
      using reuse [OF t Choose] alloc [OF t Choose] gone [OF t] packet_step_Choose [OF t Choose, of inp]
      by (cases "flows (assocs s (t_assoc t)) (t_target t)") (simp_all split: if_splits)
  next
    case (Got k)
    then show thesis
      using ready [OF t Got] idle no_answer [OF t Got] answer [OF t Got _ _ _ refl] packet_step_Got [OF t Got, of inp]
      by (cases "dns_lookup (\<lambda>_. in_answer inp) (t_target t)") (simp_all split: if_splits)
  next
    case (Init k addresses start)
    then show thesis
      using no_address [OF t] opened [OF t Init _ refl]
      by (cases "select_address (in_usable inp) addresses start")
        (auto simp: packet_step_def t end_init_def Let_def)
  next
    case (Have k)
    consider "cells s k = None" | "cells s k = Some None" | f where "cells s k = Some (Some f)"
      by (cases "cells s k") auto
    then show thesis
    proof cases
      case (3 f)
      show thesis
        using stale [OF t Have 3] stale_end [OF t Have 3] send [OF t Have 3] gone [OF t] packet_step_Have [OF t Have 3, of inp] 3
        by (simp add: Have split: if_splits)
    qed (use idle no_flow [OF t Have] Have in \<open>simp_all add: packet_step_def t use_flow_def\<close>)
  next
    case (Sending k)
    consider f where "cells s k = Some (Some f)" | "\<nexists>f. cells s k = Some (Some f)" by blast
    then show thesis
    proof cases
      case (1 f)
      show thesis
        using gone [OF t] sent [OF t Sending 1] failed [OF t Sending 1 refl] packet_step_Sending [OF t Sending 1, of inp] 1
        by (simp add: Sending Let_def split: if_splits)
    qed (use idle Sending in \<open>auto simp: packet_step_def t split: option.splits\<close>)
  qed
qed

end
