(* ===== verification/Udp_Flows.thy ===== *)
theory Udp_Flows
  imports Udp_Relay
begin

text \<open>
  What holds of the UDP relay however its tasks interleave: the four bounds, that no flow
  slot is leaked, that the registry's guarantees survive, and that a packet task ends. The
  packing of an answer is here too.
\<close>

section \<open>Packing an answer\<close>

text \<open>A buffer of a free part, the gap of the header and the rest.\<close>

lemma pack_reply_parts:
  assumes "length g1 = 22 - datagram_header_len dest" "length g2 = datagram_header_len dest"
    and "n \<le> length rest"
  shows "pack_reply (g1 @ g2 @ rest) n dest =
    Some (g1 @ encode_address [0, 0, 0] dest @ rest, encode_datagram dest (take n rest))"
proof -
  have h: "length (encode_address [0, 0, 0] dest) = length g2"
    using length_encode_address [of dest] datagram_header_len_le [of dest] assms
    by (subst encode_address_wire) simp
  have g: "length g1 + length g2 = 22" and s: "22 - datagram_header_len dest = length g1"
    using assms datagram_header_len_le [of dest] by simp_all
  have w: "write_datagram_header g2 dest = Some (encode_address [0, 0, 0] dest)"
    using assms(2) by (subst write_datagram_header_eq) simp_all
  have e: "encode_datagram dest r = encode_address [0, 0, 0] dest @ r" for r
    by (subst encode_address_wire) (simp add: encode_datagram_wire)
  show ?thesis
    unfolding pack_reply_def Let_def s e unfolding g [symmetric] by (simp add: w h)
qed

lemma pack_reply_eq:
  assumes "22 + n \<le> length buffer"
  shows "\<exists>buffer'. pack_reply buffer n dest = Some (buffer', encode_datagram dest (take n (drop 22 buffer))) \<and>
    length buffer' = length buffer"
proof -
  have hl: "datagram_header_len dest \<le> 22" by (rule datagram_header_len_le)
  obtain g1 gr where 1: "buffer = g1 @ gr" "length g1 = 22 - datagram_header_len dest"
    using list_split_at [of "22 - datagram_header_len dest" buffer] assms by fastforce
  obtain g2 rest where 2: "gr = g2 @ rest" "length g2 = datagram_header_len dest"
    using list_split_at [of "datagram_header_len dest" gr] assms 1 hl by fastforce
  have h: "length (encode_address [0, 0, 0] dest) = length g2"
    using length_encode_address [of dest] datagram_header_len_le [of dest] 2
    by (subst encode_address_wire) simp
  have l: "length g1 + length g2 = 22"
    using 1 2 hl by simp
  then have "drop 22 buffer = rest" "n \<le> length rest"
    using assms by (simp_all add: 1(1) 2(1) flip: l)
  then show ?thesis
    using pack_reply_parts [OF 1(2) 2(2), of n rest] h by (simp add: 1(1) 2(1))
qed

text \<open>What is received is behind the gap, and the buffer keeps its length.\<close>

lemma receive_into_parts:
  assumes "receive_into buffer d = (buffer', n)" "22 \<le> length buffer"
  shows "length buffer' = length buffer" "n = min (length buffer - 22) (length d)"
    "take n (drop 22 buffer') = take (length buffer - 22) d"
  using assms by (auto simp: receive_into_def Let_def min_def)

text \<open>
  The buffer of a receiver has its full length, an answer that was accepted is in it, and the
  packet on its way is a datagram from the destination of the flow.
\<close>

definition buffer_ok :: "receiver \<Rightarrow> bool" where
  "buffer_ok r \<longleftrightarrow> length (r_buffer r) = RELAY_BUFFER_SIZE \<and>
     (case r_stage r of
        Answering n \<Rightarrow> 22 + n \<le> RELAY_BUFFER_SIZE
      | Replying packet source \<Rightarrow>
          \<exists>d. packet = encode_datagram (r_dest r) d \<and> length d \<le> RELAY_BUFFER_SIZE - 22
      | _ \<Rightarrow> True)"

section \<open>Receivers, case by case\<close>

text \<open>A step that goes on keeps what the receiver is for, and the buffer in order.\<close>

lemma receive_turn_Next:
  assumes "receive_turn mx tmo ev now a f r = Next r' at"
  shows "r_assoc r' = r_assoc r \<and> r_target r' = r_target r \<and> r_dest r' = r_dest r"
    and "at = f_last f \<or> at = now"
  using assms
  by (auto simp: receive_turn_def receive_top_def receive_event_def receive_answer_def Let_def
      split: receive_stage.splits if_splits receive_event.splits option.splits prod.splits)

lemma receive_turn_buffer:
  assumes "receive_turn mx tmo ev now a f r = Next r' at" "buffer_ok r"
  shows "buffer_ok r'"
proof (cases "r_stage r")
  case Top
  then show ?thesis
    using assms by (auto simp: receive_turn_def receive_top_def buffer_ok_def split: if_splits)
next
  case Waiting
  have "length (r_buffer r) = RELAY_BUFFER_SIZE"
    using assms(2) by (simp add: buffer_ok_def)
  then show ?thesis
    using assms(1) receive_into_parts(1,2) [of "r_buffer r"]
    by (fastforce simp: receive_turn_def receive_event_def Waiting buffer_ok_def RELAY_BUFFER_SIZE_def
        split: receive_event.splits if_splits prod.splits)
next
  case (Answering n)
  then have l: "length (r_buffer r) = RELAY_BUFFER_SIZE" "22 + n \<le> length (r_buffer r)"
    using assms(2) by (simp_all add: buffer_ok_def)
  then show ?thesis
    using assms(1) pack_reply_eq [OF l(2), of "r_dest r"]
    by (auto simp: receive_turn_def receive_answer_def Answering buffer_ok_def split: option.splits
        intro!: exI [of _ "take n (drop 22 (r_buffer r))"])
next
  case (Replying packet source)
  then show ?thesis
    using assms by (auto simp: receive_turn_def buffer_ok_def)
qed

lemma receive_turn_Panic:
  assumes "receive_turn mx tmo ev now a f r = Panic p"
  shows "f_poisoned f \<or> f_last f + tmo > mx \<and> tmo \<noteq> 0 \<and> r_stage r = Top \<or> \<not> buffer_ok r"
proof (cases "r_stage r")
  case (Answering n)
  then show ?thesis
    using assms pack_reply_eq [of n "r_buffer r" "r_dest r"]
    by (auto simp: receive_turn_def receive_answer_def buffer_ok_def split: option.splits)
qed (use assms in \<open>auto simp: receive_turn_def receive_top_def receive_event_def Let_def
        split: if_splits receive_event.splits prod.splits\<close>)

lemma receiver_step_cases:
  obtains (idle) "fst (receiver_step mx tmo oldest now ev k s) = s"
  | (exit) r f failed where "receivers s k = Some r" "cells s k = Some (Some f)"
      "fst (receiver_step mx tmo oldest now ev k s) = end_receiver oldest failed k r f s"
  | (panic) r f p where "receivers s k = Some r" "cells s k = Some (Some f)"
      "f_poisoned f \<or> f_last f + tmo > mx \<and> tmo \<noteq> 0 \<and> r_stage r = Top \<or> \<not> buffer_ok r"
      "fst (receiver_step mx tmo oldest now ev k s) =
         (set_cell k (Some (f\<lparr>f_poisoned := p\<rparr>)) s)\<lparr>receivers := (receivers s)(k := None)\<rparr>"
  | (go_on) r f r' at where "receivers s k = Some r" "cells s k = Some (Some f)"
      "receive_turn mx tmo ev now (assocs s (r_assoc r)) f r = Next r' at"
      "r_assoc r' = r_assoc r" "r_target r' = r_target r" "r_dest r' = r_dest r"
      "buffer_ok r \<Longrightarrow> buffer_ok r'" "at = f_last f \<or> at = now"
      "fst (receiver_step mx tmo oldest now ev k s) =
         (set_cell k (Some (f\<lparr>f_last := at\<rparr>)) s)\<lparr>receivers := (receivers s)(k \<mapsto> r')\<rparr>"
proof (cases "\<exists>r f. receivers s k = Some r \<and> cells s k = Some (Some f)")
  case False
  then show thesis
    by (intro idle) (auto simp: receiver_step_def split: option.splits)
next
  case True
  then obtain r f where r: "receivers s k = Some r" and f: "cells s k = Some (Some f)" by blast
  let ?turn = "receive_turn mx tmo ev now (assocs s (r_assoc r)) f r"
  have step: "fst (receiver_step mx tmo oldest now ev k s) = apply_result oldest k r f ?turn s"
    by (simp add: receiver_step_def r f)
  show thesis
  proof (cases ?turn)
    case (Exit failed)
    then show thesis by (intro exit [OF r f]) (simp add: step apply_result_def)
  next
    case (Panic p)
    then show thesis
      using receive_turn_Panic by (intro panic [OF r f]) (simp_all add: step apply_result_def)
  next
    case (Next r' at)
    note keeps = receive_turn_Next [OF Next]
    show thesis
      by (rule go_on [OF r f Next])
        (use keeps receive_turn_buffer [OF Next] in \<open>simp_all add: step apply_result_def Next\<close>)
  qed
qed

text \<open>What is sent is the packet of a receiver in the stage of the sending.\<close>

lemma receiver_step_sends:
  "snd (receiver_step mx tmo oldest now ev k s) = Some (packet, source) \<longleftrightarrow>
     (\<exists>r f. receivers s k = Some r \<and> cells s k = Some (Some f) \<and> r_stage r = Replying packet source)"
  by (auto simp: receiver_step_def answer_sent_def split: option.splits receive_stage.splits)

text \<open>What a finished receiver leaves behind.\<close>

lemma end_receiver_simps [simp]:
  "receivers (end_receiver oldest failed k r f s) = (receivers s)(k := None)"
  "packets (end_receiver oldest failed k r f s) = packets s"
  "cells (end_receiver oldest failed k r f s) = (cells s)(k \<mapsto> Some (f\<lparr>f_active := False\<rparr>))"
  "next_slot (end_receiver oldest failed k r f s) = next_slot s"
  "next_packet (end_receiver oldest failed k r f s) = next_packet s"
  "reg (end_receiver oldest failed k r f s) = reg s"
  by (simp_all add: end_receiver_def Let_def)

lemma end_receiver_flows [simp]:
  "flows (assocs (end_receiver oldest failed k r f s) a) =
     (if a = r_assoc r \<and> flows (assocs s a) (r_target r) = Some k
      then (flows (assocs s a))(r_target r := None) else flows (assocs s a))"
  by (simp add: end_receiver_def Let_def)

lemma end_receiver_preferred:
  "preferred (assocs (end_receiver oldest failed k r f s) a) =
     (if a = r_assoc r \<and> f_active f \<and> failed
      then preferred (advance_udp_address oldest (r_target r) f (assocs s a))
      else preferred (assocs s a))"
  by (simp add: end_receiver_def Let_def)

section \<open>The datagram loop, case by case\<close>

lemma reg_find_flows:
  assumes "reg_find source (h, r) = (res, h', r')"
  shows "flows (h' a) = flows (h a) \<and> preferred (h' a) = preferred (h a)"
proof -
  have "flows (snd (accepts x source)) = flows x \<and> preferred (snd (accepts x source)) = preferred x"
    for x by (simp add: accepts_def split: option.splits)
  then show ?thesis
    using assms
    by (auto simp: reg_find_def Let_def split: option.splits if_splits prod.splits) (metis snd_conv)+
qed

lemma udp_datagram_cases:
  obtains (dropped) "udp_datagram cfg permit source d s = s"
  | (found) res h r where "reg_find source (assocs s, reg s) = (res, h, r)"
      "udp_datagram cfg permit source d s = s\<lparr>assocs := h, reg := r\<rparr>"
  | (spawned) a h r t where "reg_find source (assocs s, reg s) = (Some a, h, r)" permit
      "t_stage t = Begin" "t_assoc t = a" "t_attempts t = 0" "t_stale t = 0"
      "wl_allows (cfg_whitelist cfg) (sock_ip source)"
      "parse_datagram (take RELAY_BUFFER_SIZE d) = Inr (t_target t, t_payload t)"
      "udp_datagram cfg permit source d s = s\<lparr>assocs := h, reg := r,
         packets := (packets s)(next_packet s \<mapsto> t), next_packet := Suc (next_packet s)\<rparr>"
proof (cases "wl_allows (cfg_whitelist cfg) (sock_ip source)")
  case False
  then show thesis by (intro dropped) (simp add: udp_datagram_def)
next
  case wl: True
  show thesis
  proof (cases "parse_datagram (take RELAY_BUFFER_SIZE d)")
    case (Inl e)
    then show thesis by (intro dropped) (simp add: udp_datagram_def)
  next
    case (Inr tp)
    obtain tg p where tp: "tp = (tg, p)" by (cases tp)
    obtain res h r where f: "reg_find source (assocs s, reg s) = (res, h, r)"
      by (cases "reg_find source (assocs s, reg s)") auto
    show thesis
    proof (cases "res = None \<or> \<not> permit")
      case True
      then show thesis
        by (intro found [OF f]) (auto simp: udp_datagram_def wl Inr tp f split: option.splits)
    next
      case False
      then obtain a where a: "res = Some a" permit by auto
      show thesis
        by (rule spawned [of a h r "\<lparr>t_assoc = a, t_target = tg, t_payload = p, t_attempts = 0,
                         t_stale = 0, t_stage = Begin\<rparr>"])
          (use wl Inr tp f a in \<open>simp_all add: udp_datagram_def\<close>)
    qed
  qed
qed

section \<open>Bounds\<close>

subsection \<open>References to slots\<close>

lemma live_slots_subset:
  assumes "\<And>a t k. flows (assocs s a) t = Some k \<Longrightarrow> k \<in> B"
    and "\<And>i t k. packets s i = Some t \<Longrightarrow> held_slot (t_stage t) = Some k \<Longrightarrow> k \<in> B"
    and "dom (receivers s) \<subseteq> B"
  shows "live_slots s \<subseteq> B"
  using assms by (auto simp: live_slots_def mapped_slots_def held_slots_def ran_def)

lemma live_slots_intros:
  "flows (assocs s a) t = Some k \<Longrightarrow> k \<in> live_slots s"
  "packets s i = Some p \<Longrightarrow> held_slot (t_stage p) = Some k \<Longrightarrow> k \<in> live_slots s"
  "receivers s k = Some r \<Longrightarrow> k \<in> live_slots s"
  by (auto simp: live_slots_def mapped_slots_def held_slots_def ran_def)

lemma remove_flow_slot_Some:
  "flows (remove_flow_slot target k a) t = Some j \<Longrightarrow> flows a t = Some j"
  by (auto split: if_splits)

text \<open>What one step of a packet task can add to each of the four.\<close>

lemma packet_step_packets: "dom (packets (packet_step inp i s)) \<subseteq> dom (packets s)"
  by (rule packet_step_cases [of inp i s]) (auto split: if_splits)

lemma packet_step_flows:
  "bounded_change MAX_FLOWS_PER_ASSOCIATION (dom (flows (assocs s a)))
     (dom (flows (assocs (packet_step inp i s) a)))"
proof (rule packet_step_cases [of inp i s])
  fix t
  assume "card (dom (flows (assocs s (t_assoc t)))) < MAX_FLOWS_PER_ASSOCIATION"
    and "packet_step inp i s = set_stage i t (Got (next_slot s))
        ((upd_assoc (t_assoc t) (\<lambda>x. x\<lparr>flows := (flows x)(t_target t \<mapsto> next_slot s)\<rparr>) s)
           \<lparr>cells := (cells s)(next_slot s := None), next_slot := Suc (next_slot s)\<rparr>)"
  then show ?thesis
    by (cases "a = t_assoc t") (auto intro: bounded_add [of _ "t_target t"])
qed (auto intro!: bounded_keep split: if_splits)

lemma advance_bounded:
  "evicts oldest (preferred a) \<Longrightarrow>
     bounded_change MAX_FLOWS_PER_ASSOCIATION (dom (preferred a))
       (dom (preferred (advance_udp_address oldest target f a)))"
  by (simp add: advance_udp_address_def remember_bounded)

lemma packet_step_preferred:
  assumes "\<And>t. packets s i = Some t \<Longrightarrow> evicts (in_oldest inp) (preferred (assocs s (t_assoc t)))"
  shows "bounded_change MAX_FLOWS_PER_ASSOCIATION (dom (preferred (assocs s a)))
    (dom (preferred (assocs (packet_step inp i s) a)))"
  by (rule packet_step_cases [of inp i s])
    (use assms in \<open>auto simp: remember_bounded advance_bounded split: if_splits\<close>)

lemma packet_step_live:
  "live_slots (packet_step inp i s) \<subseteq> live_slots s \<or>
   in_permit inp \<and> live_slots (packet_step inp i s) \<subseteq> insert (next_slot s) (live_slots s)"
proof -
  note li = live_slots_intros
  show ?thesis
  proof (rule packet_step_cases [of inp i s])
    fix t
    assume "packets s i = Some t" "in_permit inp"
      and eq: "packet_step inp i s = set_stage i t (Got (next_slot s))
        ((upd_assoc (t_assoc t) (\<lambda>x. x\<lparr>flows := (flows x)(t_target t \<mapsto> next_slot s)\<rparr>) s)
           \<lparr>cells := (cells s)(next_slot s := None), next_slot := Suc (next_slot s)\<rparr>)"
    have "live_slots (packet_step inp i s) \<subseteq> insert (next_slot s) (live_slots s)"
      by (rule live_slots_subset) (auto simp: eq intro: li split: if_splits)
    then show ?thesis using \<open>in_permit inp\<close> by blast
  qed ((rule disjI1, rule live_slots_subset, auto intro: li split: if_splits)[1])+
qed

subsection \<open>The four resources\<close>

lemma udp_datagram_flows:
  "flows (assocs (udp_datagram cfg permit source d s) a) = flows (assocs s a)"
  "preferred (assocs (udp_datagram cfg permit source d s) a) = preferred (assocs s a)"
  by (rule udp_datagram_cases [of cfg permit source d s]; use reg_find_flows in fastforce)+

lemma udp_datagram_live:
  "live_slots (udp_datagram cfg permit source d s) \<subseteq> live_slots s"
proof (rule live_slots_subset)
  fix a t k
  assume "flows (assocs (udp_datagram cfg permit source d s) a) t = Some k"
  then show "k \<in> live_slots s"
    by (simp add: udp_datagram_flows live_slots_intros)
next
  fix i t k
  assume "packets (udp_datagram cfg permit source d s) i = Some t" "held_slot (t_stage t) = Some k"
  then show "k \<in> live_slots s"
    by (rule_tac udp_datagram_cases [of cfg permit source d s])
      (auto intro: live_slots_intros split: if_splits)
next
  show "dom (receivers (udp_datagram cfg permit source d s)) \<subseteq> live_slots s"
    by (rule udp_datagram_cases [of cfg permit source d s]) (auto intro: live_slots_intros)
qed

lemma receiver_step_flows:
  "dom (flows (assocs (fst (receiver_step mx tmo oldest now ev k s)) a)) \<subseteq> dom (flows (assocs s a))"
  by (rule receiver_step_cases [of mx tmo oldest now ev k s]) (auto split: if_splits)

lemma receiver_step_live:
  "live_slots (fst (receiver_step mx tmo oldest now ev k s)) \<subseteq> live_slots s"
  by (rule live_slots_subset; rule receiver_step_cases [of mx tmo oldest now ev k s])
    (auto intro: live_slots_intros split: if_splits)

lemma receiver_step_preferred:
  assumes "\<And>r f. receivers s k = Some r \<Longrightarrow> cells s k = Some (Some f) \<Longrightarrow>
      evicts oldest (preferred (assocs s (r_assoc r)))"
  shows "bounded_change MAX_FLOWS_PER_ASSOCIATION (dom (preferred (assocs s a)))
    (dom (preferred (assocs (fst (receiver_step mx tmo oldest now ev k s)) a)))"
  by (rule receiver_step_cases [of mx tmo oldest now ev k s])
    (use assms in \<open>auto simp: end_receiver_preferred advance_bounded\<close>)

lemma receiver_step_packets [simp]:
  "packets (fst (receiver_step mx tmo oldest now ev k s)) = packets s"
  by (rule receiver_step_cases [of mx tmo oldest now ev k s]) simp_all

interpretation packet_permits:
  bounded_resource udp_start "udp_step cfg mx hz" "\<lambda>s. dom (packets s)" MAX_UDP_PACKET_TASKS
  for cfg mx hz
proof
  fix s t assume "udp_step cfg mx hz s t"
  then show "bounded_change MAX_UDP_PACKET_TASKS (dom (packets s)) (dom (packets t))"
  proof cases
    case (udp_receive permit source d)
    show ?thesis
      by (rule udp_datagram_cases [of cfg permit source d s])
        (use udp_receive in \<open>auto intro!: bounded_add\<close>)
  qed (simp_all add: bounded_keep packet_step_packets)
qed (simp add: udp_start_def)

interpretation flow_entries:
  bounded_resource udp_start "udp_step cfg mx hz" "\<lambda>s. dom (flows (assocs s a))"
    MAX_FLOWS_PER_ASSOCIATION
  for cfg mx hz a
proof
  fix s t assume "udp_step cfg mx hz s t"
  then show "bounded_change MAX_FLOWS_PER_ASSOCIATION (dom (flows (assocs s a))) (dom (flows (assocs t a)))"
    by cases (simp_all add: udp_datagram_flows packet_step_flows bounded_keep receiver_step_flows)
qed (simp add: udp_start_def)

interpretation preferred_entries:
  bounded_resource udp_start "udp_step cfg mx hz" "\<lambda>s. dom (preferred (assocs s a))"
    MAX_FLOWS_PER_ASSOCIATION
  for cfg mx hz a
proof
  fix s t assume "udp_step cfg mx hz s t"
  then show "bounded_change MAX_FLOWS_PER_ASSOCIATION (dom (preferred (assocs s a)))
      (dom (preferred (assocs t a)))"
    by cases (simp_all add: udp_datagram_flows packet_step_preferred receiver_step_preferred)
qed (simp add: udp_start_def)

interpretation flow_permits:
  bounded_resource udp_start "udp_step cfg mx hz" live_slots MAX_UDP_FLOWS
  for cfg mx hz
proof
  fix s t assume "udp_step cfg mx hz s t"
  then show "bounded_change MAX_UDP_FLOWS (live_slots s) (live_slots t)"
  proof cases
    case (udp_packet inp i)
    from packet_step_live [of inp i s] show ?thesis
      using udp_packet by (auto intro: bounded_keep bounded_add)
  next
    case (udp_control h r)
    have "live_slots t \<subseteq> live_slots s"
      by (rule live_slots_subset) (use udp_control in \<open>auto intro: live_slots_intros\<close>)
    then show ?thesis by (rule bounded_keep)
  qed (simp_all add: bounded_keep udp_datagram_live receiver_step_live)
next
  fix s assume "udp_start s"
  then have "live_slots s \<subseteq> {}"
    by (intro live_slots_subset) (simp_all add: udp_start_def)
  then show "live_slots s = {}" by simp
qed

section \<open>No slot is leaked\<close>

text \<open>
  Who refers to a slot, and for which association and target: the map of the association, a
  packet task on its way, the receiver.
\<close>

inductive refs :: "relay \<Rightarrow> nat \<Rightarrow> nat \<Rightarrow> target \<Rightarrow> bool" for s :: relay where
  by_map: "flows (assocs s a) t = Some k \<Longrightarrow> refs s k a t"
| by_task: "packets s i = Some p \<Longrightarrow> held_slot (t_stage p) = Some k \<Longrightarrow>
    refs s k (t_assoc p) (t_target p)"
| by_receiver: "receivers s k = Some r \<Longrightarrow> refs s k (r_assoc r) (r_target r)"

inductive_simps refs_iff: "refs s k a t"

text \<open>All references to a slot agree, and only allocated slots are referred to.\<close>

definition slot_places :: "relay \<Rightarrow> bool" where
  "slot_places s \<longleftrightarrow>
     (\<forall>k a t. refs s k a t \<longrightarrow> k < next_slot s) \<and>
     (\<forall>k a t a' t'. refs s k a t \<longrightarrow> refs s k a' t' \<longrightarrow> a = a' \<and> t = t')"

lemma slot_places_less: "slot_places s \<Longrightarrow> refs s k a t \<Longrightarrow> k < next_slot s"
  and slot_places_same: "slot_places s \<Longrightarrow> refs s k a t \<Longrightarrow> refs s k a' t' \<Longrightarrow> a = a' \<and> t = t'"
  unfolding slot_places_def by blast+

text \<open>A step adds at most the slot it allocates, with one reference more than its own.\<close>

lemma slot_places_mono:
  assumes "slot_places s" "\<And>k a t. refs s' k a t \<Longrightarrow> refs s k a t" "next_slot s \<le> next_slot s'"
  shows "slot_places s'"
  using assms unfolding slot_places_def by (meson less_le_trans)

lemma slot_places_alloc:
  assumes "slot_places s" "next_slot s' = Suc (next_slot s)"
    and "\<And>k a t. refs s' k a t \<Longrightarrow> refs s k a t \<or> k = next_slot s \<and> a = a0 \<and> t = t0"
  shows "slot_places s'"
  using assms unfolding slot_places_def by (metis less_Suc_eq less_irrefl)

lemma refs_caseE:
  assumes "refs s k a t"
  obtains (by_map) "flows (assocs s a) t = Some k"
  | (by_task) i p where "packets s i = Some p" "held_slot (t_stage p) = Some k"
      "a = t_assoc p" "t = t_target p"
  | (by_receiver) r where "receivers s k = Some r" "a = r_assoc r" "t = r_target r"
  using assms by cases auto

lemma stage_refs:
  "packets s i = Some p \<Longrightarrow> t_stage p = Got k \<Longrightarrow> refs s k (t_assoc p) (t_target p)"
  "packets s i = Some p \<Longrightarrow> t_stage p = Init k as j \<Longrightarrow> refs s k (t_assoc p) (t_target p)"
  "packets s i = Some p \<Longrightarrow> t_stage p = Have k \<Longrightarrow> refs s k (t_assoc p) (t_target p)"
  "packets s i = Some p \<Longrightarrow> t_stage p = Sending k \<Longrightarrow> refs s k (t_assoc p) (t_target p)"
  by (auto intro: refs.by_task)

text \<open>The three kinds of reference, one at a time.\<close>

lemma packet_step_map:
  "flows (assocs (packet_step inp i s) a) t = Some k \<Longrightarrow>
     flows (assocs s a) t = Some k \<or>
     k = next_slot s \<and> next_slot (packet_step inp i s) = Suc (next_slot s) \<and>
     (\<exists>p. packets s i = Some p \<and> a = t_assoc p \<and> t = t_target p)"
  by (rule packet_step_cases [of inp i s]) (auto split: if_splits)

lemma packet_step_task:
  "packets (packet_step inp i s) j = Some p \<Longrightarrow> held_slot (t_stage p) = Some k \<Longrightarrow>
     refs s k (t_assoc p) (t_target p) \<or>
     k = next_slot s \<and> next_slot (packet_step inp i s) = Suc (next_slot s) \<and>
     (\<exists>q. packets s i = Some q \<and> t_assoc p = t_assoc q \<and> t_target p = t_target q)"
  by (rule packet_step_cases [of inp i s]) (auto intro: refs.intros stage_refs split: if_splits)

lemma packet_step_receiver:
  "receivers (packet_step inp i s) k = Some r \<Longrightarrow> refs s k (r_assoc r) (r_target r)"
  by (rule packet_step_cases [of inp i s]) (auto intro: refs.intros stage_refs split: if_splits)

lemma packet_step_refs:
  assumes "refs (packet_step inp i s) k a t"
  shows "refs s k a t \<or>
    k = next_slot s \<and> next_slot (packet_step inp i s) = Suc (next_slot s) \<and>
    (\<exists>p. packets s i = Some p \<and> a = t_assoc p \<and> t = t_target p)"
  using assms
proof (cases rule: refs_caseE)
  case by_map
  then show ?thesis using packet_step_map refs.by_map by blast
next
  case (by_task j p)
  then show ?thesis using packet_step_task [OF by_task(1,2)] by auto
next
  case (by_receiver r)
  then show ?thesis using packet_step_receiver by blast
qed

lemma packet_step_next_slot: "next_slot s \<le> next_slot (packet_step inp i s)"
  by (rule packet_step_cases [of inp i s]) auto

lemma packet_step_places:
  assumes "slot_places s"
  shows "slot_places (packet_step inp i s)"
proof (cases "next_slot (packet_step inp i s) = Suc (next_slot s)")
  case True
  obtain a0 t0 where "\<And>p. packets s i = Some p \<Longrightarrow> t_assoc p = a0 \<and> t_target p = t0"
    by (cases "packets s i") auto
  then have "refs s k a t \<or> k = next_slot s \<and> a = a0 \<and> t = t0"
    if "refs (packet_step inp i s) k a t" for k a t
    using packet_step_refs [OF that] by auto
  then show ?thesis
    by (rule slot_places_alloc [OF assms True])
next
  case False
  then have "refs s k a t" if "refs (packet_step inp i s) k a t" for k a t
    using packet_step_refs [OF that] by simp
  then show ?thesis
    using packet_step_next_slot by (rule slot_places_mono [OF assms])
qed

lemma receiver_step_receivers:
  "receivers (fst (receiver_step mx tmo oldest now ev k s)) j = Some r' \<Longrightarrow>
     \<exists>r. receivers s j = Some r \<and> r_assoc r' = r_assoc r \<and> r_target r' = r_target r"
  by (rule receiver_step_cases [of mx tmo oldest now ev k s]) (auto split: if_splits)

lemma receiver_step_map:
  "flows (assocs (fst (receiver_step mx tmo oldest now ev k s)) a) t = Some j \<Longrightarrow>
     flows (assocs s a) t = Some j"
  by (rule receiver_step_cases [of mx tmo oldest now ev k s]) (auto split: if_splits)

lemma receiver_step_next_slot [simp]:
  "next_slot (fst (receiver_step mx tmo oldest now ev k s)) = next_slot s"
  by (rule receiver_step_cases [of mx tmo oldest now ev k s]) auto

lemma receiver_step_refs:
  assumes "refs (fst (receiver_step mx tmo oldest now ev k s)) j a t"
  shows "refs s j a t"
  using assms
proof (cases rule: refs_caseE)
  case by_map
  then show ?thesis using receiver_step_map refs.by_map by blast
next
  case (by_task i p)
  then show ?thesis using refs.by_task [of s i p] by simp
next
  case (by_receiver r)
  then show ?thesis using receiver_step_receivers [OF by_receiver(1)] refs.by_receiver by metis
qed

lemma udp_datagram_refs:
  assumes "refs (udp_datagram cfg permit source d s) k a t"
  shows "refs s k a t"
  using assms
proof (cases rule: refs_caseE)
  case by_map
  then show ?thesis using refs.by_map by (simp add: udp_datagram_flows)
next
  case (by_task i p)
  then show ?thesis
    by (rule_tac udp_datagram_cases [of cfg permit source d s]) (auto intro: refs.intros split: if_splits)
next
  case (by_receiver r)
  then show ?thesis
    by (rule_tac udp_datagram_cases [of cfg permit source d s]) (auto intro: refs.intros)
qed

lemma udp_datagram_next_slot [simp]: "next_slot (udp_datagram cfg permit source d s) = next_slot s"
  by (rule udp_datagram_cases [of cfg permit source d s]) auto

lemma control_refs:
  assumes "\<And>a. flows (h a) = flows (assocs s a)" "refs (s\<lparr>assocs := h, reg := r\<rparr>) k a t"
  shows "refs s k a t"
  using assms(2) by (cases rule: refs_caseE) (auto simp: assms(1) intro: refs.intros)

lemma udp_step_places:
  assumes "udp_step cfg mx hz s s'" "slot_places s"
  shows "slot_places s'"
  using assms(1)
proof cases
  case (udp_control h r)
  show ?thesis
    unfolding udp_control(1)
    by (rule slot_places_mono [OF assms(2)]) (use udp_control control_refs in \<open>blast, simp\<close>)
qed (use assms(2) in \<open>auto intro: packet_step_places slot_places_mono receiver_step_refs udp_datagram_refs\<close>)

subsection \<open>The cells\<close>

text \<open>The address list of a flow is never empty and the index is one of it.\<close>

lemma select_address_less:
  "select_address usable addresses start = Some index \<Longrightarrow> index < length addresses \<and> usable (addresses ! index)"
  by (auto simp: select_address_def find_Some_iff intro!: mod_less_divisor)

text \<open>What the stages of the tasks and the receivers say about the cells.\<close>

definition stage_ok :: "relay \<Rightarrow> stage \<Rightarrow> bool" where
  "stage_ok s g \<longleftrightarrow>
     (case g of
        Init k addresses start \<Rightarrow> cells s k = None
      | Have k \<Rightarrow> cells s k \<noteq> None
      | Sending k \<Rightarrow> (\<exists>f. cells s k = Some (Some f))
      | _ \<Rightarrow> True)"

definition init_slot :: "stage \<Rightarrow> nat option" where
  "init_slot g = (case g of Init k addresses start \<Rightarrow> Some k | _ \<Rightarrow> None)"

lemma init_slot_simps [simp]:
  "init_slot Begin = None" "init_slot Choose = None" "init_slot (Got k) = None"
  "init_slot (Init k addresses start) = Some k" "init_slot (Have k) = None"
  "init_slot (Sending k) = None"
  by (simp_all add: init_slot_def)

definition slot_cells :: "relay \<Rightarrow> bool" where
  "slot_cells s \<longleftrightarrow>
     (\<forall>i p. packets s i = Some p \<longrightarrow> stage_ok s (t_stage p)) \<and>
     (\<forall>i j p q k. packets s i = Some p \<longrightarrow> packets s j = Some q \<longrightarrow>
        init_slot (t_stage p) = Some k \<longrightarrow> init_slot (t_stage q) = Some k \<longrightarrow> i = j) \<and>
     (\<forall>k r. receivers s k = Some r \<longrightarrow> (\<exists>f. cells s k = Some (Some f)))"

text \<open>The clock, and the buffers of the receivers.\<close>

definition clock_ok :: "nat \<Rightarrow> relay \<Rightarrow> bool" where
  "clock_ok hz s \<longleftrightarrow>
     (\<forall>k f. cells s k = Some (Some f) \<longrightarrow> f_last f \<le> hz \<and> f_index f < f_count f \<and> \<not> f_poisoned f) \<and>
     (\<forall>k r. receivers s k = Some r \<longrightarrow> buffer_ok r)"

text \<open>Every mapped slot has somebody who will take it out of the map.\<close>

fun opens_slot :: "stage \<Rightarrow> nat option" where
  "opens_slot Begin = None"
| "opens_slot Choose = None"
| "opens_slot (Got k) = Some k"
| "opens_slot (Init k addresses start) = Some k"
| "opens_slot (Have k) = Some k"
| "opens_slot (Sending k) = None"

fun_cases opens_slot_SomeE: "opens_slot g = Some k"

lemma opens_slot_held: "opens_slot g = Some k \<Longrightarrow> held_slot g = Some k"
  by (auto elim: opens_slot_SomeE)

definition owned :: "relay \<Rightarrow> nat \<Rightarrow> bool" where
  "owned s k \<longleftrightarrow>
     receivers s k \<noteq> None \<or>
     (\<not> (\<exists>f. cells s k = Some (Some f)) \<and>
      (\<exists>i p. packets s i = Some p \<and> opens_slot (t_stage p) = Some k))"

definition slots_owned :: "relay \<Rightarrow> bool" where
  "slots_owned s \<longleftrightarrow> (\<forall>a t k. flows (assocs s a) t = Some k \<longrightarrow> owned s k)"

lemma clock_step_packet:
  assumes "clock_ok hz s" "in_now inp \<le> hz"
  shows "clock_ok hz (packet_step inp i s)"
  unfolding clock_ok_def
proof (intro conjI allI impI)
  fix k f
  assume "cells (packet_step inp i s) k = Some (Some f)"
  then show "f_last f \<le> hz" "f_index f < f_count f" "\<not> f_poisoned f"
    by (rule_tac [!] packet_step_cases [of inp i s])
      (use assms in \<open>auto simp: clock_ok_def select_address_less split: if_splits\<close>)
next
  fix k r
  assume "receivers (packet_step inp i s) k = Some r"
  then show "buffer_ok r"
    by (rule_tac packet_step_cases [of inp i s])
      (use assms in \<open>auto simp: clock_ok_def buffer_ok_def split: if_splits\<close>)
qed

text \<open>As long as the clock plus the timeout is representable no receiver panics.\<close>

lemma receiver_panic_excluded:
  assumes "clock_ok hz s" "hz + tmo \<le> mx" "receivers s k = Some r" "cells s k = Some (Some f)"
  shows "\<not> (f_poisoned f \<or> f_last f + tmo > mx \<and> tmo \<noteq> 0 \<and> r_stage r = Top \<or> \<not> buffer_ok r)"
proof -
  have "buffer_ok r" "f_last f \<le> hz" "\<not> f_poisoned f"
    using assms(1,3,4) by (auto simp: clock_ok_def)
  then show ?thesis
    using assms(2) by simp
qed

lemma clock_step_receiver:
  assumes "clock_ok hz s" "now \<le> hz" "hz + tmo \<le> mx"
  shows "clock_ok hz (fst (receiver_step mx tmo oldest now ev k s))"
proof (rule receiver_step_cases [of mx tmo oldest now ev k s])
  fix r f p
  assume "receivers s k = Some r" "cells s k = Some (Some f)"
    "f_poisoned f \<or> f_last f + tmo > mx \<and> tmo \<noteq> 0 \<and> r_stage r = Top \<or> \<not> buffer_ok r"
  then show ?thesis
    using receiver_panic_excluded [OF assms(1,3)] by blast
qed (use assms in \<open>auto simp: clock_ok_def split: if_splits\<close>)

text \<open>The cells of a slot change in a few ways only.\<close>

lemma stage_ok_simps [simp]:
  "stage_ok s Begin" "stage_ok s Choose" "stage_ok s (Got k)"
  "stage_ok s (Init k addresses start) \<longleftrightarrow> cells s k = None"
  "stage_ok s (Have k) \<longleftrightarrow> cells s k \<noteq> None"
  "stage_ok s (Sending k) \<longleftrightarrow> (\<exists>f. cells s k = Some (Some f))"
  by (simp_all add: stage_ok_def)

lemma slot_cells_tasks:
  "slot_cells s \<Longrightarrow> packets s i = Some p \<Longrightarrow> stage_ok s (t_stage p)"
  "slot_cells s \<Longrightarrow> receivers s k = Some r \<Longrightarrow> \<exists>f. cells s k = Some (Some f)"
  by (auto simp: slot_cells_def)

lemma initialising_iff:
  "initialising s k \<longleftrightarrow> (\<exists>i p. packets s i = Some p \<and> init_slot (t_stage p) = Some k)"
proof -
  have "(\<exists>addresses start. g = Init k addresses start) \<longleftrightarrow> init_slot g = Some k" for g
    by (cases g) auto
  then show ?thesis by (auto simp: initialising_def ran_def)
qed

lemma slot_cells_unique:
  "slot_cells s \<Longrightarrow> packets s i = Some p \<Longrightarrow> packets s j = Some q \<Longrightarrow>
     init_slot (t_stage p) = Some k \<Longrightarrow> init_slot (t_stage q) = Some k \<Longrightarrow> i = j"
  by (auto simp: slot_cells_def)

lemma stage_ok_cong:
  assumes "stage_ok s g" "\<And>k. held_slot g = Some k \<Longrightarrow> cells s' k = cells s k"
  shows "stage_ok s' g"
  using assms by (cases g) auto

text \<open>
  A cell is written when it is empty and the writer is the only initialiser, or it holds a
  flow and holds one afterwards.
\<close>

lemma slot_cells_write:
  assumes "slot_cells s" "cells s' = (cells s)(k \<mapsto> c)"
    and "cells s k = None \<and> (\<forall>j q. packets s j = Some q \<longrightarrow> j \<noteq> i \<longrightarrow> init_slot (t_stage q) \<noteq> Some k) \<or>
      (\<exists>f f'. cells s k = Some (Some f) \<and> c = Some f')"
    and "packets s j = Some q" "j \<noteq> i"
  shows "stage_ok s' (t_stage q)"
proof -
  have "cells s k = None \<and> init_slot (t_stage q) \<noteq> Some k \<or>
      (\<exists>f f'. cells s k = Some (Some f) \<and> c = Some f')"
    using assms(3,4,5) by blast
  then show ?thesis
    using slot_cells_tasks(1) [OF assms(1,4)] assms(2) by (cases "t_stage q") auto
qed

lemma packet_step_cell:
  assumes "slot_cells s" "slot_places s"
  shows "(\<exists>k c. cells (packet_step inp i s) = (cells s)(k \<mapsto> c) \<and>
      (cells s k = None \<and> (\<forall>j q. packets s j = Some q \<longrightarrow> j \<noteq> i \<longrightarrow> init_slot (t_stage q) \<noteq> Some k) \<or>
      (\<exists>f f'. cells s k = Some (Some f) \<and> c = Some f'))) \<or>
    cells (packet_step inp i s) = cells s \<or>
    cells (packet_step inp i s) = (cells s)(next_slot s := None)"
proof -
  have u: "init_slot (t_stage q) \<noteq> Some k"
    if "packets s i = Some t" "t_stage t = Init k addresses start" "packets s j = Some q" "j \<noteq> i"
    for t k addresses start j q
    using slot_cells_unique [OF assms(1) that(1,3)] that by auto
  have e: "cells s k = None" if "packets s i = Some t" "t_stage t = Init k addresses start"
    for t k addresses start
    using slot_cells_tasks(1) [OF assms(1) that(1)] that(2) by simp
  show ?thesis
  proof (rule packet_step_cases [of inp i s])
    fix t k assume "cells s k = None" "\<not> initialising s k"
      "packet_step inp i s = set_stage i t (Have k) (set_cell k None s)"
    then show ?thesis
      by (intro disjI1 exI [of _ k] exI [of _ None]) (auto simp: initialising_iff)
  next
    fix t k addresses start
    assume a: "packets s i = Some t" "t_stage t = Init k addresses start"
      "packet_step inp i s = set_stage i t (Have k) (set_cell k None s)"
    then show ?thesis
      using u [OF a(1,2)] e [OF a(1,2)] by (intro disjI1 exI [of _ k] exI [of _ None]) auto
  next
    fix t k addresses start index s1
    assume a: "packets s i = Some t" "t_stage t = Init k addresses start"
      "s1 = (if length addresses > 1
             then upd_assoc (t_assoc t) (remember_udp_address (in_oldest inp) (t_target t) index) s
             else s)"
      "packet_step inp i s = set_stage i t (Have k)
         ((set_cell k (Some \<lparr>f_peer = addresses ! index, f_index = index, f_count = length addresses, f_active = True,
             f_stopped = False, f_last = in_now inp, f_poisoned = False\<rparr>) s1)
           \<lparr>receivers := (receivers s)(k \<mapsto>
              \<lparr>r_assoc = t_assoc t, r_target = t_target t, r_dest = addresses ! index,
               r_buffer = replicate RELAY_BUFFER_SIZE 0, r_replied = False, r_stage = Top\<rparr>)\<rparr>)"
    then show ?thesis
      using u [OF a(1,2)] e [OF a(1,2)] by (intro disjI1 exI [of _ k] exI) auto
  qed (auto split: if_splits)
qed

lemma packet_step_others: "j \<noteq> i \<Longrightarrow> packets (packet_step inp i s) j = packets s j"
  by (rule packet_step_cases [of inp i s]) (auto split: if_splits)

lemma packet_step_others_ok:
  assumes "slot_cells s" "slot_places s" "packets s j = Some q" "j \<noteq> i"
  shows "stage_ok (packet_step inp i s) (t_stage q)"
  using packet_step_cell [OF assms(1,2), of inp i]
proof (elim disjE)
  assume "\<exists>k c. cells (packet_step inp i s) = (cells s)(k \<mapsto> c) \<and>
      (cells s k = None \<and> (\<forall>j q. packets s j = Some q \<longrightarrow> j \<noteq> i \<longrightarrow> init_slot (t_stage q) \<noteq> Some k) \<or>
      (\<exists>f f'. cells s k = Some (Some f) \<and> c = Some f'))"
  then show ?thesis
    using slot_cells_write [OF assms(1) _ _ assms(3,4)] by blast
next
  assume "cells (packet_step inp i s) = cells s"
  then show ?thesis
    using stage_ok_cong slot_cells_tasks(1) [OF assms(1,3)] by metis
next
  assume c: "cells (packet_step inp i s) = (cells s)(next_slot s := None)"
  have "k < next_slot s" if "held_slot (t_stage q) = Some k" for k
    by (rule slot_places_less [OF assms(2) refs.by_task [OF assms(3) that]])
  then show ?thesis
    by (intro stage_ok_cong [OF slot_cells_tasks(1) [OF assms(1,3)]]) (auto simp: c)
qed

lemma packet_step_own_ok:
  assumes "slot_cells s" "packets (packet_step inp i s) i = Some q"
  shows "stage_ok (packet_step inp i s) (t_stage q)"
proof (rule packet_step_cases [of inp i s])
  assume "packet_step inp i s = s"
  then show ?thesis using assms slot_cells_tasks(1) by simp
qed (use assms in \<open>auto split: if_splits\<close>)

lemma packet_step_init:
  assumes "packets (packet_step inp i s) i = Some q" "init_slot (t_stage q) = Some k"
  shows "packets s i = Some q \<or> \<not> initialising s k"
  by (rule packet_step_cases [of inp i s]) (use assms in \<open>auto split: if_splits\<close>)

lemma packet_step_receiver_cells:
  assumes "slot_cells s" "slot_places s" "receivers (packet_step inp i s) k = Some r"
  shows "\<exists>f. cells (packet_step inp i s) k = Some (Some f)"
proof -
  have "k \<noteq> next_slot s" "\<exists>f. cells s k = Some (Some f)" if "receivers s k = Some r'" for r'
    using slot_places_less [OF assms(2) refs.by_receiver [OF that]] slot_cells_tasks(2) [OF assms(1) that]
    by auto
  moreover have "cells s k = None \<or> t_stage t \<noteq> Init k addresses start" if "packets s i = Some t"
    for t addresses start
    using slot_cells_tasks(1) [OF assms(1) that] by auto
  ultimately show ?thesis
    using assms(3)
    by (rule_tac packet_step_cases [of inp i s]) (auto split: if_splits)
qed

lemma packet_step_slot_cells:
  assumes "slot_cells s" "slot_places s"
  shows "slot_cells (packet_step inp i s)"
  unfolding slot_cells_def
proof (intro conjI allI impI)
  fix j q assume "packets (packet_step inp i s) j = Some q"
  then show "stage_ok (packet_step inp i s) (t_stage q)"
    using packet_step_own_ok [OF assms(1)] packet_step_others_ok [OF assms] packet_step_others
    by (cases "j = i") simp_all
next
  fix j l p q k
  assume "packets (packet_step inp i s) j = Some p" "packets (packet_step inp i s) l = Some q"
    "init_slot (t_stage p) = Some k" "init_slot (t_stage q) = Some k"
  then show "j = l"
    using packet_step_init [of inp i s _ k] slot_cells_unique [OF assms(1), of _ _ _ _ k]
      packet_step_others [of _ i inp s]
    unfolding initialising_iff by metis
qed (rule packet_step_receiver_cells [OF assms])

subsection \<open>Receivers and datagrams\<close>

lemma receiver_step_cells:
  "cells (fst (receiver_step mx tmo oldest now ev k s)) = cells s \<or>
   (\<exists>f f'. cells s k = Some (Some f) \<and>
      cells (fst (receiver_step mx tmo oldest now ev k s)) = (cells s)(k \<mapsto> Some f'))"
  by (rule receiver_step_cases [of mx tmo oldest now ev k s]) auto

lemma receiver_step_has_flow:
  "(\<exists>f. cells (fst (receiver_step mx tmo oldest now ev k s)) j = Some (Some f)) \<longleftrightarrow>
     (\<exists>f. cells s j = Some (Some f))"
  "cells (fst (receiver_step mx tmo oldest now ev k s)) j = None \<longleftrightarrow> cells s j = None"
  using receiver_step_cells [of mx tmo oldest now ev k s] by (auto split: if_splits)

lemma receiver_step_slot_cells:
  assumes "slot_cells s"
  shows "slot_cells (fst (receiver_step mx tmo oldest now ev k s))"
proof -
  have "stage_ok (fst (receiver_step mx tmo oldest now ev k s)) g \<longleftrightarrow> stage_ok s g" for g
    using receiver_step_has_flow [of mx tmo oldest now ev k s] by (cases g) simp_all
  moreover have "\<exists>f. cells s j = Some (Some f)"
    if "receivers (fst (receiver_step mx tmo oldest now ev k s)) j = Some r" for j r
    using receiver_step_receivers [OF that] slot_cells_tasks(2) [OF assms] by blast
  ultimately show ?thesis
    using assms receiver_step_has_flow(1) [of mx tmo oldest now ev k s] unfolding slot_cells_def by auto
qed

lemma udp_datagram_keeps [simp]:
  "cells (udp_datagram cfg permit source d s) = cells s"
  "receivers (udp_datagram cfg permit source d s) = receivers s"
  by (rule udp_datagram_cases [of cfg permit source d s]; simp)+

lemma udp_datagram_packets:
  "packets (udp_datagram cfg permit source d s) = packets s \<and>
     next_packet (udp_datagram cfg permit source d s) = next_packet s \<or>
   (\<exists>t. t_stage t = Begin \<and> t_attempts t = 0 \<and> t_stale t = 0 \<and>
      packets (udp_datagram cfg permit source d s) = (packets s)(next_packet s \<mapsto> t) \<and>
      next_packet (udp_datagram cfg permit source d s) = Suc (next_packet s))"
  by (rule udp_datagram_cases [of cfg permit source d s]) auto

lemma udp_datagram_slot_cells:
  assumes "slot_cells s"
  shows "slot_cells (udp_datagram cfg permit source d s)"
proof -
  have o: "stage_ok (udp_datagram cfg permit source d s) g \<longleftrightarrow> stage_ok s g" for g
    by (cases g) simp_all
  from udp_datagram_packets [of cfg permit source d s] show ?thesis
  proof (elim disjE exE)
    fix t assume "t_stage t = Begin \<and> t_attempts t = 0 \<and> t_stale t = 0 \<and>
      packets (udp_datagram cfg permit source d s) = (packets s)(next_packet s \<mapsto> t) \<and>
      next_packet (udp_datagram cfg permit source d s) = Suc (next_packet s)"
    then show ?thesis
      using assms unfolding slot_cells_def o by (auto split: if_splits)
  qed (use assms in \<open>simp add: slot_cells_def o\<close>)
qed

text \<open>The numbers of the packet tasks are fresh.\<close>

definition task_ids :: "relay \<Rightarrow> bool" where
  "task_ids s \<longleftrightarrow> (\<forall>i. next_packet s \<le> i \<longrightarrow> packets s i = None)"

lemma packet_step_next_packet [simp]: "next_packet (packet_step inp i s) = next_packet s"
  by (rule packet_step_cases [of inp i s]) auto

lemma receiver_step_next_packet [simp]:
  "next_packet (fst (receiver_step mx tmo oldest now ev k s)) = next_packet s"
  by (rule receiver_step_cases [of mx tmo oldest now ev k s]) auto

lemma udp_step_task_ids:
  assumes "udp_step cfg mx hz s s'" "task_ids s"
  shows "task_ids s'"
  using assms(1)
proof cases
  case (udp_receive permit source d)
  then show ?thesis
    using assms(2) udp_datagram_packets [of cfg permit source d s] by (auto simp: task_ids_def)
next
  case (udp_packet inp i)
  then show ?thesis
    using assms(2) packet_step_packets [of inp i s] by (auto simp: task_ids_def)
qed (use assms(2) in \<open>auto simp: task_ids_def\<close>)

subsection \<open>Somebody owns every mapped slot\<close>

lemma slots_ownedD: "slots_owned s \<Longrightarrow> flows (assocs s a) t = Some k \<Longrightarrow> owned s k"
  by (auto simp: slots_owned_def)

lemma owned_cong:
  assumes "owned s k" "cells s' k = cells s k" "receivers s k \<noteq> None \<Longrightarrow> receivers s' k \<noteq> None"
    and "\<And>i p. packets s i = Some p \<Longrightarrow> opens_slot (t_stage p) = Some k \<Longrightarrow>
      \<exists>p'. packets s' i = Some p' \<and> opens_slot (t_stage p') = Some k"
  shows "owned s' k"
  using assms unfolding owned_def by metis

lemma ownedI:
  "receivers s k \<noteq> None \<Longrightarrow> owned s k"
  "\<not> (\<exists>f. cells s k = Some (Some f)) \<Longrightarrow> packets s i = Some p \<Longrightarrow> opens_slot (t_stage p) = Some k \<Longrightarrow>
     owned s k"
  by (auto simp: owned_def)

text \<open>
  A step of a packet task keeps the owner of a slot, or takes the slot out of the map with
  the last owner: the mapping that names the slot is the one of the task.
\<close>

lemma packet_step_receivers: "receivers s k \<noteq> None \<Longrightarrow> receivers (packet_step inp i s) k \<noteq> None"
  by (rule packet_step_cases [of inp i s]) auto

lemma packet_step_new_flow:
  assumes "\<not> (\<exists>f. cells s k = Some (Some f))" "\<exists>f. cells (packet_step inp i s) k = Some (Some f)"
  shows "receivers (packet_step inp i s) k \<noteq> None"
  by (rule packet_step_cases [of inp i s]) (use assms in \<open>auto split: if_splits\<close>)

lemma packet_step_owner:
  assumes "packets s i = Some p" "opens_slot (t_stage p) = Some k"
    and "\<not> (\<exists>f. cells s k = Some (Some f))"
    and "flows (assocs (packet_step inp i s) (t_assoc p)) (t_target p) = Some k"
  shows "receivers (packet_step inp i s) k \<noteq> None \<or>
    (\<exists>q. packets (packet_step inp i s) i = Some q \<and> opens_slot (t_stage q) = Some k)"
proof (rule packet_step_cases [of inp i s])
  fix q assume "packets s i = Some q" "\<And>k. held_slot (t_stage q) = Some k \<Longrightarrow> \<exists>f. cells s k = Some (Some f)"
  then show ?thesis using assms by (cases "t_stage p") auto
qed (use assms in \<open>auto split: if_splits\<close>)

lemma packet_step_owned:
  assumes inv: "slot_places s" "slots_owned s"
    and now: "flows (assocs (packet_step inp i s) a) t = Some k"
  shows "owned (packet_step inp i s) k"
proof (cases "flows (assocs s a) t = Some k")
  case old: True
  have same: "a = t_assoc p \<and> t = t_target p"
    if "packets s i = Some p" "held_slot (t_stage p) = Some k" for p
    by (rule slot_places_same [OF inv(1) refs.by_map [OF old] refs.by_task [OF that]])
  note held = opens_slot_held
  consider (rcv) "receivers s k \<noteq> None"
    | (task) j p where "\<not> (\<exists>f. cells s k = Some (Some f))" "packets s j = Some p"
        "opens_slot (t_stage p) = Some k"
    using slots_ownedD [OF inv(2) old] by (auto simp: owned_def)
  then show ?thesis
  proof cases
    case rcv
    then show ?thesis by (intro ownedI packet_step_receivers)
  next
    case (task j p)
    show ?thesis
    proof (cases "\<exists>f. cells (packet_step inp i s) k = Some (Some f)")
      case True
      then show ?thesis by (intro ownedI packet_step_new_flow [OF task(1)])
    next
      case noflow: False
      have "receivers (packet_step inp i s) k \<noteq> None \<or>
        (\<exists>q. packets (packet_step inp i s) j = Some q \<and> opens_slot (t_stage q) = Some k)"
      proof (cases "j = i")
        case True
        note p = task(2) [unfolded True]
        show ?thesis
          using packet_step_owner [OF p task(3,1)] same [OF p held [OF task(3)]] now True by auto
      next
        case False
        then show ?thesis using task packet_step_others [OF False] by auto
      qed
      then show ?thesis using ownedI noflow by metis
    qed
  qed
next
  case False
  then have "next_slot (packet_step inp i s) = Suc (next_slot s)" "k = next_slot s"
    using packet_step_map [OF now] by auto
  then show ?thesis
    by (rule_tac packet_step_cases [of inp i s])
      (auto intro!: ownedI(2) [of _ "next_slot s" i] split: if_splits)
qed

text \<open>A receiver ends without clearing its slot only in a panic, which the clock excludes.\<close>

lemma receiver_step_no_panic:
  assumes "clock_ok hz s" "hz + tmo \<le> mx"
  obtains "\<forall>j. j \<noteq> k \<longrightarrow> receivers (fst (receiver_step mx tmo oldest now ev k s)) j = receivers s j"
      "receivers s k \<noteq> None \<longrightarrow> receivers (fst (receiver_step mx tmo oldest now ev k s)) k \<noteq> None"
  | r where "receivers s k = Some r"
      "\<forall>j. j \<noteq> k \<longrightarrow> receivers (fst (receiver_step mx tmo oldest now ev k s)) j = receivers s j"
      "flows (assocs (fst (receiver_step mx tmo oldest now ev k s)) (r_assoc r)) (r_target r) \<noteq> Some k"
proof (rule receiver_step_cases [of mx tmo oldest now ev k s])
  fix r f p
  assume "receivers s k = Some r" "cells s k = Some (Some f)"
    "f_poisoned f \<or> f_last f + tmo > mx \<and> tmo \<noteq> 0 \<and> r_stage r = Top \<or> \<not> buffer_ok r"
  then show thesis
    using receiver_panic_excluded [OF assms] by blast
qed (use that in auto)

lemma receiver_step_owned:
  assumes "slot_places s" "slots_owned s" "clock_ok hz s" "hz + tmo \<le> mx"
    and now: "flows (assocs (fst (receiver_step mx tmo oldest now ev k s)) a) t = Some j"
  shows "owned (fst (receiver_step mx tmo oldest now ev k s)) j"
proof -
  let ?s = "fst (receiver_step mx tmo oldest now ev k s)"
  note old = receiver_step_map [OF now]
  from receiver_step_no_panic [OF assms(3,4), of k oldest now ev]
  have "receivers ?s j \<noteq> None" if "receivers s j \<noteq> None"
  proof cases
    case 1
    then show ?thesis using that by (cases "j = k") auto
  next
    case (2 r)
    have "j \<noteq> k"
      using slot_places_same [OF assms(1) refs.by_map [OF old]] refs.by_receiver [OF 2(1)] 2(3) now by blast
    then show ?thesis using 2 that by simp
  qed
  then show ?thesis
    using slots_ownedD [OF assms(2) old] receiver_step_has_flow(1) [of mx tmo oldest now ev k s j]
    unfolding owned_def by auto
qed

subsection \<open>The invariant of the relay\<close>

definition relay_inv :: "nat \<Rightarrow> relay \<Rightarrow> bool" where
  "relay_inv hz s \<longleftrightarrow> slot_places s \<and> slot_cells s \<and> clock_ok hz s \<and> task_ids s \<and> slots_owned s"

lemma udp_datagram_owned:
  assumes "slots_owned s" "task_ids s"
  shows "slots_owned (udp_datagram cfg permit source d s)"
proof -
  have "owned (udp_datagram cfg permit source d s) k" if "owned s k" for k
    by (rule owned_cong [OF that])
      (use udp_datagram_packets [of cfg permit source d s] assms(2) in \<open>auto simp: task_ids_def\<close>)
  then show ?thesis
    using assms(1) by (simp add: slots_owned_def udp_datagram_flows)
qed

lemma control_owned:
  assumes "slots_owned s" "\<And>a. flows (h a) = flows (assocs s a)"
  shows "slots_owned (s\<lparr>assocs := h, reg := r\<rparr>)"
  using assms by (simp add: slots_owned_def owned_def)

lemma udp_step_inv:
  assumes "udp_step cfg mx hz s s'" "relay_inv hz s" "hz + unat (cfg_udp_timeout cfg) \<le> mx"
  shows "relay_inv hz s'"
proof -
  have i: "slot_places s" "slot_cells s" "clock_ok hz s" "task_ids s" "slots_owned s"
    using assms(2) by (simp_all add: relay_inv_def)
  have "slot_cells s' \<and> clock_ok hz s' \<and> slots_owned s'"
    using assms(1)
  proof cases
    case (udp_receive permit source d)
    then show ?thesis
      using i by (simp add: udp_datagram_slot_cells udp_datagram_owned clock_ok_def)
  next
    case (udp_packet inp j)
    then show ?thesis
      using i packet_step_owned [OF i(1,5)]
      by (auto simp: packet_step_slot_cells clock_step_packet slots_owned_def)
  next
    case (udp_reply k oldest ev now)
    then show ?thesis
      using i receiver_step_owned [OF i(1,5,3) assms(3)]
      by (auto simp: receiver_step_slot_cells clock_step_receiver [OF _ _ assms(3)] slots_owned_def)
  next
    case (udp_control h r)
    then show ?thesis
      using i control_owned [OF i(5)] by (simp add: slot_cells_def clock_ok_def stage_ok_def cong: stage.case_cong)
  qed
  then show ?thesis
    using udp_step_places [OF assms(1) i(1)] udp_step_task_ids [OF assms(1) i(4)]
    by (simp add: relay_inv_def)
qed

lemma relay_start_inv: "udp_start s \<Longrightarrow> relay_inv hz s"
  by (auto simp: udp_start_def relay_inv_def slot_places_def refs_iff slot_cells_def clock_ok_def
      task_ids_def slots_owned_def)

interpretation relay_system:
  invariant_system "\<lambda>s. udp_start s \<and> hz + unat (cfg_udp_timeout cfg) \<le> mx" "udp_step cfg mx hz"
    "\<lambda>s. relay_inv hz s \<and> hz + unat (cfg_udp_timeout cfg) \<le> mx" for cfg mx hz
  by unfold_locales (use relay_start_inv udp_step_inv in blast)+

end
