(* ===== verification/Udp_Guarantees.thy ===== *)
theory Udp_Guarantees
  imports Udp_Flows
begin

text \<open>
  The guarantees of the UDP relay: it is a client of the registry that only ever does what
  the registry allows, its packet tasks end, its answers reach their client, and a run on
  which all of this can be seen.
\<close>

section \<open>The relay and the registry\<close>

lemma reg_flows_step:
  "h' = h(a := (h a)\<lparr>flows := fs, preferred := ps\<rparr>) \<Longrightarrow> reg_step\<^sup>*\<^sup>* (h, r) (h', r)"
  using reg_step.reg_flows by blast

lemma reg_flows_steps:
  assumes "\<And>x. \<exists>fs ps. g x = x\<lparr>flows := fs, preferred := ps\<rparr>"
  shows "reg_step\<^sup>*\<^sup>* (h, r) (h(a := g (h a)), r)"
  using assms [of "h a"] reg_flows_step by metis

lemma upd_assoc_steps:
  assumes "\<And>x. \<exists>fs ps. g x = x\<lparr>flows := fs, preferred := ps\<rparr>"
    and "reg_step\<^sup>*\<^sup>* st (assocs s, reg s)"
  shows "reg_step\<^sup>*\<^sup>* st (assocs (upd_assoc a g s), reg (upd_assoc a g s))"
  using assms(2) reg_flows_steps [of g "assocs s" "reg s" a] assms(1) by (simp add: rtranclp_trans)

lemma flows_only_exists: "\<exists>fs ps. x\<lparr>flows := gs\<rparr> = x\<lparr>flows := fs, preferred := ps\<rparr>"
  by (intro exI [of _ gs] exI [of _ "preferred x"]) simp

lemmas flow_steps =
  upd_assoc_steps [of "remember_udp_address oldest target i" for oldest target i, OF flows_update_exists(1)]
  upd_assoc_steps [of "advance_udp_address oldest target f" for oldest target f, OF flows_update_exists(2)]
  upd_assoc_steps [of "remove_flow_slot target k" for target k, OF flows_update_exists(3)]
  upd_assoc_steps [of "\<lambda>x. x\<lparr>flows := (flows x)(target \<mapsto> k)\<rparr>" for target k, OF flows_only_exists]

lemma packet_step_registry: "reg_step\<^sup>*\<^sup>* (assocs s, reg s) (assocs (packet_step inp i s), reg (packet_step inp i s))"
proof -
  note fs = flow_steps [OF rtranclp.rtrancl_refl [of reg_step "(assocs s, reg s)"], simplified]
  have fail: "reg_step\<^sup>*\<^sup>* (assocs s, reg s) (assocs s1, reg s1)"
    if "s1 = upd_assoc (t_assoc t) (remove_flow_slot (t_target t) k)
         (set_cell k c (if b then upd_assoc (t_assoc t) (advance_udp_address old (t_target t) f) s else s))"
    for s1 t k c b old f
    unfolding that by (rule flow_steps) (cases b; simp add: fs)
  show ?thesis
  proof (rule packet_step_cases [of inp i s])
    fix t k f s1
    assume s1: "s1 = upd_assoc (t_assoc t) (remove_flow_slot (t_target t) k)
         (set_cell k (Some (f\<lparr>f_active := False, f_stopped := True\<rparr>))
           (if f_active f
            then upd_assoc (t_assoc t) (advance_udp_address (in_oldest inp) (t_target t) f) s else s))"
      and "packet_step inp i s =
         (if f_count f \<le> t_attempts t then end_packet i s1 else set_stage i t Choose s1)"
    then show ?thesis
      using fail [OF s1] by (cases "f_count f \<le> t_attempts t") (simp_all only: if_True if_False relay_updates)
  qed (auto simp: fs)
qed

lemma receiver_step_registry:
  "reg_step\<^sup>*\<^sup>* (assocs s, reg s)
     (assocs (fst (receiver_step mx tmo oldest now ev k s)), reg (fst (receiver_step mx tmo oldest now ev k s)))"
proof -
  note fs = flow_steps [OF rtranclp.rtrancl_refl [of reg_step "(assocs s, reg s)"], simplified]
  have ex: "reg_step\<^sup>*\<^sup>* (assocs s, reg s)
      (assocs (end_receiver old failed k r f s), reg (end_receiver old failed k r f s))"
    for old failed r f
  proof -
    let ?s1 = "if f_active f \<and> failed
      then upd_assoc (r_assoc r) (advance_udp_address old (r_target r) f) s else s"
    have "reg_step\<^sup>*\<^sup>* (assocs s, reg s) (assocs ?s1, reg ?s1)"
      by (cases "f_active f \<and> failed") (auto simp: fs)
    then have "reg_step\<^sup>*\<^sup>* (assocs s, reg s)
        (assocs (upd_assoc (r_assoc r) (remove_flow_slot (r_target r) k) (set_cell k c ?s1)),
         reg (upd_assoc (r_assoc r) (remove_flow_slot (r_target r) k) (set_cell k c ?s1)))" for c
      by (intro flow_steps) (simp only: relay_updates)
    then show ?thesis by (simp add: end_receiver_def Let_def)
  qed
  show ?thesis
    by (rule receiver_step_cases [of mx tmo oldest now ev k s]) (simp_all add: ex [simplified])
qed

lemma udp_datagram_registry:
  "reg_step\<^sup>*\<^sup>* (assocs s, reg s)
     (assocs (udp_datagram cfg permit source d s), reg (udp_datagram cfg permit source d s))"
  by (rule udp_datagram_cases [of cfg permit source d s]) (auto intro: reg_step.reg_datagram)

lemma udp_step_registry: "udp_step cfg mx hz s s' \<Longrightarrow> reg_step\<^sup>*\<^sup>* (assocs s, reg s) (assocs s', reg s')"
  by (cases rule: udp_step_cases)
    (auto intro: udp_datagram_registry packet_step_registry receiver_step_registry)

section \<open>A run\<close>

text \<open>
  A client registers, sends a datagram, and the datagram opens a flow and is sent. The six
  steps of the packet task are repetitions of \<open>packet_step\<close>.
\<close>

definition demo_relay :: relay where
  "demo_relay = \<lparr>assocs = fst demo_start, reg = snd demo_start, cells = (\<lambda>_. None), next_slot = 0,
     packets = Map.empty, next_packet = 0, receivers = Map.empty\<rparr>"

definition demo_registered :: relay where
  "demo_registered = demo_relay\<lparr>assocs := fst demo_state, reg := snd demo_state\<rparr>"

definition demo_input :: packet_input where
  "demo_input = \<lparr>in_permit = True, in_oldest = None, in_answer = Inr [], in_usable = (\<lambda>_. True),
     in_sent = True, in_now = 1\<rparr>"

definition demo_received :: relay where
  "demo_received = udp_datagram cfg_default True (SockV4 7 5) [0, 0, 0, 1, 8, 8, 8, 8, 0, 53, 1] demo_registered"

definition demo_run :: "nat \<Rightarrow> relay" where
  "demo_run n = (packet_step demo_input 0 ^^ n) demo_received"

lemma demo_relay_start: "udp_start demo_relay"
  by (simp add: udp_start_def demo_relay_def demo_start_def demo_association_def)

lemma demo_datagram_parses:
  "parse_datagram (take RELAY_BUFFER_SIZE [0, 0, 0, 1, 8, 8, 8, 8, 0, 53, 1]) =
     Inr (\<lparr>t_host = Ip (IpV4 0x08080808), t_port = 53\<rparr>, [1])"
proof -
  let ?t = "\<lparr>t_host = Ip (IpV4 0x08080808), t_port = 53\<rparr>"
  have "target_wire ?t = Some [1, 8, 8, 8, 8, 0, 53]"
    by (simp add: target_wire_def host_wire_def v4_octets_def port_bytes_def be_bytes_numeral)
  then show ?thesis
    using parse_datagram_wire [of ?t "[1, 8, 8, 8, 8, 0, 53]" "[1]"]
    by (simp add: RELAY_BUFFER_SIZE_def wf_target_def wf_host_def)
qed

lemma demo_received_eq:
  "demo_received = demo_registered
     \<lparr>assocs := (fst demo_state)(0 := demo_association\<lparr>endpoint := Some (SockV4 7 5)\<rparr>),
      reg := (snd demo_state)\<lparr>pending := Map.empty, endpoints := [SockV4 7 5 \<mapsto> 1]\<rparr>,
      packets := [0 \<mapsto> \<lparr>t_assoc = 0, t_target = \<lparr>t_host = Ip (IpV4 0x08080808), t_port = 53\<rparr>,
         t_payload = [1], t_attempts = 0, t_stale = 0, t_stage = Begin\<rparr>],
      next_packet := 1\<rparr>"
proof -
  note p = demo_datagram_parses
  have f: "reg_find (SockV4 7 5) (assocs demo_registered, reg demo_registered) =
    (Some 0, (fst demo_state)(0 := demo_association\<lparr>endpoint := Some (SockV4 7 5)\<rparr>),
     (snd demo_state)\<lparr>pending := Map.empty, endpoints := [SockV4 7 5 \<mapsto> 1]\<rparr>)"
    by (simp add: demo_registered_def demo_state_def demo_association_def reg_default_def reg_find_def
        accepts_def endpoint_key_def normalize_ip_def Let_def)
  have w: "wl_allows (cfg_whitelist cfg_default) (IpV4 7)"
    by (simp add: cfg_default_def wl_default_def wl_allows_def)
  show ?thesis
    by (simp add: demo_received_def udp_datagram_def p f w) (simp add: demo_registered_def demo_relay_def)
qed

definition demo_flow :: flow where
  "demo_flow = \<lparr>f_peer = SockV4 0x08080808 53, f_index = 0, f_count = 1, f_active = True, f_stopped = False,
     f_last = 1, f_poisoned = False\<rparr>"

definition demo_target :: target where
  "demo_target = \<lparr>t_host = Ip (IpV4 0x08080808), t_port = 53\<rparr>"

definition demo_task :: "nat \<Rightarrow> stage \<Rightarrow> packet_task" where
  "demo_task n g = \<lparr>t_assoc = 0, t_target = demo_target, t_payload = [1], t_attempts = n, t_stale = 0,
     t_stage = g\<rparr>"

definition demo_receiver :: receiver where
  "demo_receiver = \<lparr>r_assoc = 0, r_target = demo_target, r_dest = SockV4 0x08080808 53,
     r_buffer = replicate RELAY_BUFFER_SIZE 0, r_replied = False, r_stage = Top\<rparr>"

text \<open>The state when the task has reached a stage, with the slot it has made.\<close>

definition demo_at :: "flow option option \<Rightarrow> bool \<Rightarrow> packet_task option \<Rightarrow> relay" where
  "demo_at c receiving p = demo_received
     \<lparr>assocs := (assocs demo_received)
        (0 := (assocs demo_received 0)\<lparr>flows := [demo_target \<mapsto> 0]\<rparr>),
      cells := (\<lambda>_. None)(0 := c), next_slot := 1,
      packets := (\<lambda>_. None)(0 := p),
      receivers := (if receiving then [0 \<mapsto> demo_receiver] else Map.empty)\<rparr>"

lemma demo_run_Suc: "demo_run (Suc n) = packet_step demo_input 0 (demo_run n)"
  by (simp add: demo_run_def)

lemmas demo_defs = demo_at_def demo_received_eq demo_registered_def demo_relay_def demo_state_def
  demo_association_def demo_task_def demo_input_def set_stage_def set_cell_def end_packet_def upd_assoc_def

lemma demo_run_2: "demo_run 2 = demo_at None False (Some (demo_task 0 (Got 0)))"
  by (simp add: numeral_2_eq_2 demo_run_def packet_step_def choose_slot_def MAX_FLOWS_PER_ASSOCIATION_def
      demo_defs demo_target_def map_len_def fun_upd_def fun_eq_iff)

lemma demo_step_3: "packet_step demo_input 0 (demo_at None False (Some (demo_task 0 (Got 0)))) =
  demo_at None False (Some (demo_task 0 (Init 0 [SockV4 0x08080808 53] 0)))"
  by (simp add: packet_step_def initialising_def begin_init_def dns_lookup_def start_index_def demo_defs
      demo_target_def ran_def)

lemma demo_step_4:
  "packet_step demo_input 0 (demo_at None False (Some (demo_task 0 (Init 0 [SockV4 0x08080808 53] 0)))) =
  demo_at (Some (Some demo_flow)) True (Some (demo_task 0 (Have 0)))"
  by (simp add: packet_step_def end_init_def select_address_def demo_defs demo_flow_def demo_receiver_def
      demo_target_def)

lemma demo_step_5: "packet_step demo_input 0 (demo_at (Some (Some demo_flow)) True (Some (demo_task 0 (Have 0)))) =
  demo_at (Some (Some demo_flow)) True (Some (demo_task 1 (Sending 0)))"
  by (simp add: packet_step_def use_flow_def demo_defs demo_flow_def)

lemma demo_step_6:
  "packet_step demo_input 0 (demo_at (Some (Some demo_flow)) True (Some (demo_task 1 (Sending 0)))) =
   demo_at (Some (Some demo_flow)) True None"
  by (simp add: packet_step_def finish_send_def demo_defs demo_flow_def)

lemma demo_registers: "udp_step cfg_default 1000 10 demo_relay demo_registered"
  using udp_control [of demo_relay "fst demo_state" "snd demo_state" cfg_default 1000 10] demo_register
  by (simp add: demo_registered_def demo_relay_def demo_start_def) (simp add: demo_state_def)

lemma demo_receives: "relay_moves cfg_default 1000 10 demo_registered demo_received"
  unfolding demo_received_def
  by (rule relay_datagram) (simp add: demo_registered_def demo_relay_def MAX_UDP_PACKET_TASKS_def)

lemma demo_run_eq:
  "demo_run 3 = demo_at None False (Some (demo_task 0 (Init 0 [SockV4 0x08080808 53] 0)))"
  "demo_run 4 = demo_at (Some (Some demo_flow)) True (Some (demo_task 0 (Have 0)))"
  "demo_run 5 = demo_at (Some (Some demo_flow)) True (Some (demo_task 1 (Sending 0)))"
  "demo_run 6 = demo_at (Some (Some demo_flow)) True None"
proof -
  show 3: "demo_run 3 = demo_at None False (Some (demo_task 0 (Init 0 [SockV4 0x08080808 53] 0)))"
    using demo_run_Suc [of 2] by (simp add: demo_run_2 demo_step_3)
  show 4: "demo_run 4 = demo_at (Some (Some demo_flow)) True (Some (demo_task 0 (Have 0)))"
    using demo_run_Suc [of 3] by (simp add: 3 demo_step_4)
  show 5: "demo_run 5 = demo_at (Some (Some demo_flow)) True (Some (demo_task 1 (Sending 0)))"
    using demo_run_Suc [of 4] by (simp add: 4 demo_step_5)
  show "demo_run 6 = demo_at (Some (Some demo_flow)) True None"
    using demo_run_Suc [of 5] by (simp add: 5 demo_step_6 del: One_nat_def)
qed

lemma demo_run_past: "demo_run (6 + n) = demo_run 6"
proof (induction n)
  case (Suc n)
  have "packet_step demo_input 0 (demo_at c b None) = demo_at c b None" for c b
    by (simp add: packet_step_def demo_at_def)
  then show ?case
    using Suc demo_run_Suc [of "6 + n"] by (simp add: demo_run_eq)
qed simp

text \<open>Every step of the task is one of the relay.\<close>

lemma demo_run_1: "demo_run 1 = demo_received\<lparr>packets := [0 \<mapsto> demo_task 0 Choose]\<rparr>"
  by (simp add: demo_run_def packet_step_def demo_defs demo_target_def)

definition demo_state_ok :: "relay \<Rightarrow> bool" where
  "demo_state_ok s \<longleftrightarrow> (\<forall>a. preferred (assocs s a) = Map.empty) \<and> live_slots s \<subseteq> {0} \<and>
     (\<forall>k f. cells s k = Some (Some f) \<longrightarrow> f_count f = 1)"

lemma demo_at_ok:
  "(\<And>t k. p = Some t \<Longrightarrow> held_slot (t_stage t) = Some k \<Longrightarrow> k = 0) \<Longrightarrow>
     (\<And>f. c = Some (Some f) \<Longrightarrow> f_count f = 1) \<Longrightarrow> demo_state_ok (demo_at c b p)"
  unfolding demo_state_ok_def
  by (intro conjI allI live_slots_subset) (auto simp: demo_defs split: if_splits)

lemma demo_run_ok: "demo_state_ok (demo_run n)"
proof -
  have ok: "demo_state_ok (demo_received\<lparr>packets := p\<rparr>)"
    if "\<And>i t. p i = Some t \<Longrightarrow> held_slot (t_stage t) = None" for p
    unfolding demo_state_ok_def
    by (intro conjI allI live_slots_subset) (auto simp: demo_defs split: if_splits dest: that)
  have "demo_run 0 = demo_received\<lparr>packets := packets demo_received\<rparr>"
    by (simp add: demo_run_def)
  moreover have "held_slot (t_stage t) = None" if "packets demo_received i = Some t" for i t
    using that by (auto simp: demo_received_eq split: if_splits)
  ultimately have "demo_state_ok (demo_run 0)"
    using ok [of "packets demo_received"] by metis
  have "demo_state_ok (demo_run 1)"
    unfolding demo_run_1 by (rule ok) (auto simp: demo_task_def split: if_splits)
  moreover have "n = 0 \<or> n = 1 \<or> n = 2 \<or> n = 3 \<or> n = 4 \<or> n = 5 \<or> 6 \<le> n"
    by arith
  ultimately show ?thesis
    using \<open>demo_state_ok (demo_run 0)\<close> demo_run_past [of "n - 6"]
    by (auto simp: demo_run_2 demo_run_eq demo_task_def demo_flow_def intro!: demo_at_ok simp del: One_nat_def)
qed

lemma demo_run_step: "relay_moves cfg_default 1000 10 (demo_run n) (demo_run (Suc n))"
  unfolding demo_run_Suc
proof (rule relay_packet)
  show "card (live_slots (demo_run n)) < MAX_UDP_FLOWS"
    using card_mono [of "{0}" "live_slots (demo_run n)"] demo_run_ok [of n]
    by (simp add: MAX_UDP_FLOWS_def demo_state_ok_def)
qed (use demo_run_ok [of n] in \<open>simp_all add: demo_state_ok_def demo_input_def evicts_def\<close>)

definition demo_sequence :: "nat \<Rightarrow> relay" where
  "demo_sequence n = (case n of 0 \<Rightarrow> demo_relay | Suc 0 \<Rightarrow> demo_registered | Suc (Suc m) \<Rightarrow> demo_run m)"

lemma demo_sequence_step: "udp_step cfg_default 1000 10 (demo_sequence n) (demo_sequence (Suc n))"
  using demo_registers udp_task [OF demo_receives] udp_task [OF demo_run_step]
  by (auto simp: demo_sequence_def demo_run_def [of 0] split: nat.splits)

lemma demo_sequence_steps: "(udp_step cfg_default 1000 10)\<^sup>*\<^sup>* demo_relay (demo_sequence n)"
  by (induction n) (auto simp: demo_sequence_def [of 0] intro: rtranclp.rtrancl_into_rtrancl demo_sequence_step)

section \<open>Packet tasks end\<close>

text \<open>
  What is left of a task: the attempts and the retries that remain, and the stages of the
  current round. \<open>n\<close> bounds the number of addresses of an answer.
\<close>

fun stage_rank :: "stage \<Rightarrow> nat" where
  "stage_rank Begin = 5"
| "stage_rank Choose = 4"
| "stage_rank (Got k) = 3"
| "stage_rank (Init k addresses start) = 2"
| "stage_rank (Have k) = 1"
| "stage_rank (Sending k) = 0"

definition attempts_left :: "nat \<Rightarrow> packet_task \<Rightarrow> nat" where
  "attempts_left n t = (case t_stage t of Sending k \<Rightarrow> Suc n - t_attempts t | _ \<Rightarrow> n - t_attempts t)"

definition task_work :: "nat \<Rightarrow> packet_task \<Rightarrow> nat" where
  "task_work n t = 5 * (attempts_left n t + (2 - t_stale t)) + stage_rank (t_stage t)"

definition answers_le :: "nat \<Rightarrow> relay \<Rightarrow> bool" where
  "answers_le n s \<longleftrightarrow> (\<forall>k f. cells s k = Some (Some f) \<longrightarrow> f_count f \<le> n)"

lemma choose_slot_packets: "packets (snd (choose_slot permit a t s)) = packets s"
  by (simp add: choose_slot_def Let_def split: option.splits)

lemma packet_step_idle:
  assumes t: "packets s i = Some t" and ok: "stage_ok s (t_stage t)" and idle: "packet_step inp i s = s"
  shows "\<exists>k. t_stage t = Got k \<and> initialising s k"
proof -
  have p: "packets (packet_step inp i s) i = Some t"
    using t by (simp add: idle)
  have stage: "t_stage t = g" if "t\<lparr>t_stage := g\<rparr> = t" for g
    using that by (metis packet_task.select_convs(6) packet_task.surjective packet_task.update_convs(6))
  show ?thesis
  proof (cases "t_stage t")
    case Begin
    then show ?thesis
      using p by (auto simp: packet_step_def t split: if_splits dest!: stage)
  next
    case Choose
    obtain o1 s1 where c: "choose_slot (in_permit inp) (t_assoc t) (t_target t) s = (o1, s1)"
      by (cases "choose_slot (in_permit inp) (t_assoc t) (t_target t) s")
    then show ?thesis
      using p Choose by (cases o1) (auto simp: packet_step_def t dest!: stage)
  next
    case (Got k)
    then show ?thesis
      using p
      by (auto simp: packet_step_def t begin_init_def split: option.splits if_splits sum.splits dest!: stage)
  next
    case (Init k addresses start)
    then show ?thesis
      using p by (auto simp: packet_step_def t end_init_def Let_def split: option.splits dest!: stage)
  next
    case (Have k)
    then obtain fl where c: "cells s k = Some fl" using ok by auto
    show ?thesis
      using p Have
      by (cases fl) (auto simp: packet_step_def t c use_flow_def Let_def split: if_splits
          dest!: arg_cong [of _ t t_stage])
  next
    case (Sending k)
    then obtain f where c: "cells s k = Some (Some f)" using ok by auto
    show ?thesis
      using p Sending
      by (auto simp: packet_step_def t c finish_send_def Let_def split: if_splits dest!: stage)
  qed
qed

text \<open>
  A step of a task ends it or leaves less to do; the only task that has to wait is one whose
  slot another task is opening.
\<close>

lemma packet_step_work:
  assumes "slot_cells s" "answers_le n s" "packets s i = Some t"
  shows "packets (packet_step inp i s) i = None \<or>
    (\<exists>t'. packets (packet_step inp i s) i = Some t' \<and> task_work n t' < task_work n t) \<or>
    packet_step inp i s = s \<and> (\<exists>k. t_stage t = Got k \<and> initialising s k)"
proof (rule packet_step_cases [of inp i s])
  assume idle: "packet_step inp i s = s"
  show ?thesis
  proof (cases "\<exists>k. t_stage t = Got k \<and> initialising s k")
    case False
    have "stage_ok s (t_stage t)" by (rule slot_cells_tasks(1) [OF assms(1,3)])
    then show ?thesis
      using packet_step_idle [OF assms(3) _ idle] False by blast
  qed (use idle in blast)
next
  fix t' k f s1
  assume a: "packets s i = Some t'" "t_stage t' = Sending k" "cells s k = Some (Some f)"
    "s1 = upd_assoc (t_assoc t') (remove_flow_slot (t_target t') k)
         (set_cell k (Some (f\<lparr>f_active := False, f_stopped := True\<rparr>))
           (if f_active f
            then upd_assoc (t_assoc t') (advance_udp_address (in_oldest inp) (t_target t') f) s else s))"
    "packet_step inp i s =
         (if f_count f \<le> t_attempts t' then end_packet i s1 else set_stage i t' Choose s1)"
  have "f_count f \<le> n"
    using assms(2) a(3) by (auto simp: answers_le_def)
  then show ?thesis
    using assms(3) a by (auto simp: task_work_def attempts_left_def)
qed (use assms(3) in \<open>auto simp: task_work_def attempts_left_def\<close>)

text \<open>Of all steps of the relay, only a task's own ones change it.\<close>

lemma udp_step_task:
  assumes "udp_step cfg mx hz s s'" "slot_cells s" "task_ids s" "answers_le n s" "packets s i = Some t"
  shows "packets s' i = Some t \<or> packets s' i = None \<or>
    (\<exists>t'. packets s' i = Some t' \<and> task_work n t' < task_work n t)"
  using assms(1)
proof cases
  case (udp_receive permit source d)
  have "i \<noteq> next_packet s"
    using assms(3,5) by (auto simp: task_ids_def)
  then show ?thesis
    using udp_datagram_packets [of cfg permit source d s] udp_receive assms(5) by auto
next
  case (udp_packet inp j)
  then show ?thesis
    using packet_step_work [OF assms(2,4,5), of inp] packet_step_others [of i j inp s] assms(5)
    by (cases "j = i") auto
qed (use assms(5) in simp_all)

lemma udp_step_new_task:
  assumes "udp_step cfg mx hz s s'" "packets s i = None" "packets s' i = Some t"
  shows "next_packet s \<le> i \<and> i < next_packet s' \<and> t_stage t = Begin \<and> t_attempts t = 0 \<and> t_stale t = 0"
  using assms(1)
proof cases
  case (udp_receive permit source d)
  then show ?thesis
    using udp_datagram_packets [of cfg permit source d s] assms(2,3) by (auto split: if_splits)
next
  case (udp_packet inp j)
  then show ?thesis
    using packet_step_packets [of inp j s] assms(2,3) by auto
qed (use assms(2,3) in simp_all)

lemma udp_step_ids:
  assumes "udp_step cfg mx hz s s'"
  shows "next_packet s \<le> next_packet s'"
  using assms
proof cases
  case (udp_receive permit source d)
  then show ?thesis using udp_datagram_packets [of cfg permit source d s] by auto
qed simp_all

text \<open>The steps a task number has left: before its task, during it, and afterwards.\<close>

definition task_left :: "nat \<Rightarrow> nat \<Rightarrow> relay \<Rightarrow> nat" where
  "task_left n i s =
     (case packets s i of
        Some t \<Rightarrow> Suc (task_work n t)
      | None \<Rightarrow> if next_packet s \<le> i then 5 * n + 17 else 0)"

lemma task_left_step:
  assumes "udp_step cfg mx hz s s'" "relay_inv hz s" "answers_le n s"
  shows "task_left n i s' \<le> task_left n i s \<and>
    (packets s' i \<noteq> packets s i \<longrightarrow> task_left n i s' < task_left n i s)"
proof -
  have inv: "slot_cells s" "task_ids s"
    using assms(2) by (simp_all add: relay_inv_def)
  show ?thesis
  proof (cases "packets s i")
    case None
    show ?thesis
    proof (cases "packets s' i")
      case None
      then show ?thesis
        using \<open>packets s i = None\<close> udp_step_ids [OF assms(1)] by (simp add: task_left_def)
    next
      case (Some t)
      then show ?thesis
        using udp_step_new_task [OF assms(1) None Some] None
        by (simp add: task_left_def task_work_def attempts_left_def)
    qed
  next
    case (Some t)
    then have "i < next_packet s"
      using inv(2) by (metis task_ids_def not_less option.distinct(1))
    then show ?thesis
      using udp_step_task [OF assms(1) inv assms(3) Some] udp_step_ids [OF assms(1)] Some
      by (auto simp: task_left_def)
  qed
qed

text \<open>C21: Every packet task ends. In any run of the relay in which no flow is opened over
  more than \<open>n\<close> addresses, the task with a given number changes its state at most
  \<open>5 n + 17\<close> times, from its start to its end: it tries every address once, retries a stale
  flow twice, and no interleaving makes it loop. A task that moves no more has ended or
  waits for the resolver, for the socket or for the task that opens its slot.\<close>

theorem packet_tasks_end:
  assumes "udp_start (run 0)" and "\<And>m. udp_step cfg mx hz (run m) (run (Suc m))"
    and "hz + unat (cfg_udp_timeout cfg) \<le> mx" and "\<And>m. answers_le n (run m)"
  shows "finite {m. packets (run (Suc m)) i \<noteq> packets (run m) i} \<and>
    card {m. packets (run (Suc m)) i \<noteq> packets (run m) i} \<le> 5 * n + 17"
proof -
  have inv: "relay_inv hz (run m)" for m
  proof (induction m)
    case 0
    show ?case using assms(1) by (rule relay_start_inv)
  next
    case (Suc m)
    then show ?case using udp_step_inv assms(2,3) by blast
  qed
  have "task_left n i (run 0) \<le> 5 * n + 17"
    using assms(1) by (simp add: task_left_def udp_start_def)
  then show ?thesis
    using decreasing_changes [of "\<lambda>m. task_left n i (run m)" "{m. packets (run (Suc m)) i \<noteq> packets (run m) i}"]
      task_left_step [OF assms(2) inv assms(4)] by fastforce
qed

theorem packet_tasks_end_witness:
  "finite {m. packets (demo_sequence (Suc m)) 0 \<noteq> packets (demo_sequence m) 0} \<and>
   card {m. packets (demo_sequence (Suc m)) 0 \<noteq> packets (demo_sequence m) 0} \<le> 5 * 1 + 17"
proof (rule packet_tasks_end)
  show "udp_start (demo_sequence 0)"
    by (simp add: demo_sequence_def demo_relay_start)
  show "udp_step cfg_default 1000 10 (demo_sequence m) (demo_sequence (Suc m))" for m
    by (rule demo_sequence_step)
  show "answers_le 1 (demo_sequence m)" for m
    using demo_run_ok
    by (auto simp: demo_sequence_def answers_le_def demo_state_ok_def demo_relay_def demo_registered_def
        split: nat.splits)
qed (simp add: cfg_default_def)

section \<open>The guarantees\<close>

lemma udp_steps_registry:
  assumes "udp_start s" "(udp_step cfg mx hz)\<^sup>*\<^sup>* s t"
  shows "reg_step\<^sup>*\<^sup>* (assocs s, reg s) (assocs t, reg t) \<and> reg_inv (assocs t, reg t)"
proof -
  have "reg_step\<^sup>*\<^sup>* (assocs s, reg s) (assocs t, reg t)"
    using assms(2) by (induction rule: rtranclp_induct) (auto intro: rtranclp_trans udp_step_registry)
  moreover have "reg s = reg_default"
    using assms(1) by (simp add: udp_start_def)
  ultimately show ?thesis
    using registry.reachable_inv by fastforce
qed

lemma udp_steps_task_ids:
  assumes "udp_start s" "(udp_step cfg mx hz)\<^sup>*\<^sup>* s t"
  shows "task_ids t"
  using assms(2)
  by (induction rule: rtranclp_induct) (use assms(1) udp_step_task_ids in \<open>auto simp: udp_start_def task_ids_def\<close>)

text \<open>C24: The relay as a whole, with all its packet tasks and receivers, does nothing to the
  registry and the associations that the registry's own steps do not allow: every run of it
  is a run of those steps, and the registry's invariant holds at its end. So the exclusive
  sessions and the single source of a session hold in the running server.\<close>

theorem relay_refines_registry:
  assumes "udp_start s" and "(udp_step cfg mx hz)\<^sup>*\<^sup>* s t"
  shows "reg_step\<^sup>*\<^sup>* (assocs s, reg s) (assocs t, reg t) \<and> reg_inv (assocs t, reg t)"
  using assms by (rule udp_steps_registry)

theorem relay_refines_registry_witness:
  "reg_step\<^sup>*\<^sup>* (assocs demo_relay, reg demo_relay) (assocs (demo_sequence 8), reg (demo_sequence 8)) \<and>
   reg_inv (assocs (demo_sequence 8), reg (demo_sequence 8))"
  by (rule relay_refines_registry [OF demo_relay_start demo_sequence_steps])

text \<open>C20: The relay's resources are bounded whatever clients send and however the tasks
  interleave: at most 256 packet tasks, at most 128 flows and 128 preferred addresses per
  association, and at most 1024 flow slots that anything still refers to.\<close>

theorem relay_bounds:
  assumes "udp_start s" and "(udp_step cfg mx hz)\<^sup>*\<^sup>* s t"
  shows "card (dom (packets t)) \<le> 256 \<and> card (dom (flows (assocs t a))) \<le> 128 \<and>
    card (dom (preferred (assocs t a))) \<le> 128 \<and> finite (live_slots t) \<and> card (live_slots t) \<le> 1024"
  using packet_permits.steps_bounded [OF assms] flow_entries.steps_bounded [OF assms]
    preferred_entries.steps_bounded [OF assms] flow_permits.steps_bounded [OF assms]
  by (simp add: MAX_UDP_PACKET_TASKS_def MAX_UDP_FLOWS_def MAX_FLOWS_PER_ASSOCIATION_def)

theorem relay_bounds_witness:
  "card (dom (packets (demo_sequence 5))) \<le> 256 \<and> card (dom (flows (assocs (demo_sequence 5) 0))) \<le> 128 \<and>
    card (dom (preferred (assocs (demo_sequence 5) 0))) \<le> 128 \<and> finite (live_slots (demo_sequence 5)) \<and>
    card (live_slots (demo_sequence 5)) \<le> 1024"
  by (rule relay_bounds [OF demo_relay_start demo_sequence_steps])

text \<open>C6: No flow slot is leaked. As long as the clock plus the timeout stays representable, every
  slot an association's map names has somebody who will take it out again: the receiver of
  its flow, for this association and target, or, while the slot holds no flow, a packet task
  for them that is still opening it. When both are gone the map is empty.\<close>

theorem no_slot_leak:
  assumes "udp_start s" and "(udp_step cfg mx hz)\<^sup>*\<^sup>* s t"
    and "hz + unat (cfg_udp_timeout cfg) \<le> mx" and "flows (assocs t a) target = Some k"
  shows "(\<exists>r. receivers t k = Some r \<and> r_assoc r = a \<and> r_target r = target) \<or>
    (\<nexists>f. cells t k = Some (Some f)) \<and>
    (\<exists>i p. packets t i = Some p \<and> t_assoc p = a \<and> t_target p = target \<and> opens_slot (t_stage p) = Some k)"
proof -
  have "relay_inv hz t"
    using relay_system.reachable_inv [of s hz cfg mx t] assms(1-3) by blast
  then have o: "owned t k" and p: "slot_places t"
    using slots_ownedD assms(4) by (auto simp: relay_inv_def)
  note same = slot_places_same [OF p _ refs.by_map [OF assms(4)]]
  have "r_assoc r = a \<and> r_target r = target" if "receivers t k = Some r" for r
    by (rule same [OF refs.by_receiver [OF that]])
  moreover have "t_assoc q = a \<and> t_target q = target"
    if "packets t i = Some q" "opens_slot (t_stage q) = Some k" for i q
    by (rule same [OF refs.by_task [OF that(1) opens_slot_held [OF that(2)]]])
  ultimately show ?thesis
    using o unfolding owned_def by blast
qed

theorem no_slot_leak_witness:
  "(\<exists>r. receivers (demo_sequence 8) 0 = Some r \<and> r_assoc r = 0 \<and> r_target r = demo_target) \<or>
    (\<nexists>f. cells (demo_sequence 8) 0 = Some (Some f)) \<and>
    (\<exists>i p. packets (demo_sequence 8) i = Some p \<and> t_assoc p = 0 \<and> t_target p = demo_target \<and>
       opens_slot (t_stage p) = Some 0)"
proof (rule no_slot_leak [OF demo_relay_start demo_sequence_steps])
  have "demo_sequence 8 = demo_run 6"
    by (simp add: demo_sequence_def numeral_eq_Suc)
  then show "flows (assocs (demo_sequence 8) 0) demo_target = Some 0"
    by (simp add: demo_run_eq demo_at_def)
qed (simp add: cfg_default_def)

lemma udp_datagram_task_iff:
  assumes "reg_inv (assocs s, reg s)" and "packets s (next_packet s) = None"
  shows "(\<exists>t. packets (udp_datagram cfg permit source d s) (next_packet s) = Some t \<and>
      t_assoc t = a \<and> t_target t = target \<and> t_payload t = payload) \<longleftrightarrow>
    permit \<and> wl_allows (cfg_whitelist cfg) (sock_ip source) \<and>
    parse_datagram (take 65535 d) = Inr (target, payload) \<and>
    (\<exists>i. entries (reg s) i = Some a \<and> alive (assocs s a) \<and> owner (sessions (assocs s, reg s)) source i)"
proof -
  obtain res h r where f: "reg_find source (assocs s, reg s) = (res, h, r)"
    by (cases "reg_find source (assocs s, reg s)")
  have "res = Some a \<longleftrightarrow>
      (\<exists>i. entries (reg s) i = Some a \<and> alive (assocs s a) \<and> owner (sessions (assocs s, reg s)) source i)"
    using reg_find_owner [OF assms(1), of source a] by (simp add: f)
  then show ?thesis
    using assms(2)
    by (auto simp: udp_datagram_def f RELAY_BUFFER_SIZE_def split: sum.splits prod.splits option.splits)
qed

text \<open>C27: Admission. A datagram starts a packet task if and only if a permit is free, its
  source passes the whitelist, it parses, and a live association of the registry owns its
  source; the task then works for that association on the target and the payload that were
  parsed.\<close>

theorem datagram_admitted_iff:
  assumes "reg_inv (assocs s, reg s)" and "packets s (next_packet s) = None"
  shows "(\<exists>t. packets (udp_datagram cfg permit source d s) (next_packet s) = Some t \<and>
      t_assoc t = a \<and> t_target t = target \<and> t_payload t = payload) \<longleftrightarrow>
    permit \<and> wl_allows (cfg_whitelist cfg) (sock_ip source) \<and>
    parse_datagram (take 65535 d) = Inr (target, payload) \<and>
    (\<exists>i. entries (reg s) i = Some a \<and> alive (assocs s a) \<and> owner (sessions (assocs s, reg s)) source i)"
  using assms by (rule udp_datagram_task_iff)

theorem datagram_admitted_iff_witness:
  "(\<exists>t. packets (udp_datagram cfg_default True (SockV4 7 5) [0, 0, 0, 1, 8, 8, 8, 8, 0, 53, 1] demo_registered)
      (next_packet demo_registered) = Some t \<and>
      t_assoc t = 0 \<and> t_target t = demo_target \<and> t_payload t = [1]) \<longleftrightarrow>
    True \<and> wl_allows (cfg_whitelist cfg_default) (sock_ip (SockV4 7 5)) \<and>
    parse_datagram (take 65535 [0, 0, 0, 1, 8, 8, 8, 8, 0, 53, 1]) = Inr (demo_target, [1]) \<and>
    (\<exists>i. entries (reg demo_registered) i = Some 0 \<and> alive (assocs demo_registered 0) \<and>
       owner (sessions (assocs demo_registered, reg demo_registered)) (SockV4 7 5) i)"
proof (rule datagram_admitted_iff)
  show "reg_inv (assocs demo_registered, reg demo_registered)"
    using demo_inv by (simp add: demo_registered_def)
qed (simp add: demo_registered_def demo_relay_def)

section \<open>Answers\<close>

text \<open>
  A receiver is past its look at \<open>alive\<close>: it has an answer that it will send if its client's
  address is known.
\<close>

definition answering :: "relay \<Rightarrow> nat \<Rightarrow> bool" where
  "answering s k \<longleftrightarrow>
     (case receivers s k of
        Some r \<Rightarrow> (case r_stage r of Answering n \<Rightarrow> True | Replying packet source \<Rightarrow> True | _ \<Rightarrow> False)
      | None \<Rightarrow> False)"

lemma answering_iff:
  "answering s k \<longleftrightarrow>
     (\<exists>r. receivers s k = Some r \<and> ((\<exists>n. r_stage r = Answering n) \<or> (\<exists>packet source. r_stage r = Replying packet source)))"
  by (auto simp: answering_def split: option.splits receive_stage.splits)

lemma relay_inv_buffer: "relay_inv hz s \<Longrightarrow> receivers s k = Some r \<Longrightarrow> buffer_ok r"
  by (auto simp: relay_inv_def clock_ok_def)

text \<open>The two steps of an answer: it is accepted, and it is packed for its client.\<close>

lemma answer_accepted:
  assumes inv: "relay_inv hz s" and r: "receivers s k = Some r" "r_stage r = Waiting" "alive (assocs s (r_assoc r))"
  obtains r' n where
    "receivers (fst (receiver_step mx tmo oldest now (Received_reply d) k s)) k = Some r'"
    "r_stage r' = Answering n" "r_assoc r' = r_assoc r" "r_dest r' = r_dest r"
    "take n (drop 22 (r_buffer r')) = take 65513 d"
proof -
  obtain f where f: "cells s k = Some (Some f)"
    using slot_cells_tasks(2) [OF _ r(1)] inv unfolding relay_inv_def by blast
  have ok: "\<not> f_poisoned f" and l: "length (r_buffer r) = 65535"
    using inv f relay_inv_buffer [OF inv r(1)]
    by (auto simp: relay_inv_def clock_ok_def buffer_ok_def RELAY_BUFFER_SIZE_def)
  obtain b n where b: "receive_into (r_buffer r) d = (b, n)"
    by (cases "receive_into (r_buffer r) d")
  show thesis
    by (rule that [of "r\<lparr>r_buffer := b, r_replied := True, r_stage := Answering n\<rparr>" n])
      (use receive_into_parts [OF b] l in \<open>simp_all add: receiver_step_def r f receive_turn_def receive_event_def ok b
        apply_result_def\<close>)
qed

lemma answer_addressed:
  assumes inv: "relay_inv hz s" and r: "receivers s k = Some r" "r_stage r = Answering n"
    "endpoint (assocs s (r_assoc r)) = Some source"
  obtains r' where
    "receivers (fst (receiver_step mx tmo oldest now ev k s)) k = Some r'"
    "r_stage r' = Replying (encode_datagram (r_dest r) (take n (drop 22 (r_buffer r)))) source"
    "r_assoc r' = r_assoc r" "r_dest r' = r_dest r"
proof -
  obtain f where f: "cells s k = Some (Some f)"
    using slot_cells_tasks(2) [OF _ r(1)] inv unfolding relay_inv_def by blast
  have "22 + n \<le> length (r_buffer r)"
    using relay_inv_buffer [OF inv r(1)] r(2) by (simp add: buffer_ok_def)
  then obtain b where b: "pack_reply (r_buffer r) n (r_dest r) =
      Some (b, encode_datagram (r_dest r) (take n (drop 22 (r_buffer r))))"
    using pack_reply_eq by blast
  show thesis
    by (rule that [of "r\<lparr>r_buffer := b, r_stage := Replying (encode_datagram (r_dest r) (take n (drop 22 (r_buffer r)))) source\<rparr>"])
      (simp_all add: receiver_step_def r f receive_turn_def receive_answer_def b apply_result_def)
qed

lemma answer_leaves:
  assumes "relay_inv hz s" "receivers s k = Some r"
  shows "snd (receiver_step mx tmo oldest now ev k s) = answer_sent r"
  using slot_cells_tasks(2) [OF _ assms(2)] assms by (auto simp: relay_inv_def receiver_step_def)

text \<open>
  A receiver that is past its look at \<open>alive\<close> after a step either was so before, or waited and
  found its association alive; and one that sends has read the endpoint it sends to.
\<close>

lemma receive_turn_answers:
  assumes "receive_turn mx tmo ev now a f r = Next r' at"
  shows "r_stage r' = Answering n \<Longrightarrow> r_stage r = Waiting \<and> alive a"
    and "r_stage r' = Replying packet source \<Longrightarrow> (\<exists>n. r_stage r = Answering n) \<and> endpoint a = Some source"
  using assms
  by (auto simp: receive_turn_def receive_top_def receive_event_def receive_answer_def Let_def
      split: receive_stage.splits if_splits receive_event.splits option.splits prod.splits)

lemma packet_step_receiver_stage:
  "receivers (packet_step inp i s) k = Some r \<Longrightarrow> r_stage r \<noteq> Top \<Longrightarrow> receivers s k = Some r"
  by (rule packet_step_cases [of inp i s]) (auto split: if_splits)

lemma receiver_step_answers:
  assumes r: "receivers (fst (receiver_step mx tmo oldest now ev k s)) j = Some r"
  shows "r_stage r = Answering n \<Longrightarrow> receivers s j = Some r \<or>
      (\<exists>r0. receivers s j = Some r0 \<and> r_stage r0 = Waiting \<and> r_assoc r0 = r_assoc r \<and> alive (assocs s (r_assoc r)))"
    and "r_stage r = Replying packet source \<Longrightarrow> receivers s j = Some r \<or>
      (\<exists>r0 n. receivers s j = Some r0 \<and> r_stage r0 = Answering n \<and> r_assoc r0 = r_assoc r \<and>
        endpoint (assocs s (r_assoc r)) = Some source)"
proof -
  have cases: "receivers s j = Some r \<or> (\<exists>r0 f at. receivers s j = Some r0 \<and> r_assoc r0 = r_assoc r \<and>
    receive_turn mx tmo ev now (assocs s (r_assoc r)) f r0 = Next r at)"
  proof (rule receiver_step_cases [of mx tmo oldest now ev k s])
    fix r1 f r' at
    assume n: "receivers s k = Some r1" "receive_turn mx tmo ev now (assocs s (r_assoc r1)) f r1 = Next r' at"
      "r_assoc r' = r_assoc r1"
      and e: "fst (receiver_step mx tmo oldest now ev k s) =
         (set_cell k (Some (f\<lparr>f_last := at\<rparr>)) s)\<lparr>receivers := (receivers s)(k \<mapsto> r')\<rparr>"
    have "j = k \<and> r = r' \<or> receivers s j = Some r"
      using r by (simp add: e split: if_splits)
    then show ?thesis
      using n by metis
  qed (use r in \<open>simp_all split: if_splits\<close>)
  show "receivers s j = Some r \<or>
      (\<exists>r0. receivers s j = Some r0 \<and> r_stage r0 = Waiting \<and> r_assoc r0 = r_assoc r \<and> alive (assocs s (r_assoc r)))"
    if "r_stage r = Answering n"
    using cases receive_turn_answers(1) that by metis
  show "receivers s j = Some r \<or>
      (\<exists>r0 n. receivers s j = Some r0 \<and> r_stage r0 = Answering n \<and> r_assoc r0 = r_assoc r \<and>
        endpoint (assocs s (r_assoc r)) = Some source)"
    if "r_stage r = Replying packet source"
    using cases receive_turn_answers(2) that by metis
qed

lemma relay_moves_answers:
  assumes "relay_moves cfg mx hz s t" and r: "receivers t k = Some r"
  shows "r_stage r = Answering n \<Longrightarrow> receivers s k = Some r \<or>
      (\<exists>r0. receivers s k = Some r0 \<and> r_stage r0 = Waiting \<and> r_assoc r0 = r_assoc r \<and> alive (assocs s (r_assoc r)))"
    and "r_stage r = Replying packet source \<Longrightarrow> receivers s k = Some r \<or>
      (\<exists>r0 n. receivers s k = Some r0 \<and> r_stage r0 = Answering n \<and> r_assoc r0 = r_assoc r \<and>
        endpoint (assocs s (r_assoc r)) = Some source)"
proof -
  have cases: "(r_stage r \<noteq> Top \<longrightarrow> receivers s k = Some r) \<or> (\<exists>slot oldest ev now.
      receivers (fst (receiver_step mx (unat (cfg_udp_timeout cfg)) oldest now ev slot s)) k = Some r)"
    using assms(1)
  proof cases
    case (relay_packet inp i)
    then show ?thesis
      using r packet_step_receiver_stage by blast
  next
    case (relay_reply slot oldest ev now)
    then show ?thesis
      using r by blast
  qed (use r in simp)
  show "receivers s k = Some r \<or>
      (\<exists>r0. receivers s k = Some r0 \<and> r_stage r0 = Waiting \<and> r_assoc r0 = r_assoc r \<and> alive (assocs s (r_assoc r)))"
    if "r_stage r = Answering n"
    using cases
  proof (elim disjE exE)
    fix slot oldest ev now
    assume "receivers (fst (receiver_step mx (unat (cfg_udp_timeout cfg)) oldest now ev slot s)) k = Some r"
    then show ?thesis
      using that by (rule receiver_step_answers(1))
  qed (use that in simp)
  show "receivers s k = Some r \<or>
      (\<exists>r0 n. receivers s k = Some r0 \<and> r_stage r0 = Answering n \<and> r_assoc r0 = r_assoc r \<and>
        endpoint (assocs s (r_assoc r)) = Some source)"
    if "r_stage r = Replying packet source"
    using cases
  proof (elim disjE exE)
    fix slot oldest ev now
    assume "receivers (fst (receiver_step mx (unat (cfg_udp_timeout cfg)) oldest now ev slot s)) k = Some r"
    then show ?thesis
      using that by (rule receiver_step_answers(2))
  qed (use that in simp)
qed

text \<open>A task that comes to a send has found its association alive.\<close>

lemma relay_moves_sending:
  assumes "relay_moves cfg mx hz s t" and "packets t i = Some p" and "t_stage p = Sending k"
  shows "packets s i = Some p \<or> alive (assocs s (t_assoc p))"
  using assms(1)
proof cases
  case (relay_datagram permit source d)
  then show ?thesis
    using udp_datagram_packets [of cfg permit source d s] assms(2,3) by (auto split: if_splits)
next
  case (relay_packet inp j)
  then show ?thesis
    by (rule_tac packet_step_cases [of inp j s]) (use assms(2,3) in \<open>auto split: if_splits\<close>)
next
  case (relay_reply slot oldest ev now)
  then show ?thesis
    using assms(2) by simp
qed

text \<open>The run goes on: the receiver looks at the clock and waits.\<close>

definition demo_waiting :: relay where
  "demo_waiting = fst (receiver_step 1000 (unat (cfg_udp_timeout cfg_default)) None 2 Receive_failed 0 (demo_run 6))"

lemmas receiver_step_defs = receiver_step_def receive_turn_def receive_top_def apply_result_def

lemma demo_waiting_receiver: "receivers demo_waiting 0 = Some (demo_receiver\<lparr>r_stage := Waiting\<rparr>)"
  by (simp add: demo_waiting_def demo_run_eq receiver_step_defs demo_defs
      demo_receiver_def demo_flow_def cfg_default_def)

lemma demo_waits: "relay_moves cfg_default 1000 10 (demo_run 6) demo_waiting"
  unfolding demo_waiting_def
  by (rule relay_reply) (use demo_run_ok [of 6] in \<open>auto simp: evicts_def event_enabled_def demo_state_ok_def\<close>)

lemma demo_moves: "(relay_moves cfg_default 1000 10)\<^sup>*\<^sup>* demo_registered demo_waiting"
proof -
  have "(relay_moves cfg_default 1000 10)\<^sup>*\<^sup>* demo_registered (demo_run n)" for n
    by (induction n)
      (use demo_receives in \<open>auto simp: demo_run_def [of 0] intro: rtranclp.rtrancl_into_rtrancl demo_run_step\<close>)
  then show ?thesis
    using demo_waits by (rule rtranclp.rtrancl_into_rtrancl)
qed

lemma demo_waiting_steps: "(udp_step cfg_default 1000 10)\<^sup>*\<^sup>* demo_relay demo_waiting"
proof -
  have "(udp_step cfg_default 1000 10)\<^sup>*\<^sup>* demo_registered demo_waiting"
    using demo_moves by (rule relay_moves_udp)
  then show ?thesis
    using demo_registers by (rule converse_rtranclp_into_rtranclp [rotated])
qed

lemma demo_waiting_assocs: "assocs demo_waiting = assocs (demo_run 6)"
  by (simp add: demo_waiting_def demo_run_eq receiver_step_defs demo_defs
      demo_receiver_def demo_flow_def cfg_default_def)

lemma demo_waiting_client: "alive (assocs demo_waiting 0)" "endpoint (assocs demo_waiting 0) = Some (SockV4 7 5)"
  by (simp_all add: demo_waiting_assocs demo_run_eq demo_defs)

text \<open>An answer of two bytes comes in, and is packed for the client.\<close>

definition demo_answering :: relay where
  "demo_answering = fst (receiver_step 1000 (unat (cfg_udp_timeout cfg_default)) None 3 (Received_reply [9, 8]) 0 demo_waiting)"

definition demo_replying :: relay where
  "demo_replying = fst (receiver_step 1000 (unat (cfg_udp_timeout cfg_default)) None 3 Receive_failed 0 demo_answering)"

lemma demo_waiting_inv: "relay_inv 10 demo_waiting"
  using relay_system.reachable_inv [of demo_relay 10 cfg_default 1000 demo_waiting] demo_relay_start demo_waiting_steps
  by (simp add: cfg_default_def)

lemma demo_preferred: "preferred (assocs demo_waiting a) = Map.empty"
  using demo_run_ok [of 6] by (simp add: demo_waiting_assocs demo_state_ok_def)

lemma demo_accepts_answer: "relay_moves cfg_default 1000 10 demo_waiting demo_answering"
  unfolding demo_answering_def
  by (rule relay_reply) (auto simp: evicts_def event_enabled_def demo_preferred)

lemma demo_answering_steps: "(udp_step cfg_default 1000 10)\<^sup>*\<^sup>* demo_relay demo_answering"
  by (rule rtranclp.rtrancl_into_rtrancl [OF demo_waiting_steps udp_task [OF demo_accepts_answer]])

lemma demo_answering_inv: "relay_inv 10 demo_answering"
  using relay_system.reachable_inv [of demo_relay 10 cfg_default 1000 demo_answering] demo_relay_start demo_answering_steps
  by (simp add: cfg_default_def)

lemma demo_answering_assocs: "assocs demo_answering = assocs demo_waiting"
  unfolding demo_answering_def
  by (auto simp: receiver_step_def demo_waiting_receiver receive_turn_def receive_event_def apply_result_def
      set_cell_def demo_waiting_client demo_receiver_def split: option.splits prod.splits)
text \<open>A closed association gives everything back. Once it is no longer alive, the next step of any
  of its receivers that is told so (or that is about to look) ends it and takes its slot out
  of the map; one that has accepted an answer before is told after that answer.\<close>

theorem closed_association_frees:
  assumes "udp_start s0" and "(udp_step cfg mx hz)\<^sup>*\<^sup>* s0 s"
    and "hz + unat (cfg_udp_timeout cfg) \<le> mx" and "receivers s k = Some r"
    and "\<not> alive (assocs s (r_assoc r))" and "r_stage r \<in> {Top, Waiting}"
    and "s' = fst (receiver_step mx (unat (cfg_udp_timeout cfg)) oldest now Association_stopped k s)"
  shows "receivers s' k = None \<and> (\<forall>a t. flows (assocs s' a) t \<noteq> Some k)"
proof -
  have inv: "relay_inv hz s"
    using relay_system.reachable_inv [of s0 hz cfg mx s] assms(1-3) by blast
  then obtain f where f: "cells s k = Some (Some f)"
    using slot_cells_tasks(2) [OF _ assms(4)] unfolding relay_inv_def by blast
  have e: "s' = end_receiver oldest False k r f s"
    using assms(5,6) by (auto simp: assms(7) receiver_step_defs assms(4) f receive_event_def)
  have "slot_places s" using inv by (simp add: relay_inv_def)
  then have "a = r_assoc r \<and> t = r_target r" if "flows (assocs s a) t = Some k" for a t
    by (rule slot_places_same [OF _ refs.by_map [OF that] refs.by_receiver [OF assms(4)]])
  then show ?thesis
    by (auto simp: e split: if_splits)
qed

definition demo_closed :: relay where
  "demo_closed = demo_waiting\<lparr>assocs := (assocs demo_waiting)
     (0 := (assocs demo_waiting 0)\<lparr>alive := False, stopped := True\<rparr>)\<rparr>"

lemma demo_closed_steps: "(udp_step cfg_default 1000 10)\<^sup>*\<^sup>* demo_relay demo_closed"
proof (rule rtranclp.rtrancl_into_rtrancl [OF demo_waiting_steps])
  show "udp_step cfg_default 1000 10 demo_waiting demo_closed"
    using udp_control [of demo_waiting "assocs demo_closed" "reg demo_closed" cfg_default 1000 10] reg_stop
    by (simp add: demo_closed_def)
qed

theorem closed_association_frees_witness:
  "receivers (fst (receiver_step 1000 (unat (cfg_udp_timeout cfg_default)) None 3 Association_stopped 0 demo_closed))
     0 = None \<and>
   (\<forall>a t. flows (assocs (fst (receiver_step 1000 (unat (cfg_udp_timeout cfg_default)) None 3
     Association_stopped 0 demo_closed)) a) t \<noteq> Some 0)"
proof (rule closed_association_frees [OF demo_relay_start demo_closed_steps _ _ _ _ refl])
  show "receivers demo_closed 0 = Some (demo_receiver\<lparr>r_stage := Waiting\<rparr>)"
    by (simp add: demo_closed_def demo_waiting_receiver)
qed (simp_all add: demo_closed_def demo_receiver_def cfg_default_def)

text \<open>
  The offsets visit every index once, and the one before the start last.
\<close>

lemma cyclic_last:
  assumes "i < n" "off < n" "(Suc i + off) mod n = i"
  shows "off = n - 1"
proof (cases "Suc i + off < n")
  case False
  then have "(Suc i + off) mod n = Suc i + off - n"
    using assms(1,2) by (simp add: mod_if)
  then show ?thesis using assms(3) False by simp
qed (use assms(3) in simp)

lemma cyclic_visits:
  assumes "i < n" "j < n" "j \<noteq> i"
  shows "\<exists>off < n - 1. (Suc i + off) mod n = j"
proof (cases "i < j")
  case True
  then show ?thesis
    using assms by (intro exI [of _ "j - Suc i"]) auto
next
  case False
  then have "(Suc i + (n + j - Suc i)) mod n = j" "n + j - Suc i < n - 1"
    using assms by auto
  then show ?thesis by blast
qed

lemma select_address_next:
  assumes "select_address usable addresses (Suc i mod length addresses) = Some i" "i < length addresses"
    and "j < length addresses" "j \<noteq> i"
  shows "\<not> usable (addresses ! j)"
proof -
  let ?n = "length addresses"
  obtain off where off: "off < ?n" "(Suc i + off) mod ?n = i"
    "\<And>o'. o' < off \<Longrightarrow> \<not> usable (addresses ! ((Suc i + o') mod ?n))"
    using assms(1) by (auto simp: select_address_def find_Some_iff mod_simps)
  obtain o' where "o' < ?n - 1" "(Suc i + o') mod ?n = j"
    using cyclic_visits [OF assms(2-4)] by blast
  then show ?thesis
    using off(3) [of o'] cyclic_last [OF assms(2) off(1,2)] by simp
qed

text \<open>C29: A failed address is left. When a send fails on a live flow over several addresses, the
  association prefers the address after it from then on; the next flow for the target that
  is opened over as many addresses takes a usable one, and takes the failed one again only if
  no other is usable.\<close>

theorem failover_moves_on:
  assumes "packets s i = Some t" and "t_stage t = Sending k" and "cells s k = Some (Some f)"
    and "f_active f" and "1 < f_count f" and "f_index f < f_count f" and "\<not> in_sent inp"
    and "m = preferred (assocs (packet_step inp i s) (t_assoc t))"
    and "length addresses = f_count f"
    and "select_address usable addresses (start_index m (t_target t) (length addresses)) = Some j"
  shows "m (t_target t) = Some ((f_index f + 1) mod f_count f) \<and> usable (addresses ! j) \<and>
    (j = f_index f \<longrightarrow> (\<forall>l < length addresses. l \<noteq> f_index f \<longrightarrow> \<not> usable (addresses ! l)))"
proof -
  have f: "f_index f < length addresses"
    using assms(6,9) by simp
  have m: "m (t_target t) = Some ((f_index f + 1) mod f_count f)"
    using packet_step_Sending [OF assms(1-3), of inp] assms(4,5,7)
    by (simp add: assms(8) Let_def advance_udp_address_def remember_lookup)
  then have "start_index m (t_target t) (length addresses) = Suc (f_index f) mod length addresses"
    by (simp add: start_index_def assms(9))
  then show ?thesis
    using m assms(10) select_address_less [OF assms(10)] select_address_next [OF _ f] by auto
qed

definition demo_flow2 :: flow where
  "demo_flow2 = \<lparr>f_peer = SockV4 0x08080808 53, f_index = 1, f_count = 3, f_active = True, f_stopped = False,
     f_last = 1, f_poisoned = False\<rparr>"

definition demo_sending :: relay where
  "demo_sending = demo_relay\<lparr>packets := [0 \<mapsto> demo_task 1 (Sending 0)],
     cells := (\<lambda>_. None)(0 := Some (Some demo_flow2))\<rparr>"

lemma demo_sending_simps:
  "packets demo_sending 0 = Some (demo_task 1 (Sending 0))" "cells demo_sending 0 = Some (Some demo_flow2)"
  "t_stage (demo_task 1 (Sending 0)) = Sending 0" "t_assoc (demo_task 1 (Sending 0)) = 0"
  "t_target (demo_task 1 (Sending 0)) = demo_target" "f_active demo_flow2" "f_count demo_flow2 = 3"
  "f_index demo_flow2 = 1" "\<not> in_sent (demo_input\<lparr>in_sent := False\<rparr>)"
  by (simp_all add: demo_sending_def demo_task_def demo_flow2_def demo_input_def)

theorem failover_moves_on_witness:
  "preferred (assocs (packet_step (demo_input\<lparr>in_sent := False\<rparr>) 0 demo_sending) 0) demo_target = Some 2 \<and>
   (\<lambda>a. a \<noteq> SockV4 3 53) ([SockV4 1 53, SockV4 2 53, SockV4 3 53] ! 0)"
proof -
  let ?m = "preferred (assocs (packet_step (demo_input\<lparr>in_sent := False\<rparr>) 0 demo_sending) 0)"
  let ?as = "[SockV4 1 53, SockV4 2 53, SockV4 3 53]"
  note d = demo_sending_simps
  have m: "?m demo_target = Some 2"
    by (simp add: packet_step_Sending [OF d(1,3,2)] d advance_udp_address_def remember_lookup Let_def
        del: One_nat_def)
  have sel: "select_address (\<lambda>a. a \<noteq> SockV4 3 53) ?as (start_index ?m demo_target (length ?as)) = Some 0"
    unfolding start_index_def m by (simp add: select_address_def upt_rec)
  have "1 < f_count demo_flow2" "f_index demo_flow2 < f_count demo_flow2" "length ?as = f_count demo_flow2"
    by (simp_all add: d)
  from failover_moves_on [OF d(1,3,2,6) this(1,2) d(9) refl this(3), unfolded d(4,5), OF sel]
  show ?thesis
    using m by blast
qed

text \<open>C38: A timeout that is too large leaks. The hypothesis on the clock is needed: when the last activity
  plus the configured timeout is beyond the last \<open>Instant\<close>, a receiver that looks at the
  clock panics with the mutex of the flow locked. Its slot stays in the map with nobody to
  take it out, although the association lives, and every packet task that comes to the flow
  panics in its turn: nothing is sent to the target any more.\<close>

theorem overflowing_timeout_leaks:
  assumes "receivers s k = Some r" and "cells s k = Some (Some f)" and "r_stage r = Top"
    and "alive (assocs s (r_assoc r))" and "timeout \<noteq> 0" and "mx < f_last f + timeout"
    and "flows (assocs s (r_assoc r)) (r_target r) = Some k" and "f_active f"
    and "s' = fst (receiver_step mx timeout oldest now ev k s)"
  shows "flows (assocs s' (r_assoc r)) (r_target r) = Some k \<and> \<not> owned s' k \<and>
    (\<forall>inp i p. packets s' i = Some p \<longrightarrow> t_stage p = Have k \<longrightarrow> packet_step inp i s' = end_packet i s')"
proof -
  have s': "s' = (set_cell k (Some (f\<lparr>f_poisoned := True\<rparr>)) s)\<lparr>receivers := (receivers s)(k := None)\<rparr>"
    using assms by (simp add: receiver_step_defs)
  show ?thesis
    using assms(7,8) by (simp add: s' owned_def packet_step_Have)
qed

theorem overflowing_timeout_leaks_witness:
  "flows (assocs (fst (receiver_step 100 100 None 2 Receive_failed 0 (demo_run 6))) (r_assoc demo_receiver))
     (r_target demo_receiver) = Some 0 \<and>
   \<not> owned (fst (receiver_step 100 100 None 2 Receive_failed 0 (demo_run 6))) 0"
  using overflowing_timeout_leaks [of "demo_run 6" 0 demo_receiver demo_flow 100 100 _ None 2 Receive_failed, OF _ _ _ _ _ _ _ _ refl]
  by (simp add: demo_run_eq demo_defs demo_receiver_def demo_flow_def)

end
