(* ===== verification/System.thy ===== *)
theory System
  imports Server Handler Udp_Guarantees
begin

text \<open>
  The running server as one transition system. Its state is the accept loop's (Server), the
  associations with the registry and the tasks of the datagram loop (Udp_Relay), and for
  every handler how far it has come with its association (Associate). A step is one access
  of one task to what is shared: a connection that is accepted, a handler that registers,
  marks or removes its association or ends, a step of the datagram loop, of a packet task
  or of a receiver, and the end of the accept loop.
\<close>

section \<open>The steps\<close>

text \<open>
  A handler is in the handshake (or relays a TCP connection), or its association is
  registered, or marked and not yet removed, or it has nothing to do with the registry any
  more.
\<close>

datatype phase = Handshaking | Holding nat | Marked nat | Leaving

record system =
  sy_serving :: serving
  sy_relay :: relay
  sy_phase :: "nat \<Rightarrow> phase"
  sy_next_ref :: nat
  sy_stopped :: bool

text \<open>The associations and the registry change, the tasks do not.\<close>

definition with_registry :: "store \<times> registry \<Rightarrow> relay \<Rightarrow> relay" where
  "with_registry st rl = rl\<lparr>assocs := fst st, reg := snd st\<rparr>"

definition shared :: "system \<Rightarrow> store \<times> registry" where
  "shared s = (assocs (sy_relay s), reg (sy_relay s))"

text \<open>
  \<open>conns\<close> are the connections in the order in which handlers are spawned for them. A handler
  registers after its handshake and the checks of \<open>associate\<close>, with a new association.
\<close>

inductive sys_step ::
  "config \<Rightarrow> (nat \<Rightarrow> conn) \<Rightarrow> nat \<Rightarrow> nat \<Rightarrow> system \<Rightarrow> system \<Rightarrow> bool"
  for cfg :: config and conns :: "nat \<Rightarrow> conn" and max_instant horizon :: nat where
  sys_accept: "\<not> sy_stopped s \<Longrightarrow>
    serve_step cfg cancelled (Accepted address) (sy_serving s) = Serving sv \<Longrightarrow>
    (sv \<noteq> sy_serving s \<Longrightarrow> c_peer (conns (sv_spawned (sy_serving s))) = Inr address) \<Longrightarrow>
    sys_step cfg conns max_instant horizon s (s\<lparr>sy_serving := sv\<rparr>)"
| sys_register: "sv_clients (sy_serving s) n = Some (i, address) \<Longrightarrow> sy_phase s n = Handshaking \<Longrightarrow>
    handle_handshake cfg (conns n) = (Return (Do_associate target), c) \<Longrightarrow>
    associate_relay udp_local target c = (Return (bound, ip), c') \<Longrightarrow>
    associate_register (sy_next_ref s) i (new_association ip (t_port target)) (shared s) = (ok, st) \<Longrightarrow>
    sys_step cfg conns max_instant horizon s
      (s\<lparr>sy_relay := with_registry st (sy_relay s),
         sy_phase := (sy_phase s)(n := if ok then Holding (sy_next_ref s) else Leaving),
         sy_next_ref := Suc (sy_next_ref s)\<rparr>)"
| sys_mark: "sy_phase s n = Holding a \<Longrightarrow>
    sys_step cfg conns max_instant horizon s
      (s\<lparr>sy_relay := upd_assoc a (\<lambda>x. x\<lparr>alive := False, stopped := True\<rparr>) (sy_relay s),
         sy_phase := (sy_phase s)(n := Marked a)\<rparr>)"
| sys_remove: "sv_clients (sy_serving s) n = Some (i, address) \<Longrightarrow> sy_phase s n = Marked a \<Longrightarrow>
    sys_step cfg conns max_instant horizon s
      (s\<lparr>sy_relay := (sy_relay s)\<lparr>reg := reg_remove (assocs (sy_relay s)) i (reg (sy_relay s))\<rparr>,
         sy_phase := (sy_phase s)(n := Leaving)\<rparr>)"
| sys_leave: "sy_phase s n \<in> {Handshaking, Leaving} \<Longrightarrow>
    sys_step cfg conns max_instant horizon s (s\<lparr>sy_serving := client_ended n (sy_serving s)\<rparr>)"
| sys_relay: "relay_moves cfg max_instant horizon (sy_relay s) rl \<Longrightarrow>
    sys_step cfg conns max_instant horizon s (s\<lparr>sy_relay := rl\<rparr>)"
| sys_stop: "\<not> sy_stopped s \<Longrightarrow> serve_step cfg cancelled ev (sy_serving s) = Stopping result u \<Longrightarrow>
    sys_step cfg conns max_instant horizon s
      (s\<lparr>sy_relay := with_registry (stop_all (shared s)) (sy_relay s), sy_stopped := True\<rparr>)"

definition sys_start :: "system \<Rightarrow> bool" where
  "sys_start s \<longleftrightarrow>
     sy_serving s = serve_start 1 \<and> udp_start (sy_relay s) \<and> sy_phase s = (\<lambda>_. Handshaking) \<and>
     sy_next_ref s = 0 \<and> \<not> sy_stopped s"

text \<open>\<open>associate_close\<close> is the marking followed by the removal.\<close>

lemma associate_close_phases:
  "associate_close a i (h, r) =
     (let h' = h(a := (h a)\<lparr>alive := False, stopped := True\<rparr>) in (h', reg_remove h' i r))"
  by (simp add: associate_close_def)

section \<open>Phases go forward\<close>

text \<open>The order of the phases; different associations are not comparable.\<close>

fun phase_rank :: "phase \<Rightarrow> nat" where
  "phase_rank Handshaking = 0"
| "phase_rank (Holding a) = 1"
| "phase_rank (Marked a) = 2"
| "phase_rank Leaving = 3"

instantiation phase :: order
begin

definition less_phase :: "phase \<Rightarrow> phase \<Rightarrow> bool" where
  "less_phase p q \<longleftrightarrow> phase_rank p < phase_rank q"

definition less_eq_phase :: "phase \<Rightarrow> phase \<Rightarrow> bool" where
  "less_eq_phase p q \<longleftrightarrow> p = q \<or> phase_rank p < phase_rank q"

instance
  by standard (auto simp: less_phase_def less_eq_phase_def)

end

lemma phase_order [simp]:
  "Handshaking \<le> p" "p \<le> Leaving" "Holding a \<le> Marked b" "Leaving \<le> p \<longleftrightarrow> p = Leaving"
  "Marked a \<le> p \<longleftrightarrow> p = Marked a \<or> p = Leaving"
  by (cases p; auto simp: less_eq_phase_def)+

lemma sys_step_phase: "sys_step cfg conns mx hz s t \<Longrightarrow> sy_phase s n \<le> sy_phase t n"
  by (induction rule: sys_step.induct) auto

lemma sys_steps_phase: "(sys_step cfg conns mx hz)\<^sup>*\<^sup>* s t \<Longrightarrow> sy_phase s n \<le> sy_phase t n"
  by (induction rule: rtranclp_induct) (auto intro: order_trans sys_step_phase)

section \<open>What the relay leaves alone\<close>

text \<open>The associations that some task works for.\<close>

definition refd :: "relay \<Rightarrow> nat \<Rightarrow> bool" where
  "refd rl a \<longleftrightarrow>
     (\<exists>i t. packets rl i = Some t \<and> t_assoc t = a) \<or> (\<exists>k r. receivers rl k = Some r \<and> r_assoc r = a)"

lemma refdI:
  "packets rl i = Some t \<Longrightarrow> refd rl (t_assoc t)"
  "receivers rl k = Some r \<Longrightarrow> refd rl (r_assoc r)"
  by (auto simp: refd_def)

text \<open>The part of an association that the relay's tasks do not change.\<close>

definition face :: "association \<Rightarrow> ip_addr \<times> u16 \<times> bool \<times> bool" where
  "face x = (client_ip x, requested_port x, alive x, stopped x)"

lemma faceD: "face x = face y \<Longrightarrow> client_ip x = client_ip y \<and> alive x = alive y"
  by (simp add: face_def)

lemma face_flows [simp]:
  "face (remember_udp_address oldest target i x) = face x"
  "face (advance_udp_address oldest target f x) = face x"
  "face (remove_flow_slot target k x) = face x" "face (x\<lparr>flows := fs\<rparr>) = face x"
  by (simp_all add: face_def remember_udp_address_def advance_udp_address_def remove_flow_slot_def Let_def)

lemma packet_step_effects:
  "reg (packet_step inp i s) = reg s"
  "face (assocs (packet_step inp i s) a) = face (assocs s a)"
  "refd (packet_step inp i s) a \<Longrightarrow> refd s a"
  "\<not> refd s a \<Longrightarrow> assocs (packet_step inp i s) a = assocs s a"
proof -
  show "reg (packet_step inp i s) = reg s"
    by (rule packet_step_cases [of inp i s]) (auto split: if_splits)
  show "face (assocs (packet_step inp i s) a) = face (assocs s a)"
    by (rule packet_step_cases [of inp i s]) (auto split: if_splits)
  have "refd s (t_assoc p)" if "packets (packet_step inp i s) j = Some p" for j p
    by (rule packet_step_cases [of inp i s]) (use that in \<open>auto intro: refdI split: if_splits\<close>)
  moreover have "refd s (r_assoc r)" if "receivers (packet_step inp i s) k = Some r" for k r
    by (rule packet_step_cases [of inp i s]) (use that in \<open>auto intro: refdI split: if_splits\<close>)
  ultimately show "refd s a" if "refd (packet_step inp i s) a"
    using that unfolding refd_def [of "packet_step inp i s"] by blast
  show "assocs (packet_step inp i s) a = assocs s a" if "\<not> refd s a"
    using that refdI(1) [of s i]
    by (rule_tac packet_step_cases [of inp i s]) (auto split: if_splits)
qed

lemma receiver_step_effects:
  "reg (fst (receiver_step mx tmo oldest now ev k s)) = reg s"
  "face (assocs (fst (receiver_step mx tmo oldest now ev k s)) a) = face (assocs s a)"
  "refd (fst (receiver_step mx tmo oldest now ev k s)) a \<Longrightarrow> refd s a"
  "\<not> refd s a \<Longrightarrow> assocs (fst (receiver_step mx tmo oldest now ev k s)) a = assocs s a"
proof -
  have e: "assocs (end_receiver oldest failed k r f s) a =
      (if a \<noteq> r_assoc r then assocs s a
       else remove_flow_slot (r_target r) k
         (if f_active f \<and> failed then advance_udp_address oldest (r_target r) f (assocs s a) else assocs s a))"
    for failed r f by (simp add: end_receiver_def Let_def)
  show "reg (fst (receiver_step mx tmo oldest now ev k s)) = reg s"
    by (rule receiver_step_cases [of mx tmo oldest now ev k s]) simp_all
  show "face (assocs (fst (receiver_step mx tmo oldest now ev k s)) a) = face (assocs s a)"
    by (rule receiver_step_cases [of mx tmo oldest now ev k s]) (simp_all add: e)
  show "refd s a" if "refd (fst (receiver_step mx tmo oldest now ev k s)) a"
    using that unfolding refd_def
    by (rule_tac receiver_step_cases [of mx tmo oldest now ev k s]) (auto split: if_splits)
  show "assocs (fst (receiver_step mx tmo oldest now ev k s)) a = assocs s a" if "\<not> refd s a"
    using that refdI(2) [of s k]
    by (rule_tac receiver_step_cases [of mx tmo oldest now ev k s]) (auto simp: e)
qed

lemma reg_find_effects:
  assumes "reg_find source (h, r) = (res, h', r')"
  shows "entries r' = entries r" "face (h' a) = face (h a)"
    "res = Some b \<Longrightarrow> alive (h b) \<and> (\<exists>i. entries r i = Some b)"
proof -
  have "face (snd (accepts x source)) = face x" for x
    by (simp add: face_def accepts_def split: option.splits)
  then show "face (h' a) = face (h a)"
    using assms unfolding reg_find_def Let_def
    by (auto split: option.splits if_splits prod.splits) (metis snd_conv)+
qed (use assms in \<open>auto simp: reg_find_def Let_def split: option.splits if_splits prod.splits\<close>)

lemma udp_datagram_effects:
  "entries (reg (udp_datagram cfg permit source d s)) = entries (reg s)"
  "face (assocs (udp_datagram cfg permit source d s) a) = face (assocs s a)"
  "refd (udp_datagram cfg permit source d s) a \<Longrightarrow>
     refd s a \<or> alive (assocs s a) \<and> (\<exists>i. entries (reg s) i = Some a)"
proof -
  show "entries (reg (udp_datagram cfg permit source d s)) = entries (reg s)"
    by (rule udp_datagram_cases [of cfg permit source d s]) (simp_all add: reg_find_effects(1))
  show "face (assocs (udp_datagram cfg permit source d s) a) = face (assocs s a)"
    by (rule udp_datagram_cases [of cfg permit source d s]) (simp_all add: reg_find_effects(2))
  show "refd s a \<or> alive (assocs s a) \<and> (\<exists>i. entries (reg s) i = Some a)"
    if "refd (udp_datagram cfg permit source d s) a"
    using that unfolding refd_def
    by (rule_tac udp_datagram_cases [of cfg permit source d s])
      (auto dest: reg_find_effects(3) split: if_splits)
qed

lemma relay_moves_effects:
  assumes "relay_moves cfg mx hz s t"
  shows "entries (reg t) = entries (reg s)" "face (assocs t a) = face (assocs s a)"
    "refd t a \<Longrightarrow> refd s a \<or> alive (assocs s a) \<and> (\<exists>i. entries (reg s) i = Some a)"
    "\<not> refd s a \<Longrightarrow> flows (assocs t a) = flows (assocs s a) \<and> preferred (assocs t a) = preferred (assocs s a)"
proof -
  show "entries (reg t) = entries (reg s)"
    using assms by cases (simp_all add: packet_step_effects(1) receiver_step_effects(1) udp_datagram_effects(1))
  show "face (assocs t a) = face (assocs s a)"
    using assms by cases (simp_all add: packet_step_effects(2) receiver_step_effects(2) udp_datagram_effects(2))
  show "refd s a \<or> alive (assocs s a) \<and> (\<exists>i. entries (reg s) i = Some a)" if "refd t a"
    using assms
  proof cases
    case (relay_datagram permit source datagram)
    then show ?thesis using udp_datagram_effects(3) that by simp
  next
    case (relay_packet inp i)
    then show ?thesis using packet_step_effects(3) that by simp
  next
    case (relay_reply k oldest ev now)
    then show ?thesis using receiver_step_effects(3) that by simp
  qed
  show "flows (assocs t a) = flows (assocs s a) \<and> preferred (assocs t a) = preferred (assocs s a)"
    if "\<not> refd s a"
    using assms that by cases (simp_all add: packet_step_effects(4) receiver_step_effects(4) udp_datagram_flows)
qed

text \<open>An association that is dead stays dead: no step revives it, and none reuses its reference.\<close>

definition gone :: "system \<Rightarrow> nat \<Rightarrow> bool" where
  "gone s a \<longleftrightarrow> a < sy_next_ref s \<and> \<not> alive (assocs (sy_relay s) a)"

lemma sys_step_gone: "sys_step cfg conns mx hz s t \<Longrightarrow> gone s a \<Longrightarrow> gone t a"
proof (induction rule: sys_step.induct)
  case (sys_register s n i address target c udp_local bound ip c' ok st)
  have "fst st = (fst (shared s))(sy_next_ref s := new_association ip (t_port target))"
    using associate_register_entries [OF sys_register(5)] by blast
  then show ?case using sys_register(6) by (auto simp: gone_def with_registry_def shared_def)
next
  case (sys_relay s rl)
  then show ?case
    using relay_moves_effects(2) [OF sys_relay(1), of a] by (simp add: gone_def face_def)
qed (auto simp: gone_def upd_assoc_def with_registry_def shared_def stop_all_def)

lemma sys_steps_gone: "(sys_step cfg conns mx hz)\<^sup>*\<^sup>* s t \<Longrightarrow> gone s a \<Longrightarrow> gone t a"
  by (induction rule: rtranclp_induct) (auto intro: sys_step_gone)

section \<open>The invariant of the server\<close>

text \<open>Handler \<open>n\<close> has the association \<open>a\<close> in the registry.\<close>

definition holds :: "system \<Rightarrow> nat \<Rightarrow> nat \<Rightarrow> bool" where
  "holds s n a \<longleftrightarrow> sy_phase s n \<in> {Holding a, Marked a}"

text \<open>The registry's entries are the associations of the handlers, under their ids.\<close>

definition entries_held :: "system \<Rightarrow> bool" where
  "entries_held s \<longleftrightarrow>
     (\<forall>i a. entries (reg (sy_relay s)) i = Some a \<longleftrightarrow>
        (\<exists>n address. sv_clients (sy_serving s) n = Some (i, address) \<and> holds s n a))"

text \<open>
  A handler that has an association runs, its client authenticated and asked for it, and the
  association is the client's. It is dead once it is marked.
\<close>

definition holder_ok :: "config \<Rightarrow> (nat \<Rightarrow> conn) \<Rightarrow> system \<Rightarrow> nat \<Rightarrow> nat \<Rightarrow> bool" where
  "holder_ok cfg conns s n a \<longleftrightarrow>
     a < sy_next_ref s \<and>
     (\<exists>i address. sv_clients (sy_serving s) n = Some (i, address) \<and>
        client_ip (assocs (sy_relay s) a) = sock_ip address) \<and>
     (\<exists>target c. handle_handshake cfg (conns n) = (Return (Do_associate target), c)) \<and>
     (sy_phase s n = Marked a \<longrightarrow> \<not> alive (assocs (sy_relay s) a))"

definition holders_ok :: "config \<Rightarrow> (nat \<Rightarrow> conn) \<Rightarrow> system \<Rightarrow> bool" where
  "holders_ok cfg conns s \<longleftrightarrow> (\<forall>n a. holds s n a \<longrightarrow> holder_ok cfg conns s n a)"

text \<open>The accepted connections are the clients', in their order.\<close>

definition peers_ok :: "(nat \<Rightarrow> conn) \<Rightarrow> system \<Rightarrow> bool" where
  "peers_ok conns s \<longleftrightarrow>
     (\<forall>n i address. sv_clients (sy_serving s) n = Some (i, address) \<longrightarrow> c_peer (conns n) = Inr address)"

text \<open>Tasks work for associations that exist, and for a live one only while a handler holds it.\<close>

definition tasks_held :: "system \<Rightarrow> bool" where
  "tasks_held s \<longleftrightarrow>
     (\<forall>a. refd (sy_relay s) a \<longrightarrow>
        a < sy_next_ref s \<and> (alive (assocs (sy_relay s) a) \<longrightarrow> (\<exists>n. sy_phase s n = Holding a))) \<and>
     (\<forall>a \<ge> sy_next_ref s. flows (assocs (sy_relay s) a) = Map.empty \<and>
        preferred (assocs (sy_relay s) a) = Map.empty)"

definition sys_inv :: "config \<Rightarrow> (nat \<Rightarrow> conn) \<Rightarrow> system \<Rightarrow> bool" where
  "sys_inv cfg conns s \<longleftrightarrow>
     serve_inv cfg (sy_serving s) \<and> peers_ok conns s \<and> entries_held s \<and> holders_ok cfg conns s \<and>
     tasks_held s"

lemma sys_invD:
  assumes "sys_inv cfg conns s"
  shows "serve_inv cfg (sy_serving s)" "peers_ok conns s" "entries_held s" "holders_ok cfg conns s"
    "tasks_held s"
  using assms by (simp_all add: sys_inv_def)

lemma sys_start_inv: "sys_start s \<Longrightarrow> sys_inv cfg conns s"
  by (simp add: sys_start_def sys_inv_def serving.start_inv peers_ok_def entries_held_def holds_def
      serve_start_def udp_start_def reg_default_def holders_ok_def tasks_held_def refd_def)

lemma shared_eq [simp]:
  "assocs (with_registry st rl) = fst st" "reg (with_registry st rl) = snd st"
  "packets (with_registry st rl) = packets rl" "receivers (with_registry st rl) = receivers rl"
  "fst (shared s) = assocs (sy_relay s)" "snd (shared s) = reg (sy_relay s)"
  "refd (with_registry st rl) a = refd rl a"
  by (simp_all add: with_registry_def shared_def refd_def)

lemma refd_keeps [simp]:
  "refd (upd_assoc b f rl) a = refd rl a" "refd (rl\<lparr>reg := r\<rparr>) a = refd rl a"
  by (simp_all add: refd_def)

lemma holds_keeps [simp]:
  "holds (s\<lparr>sy_serving := sv\<rparr>) n a = holds s n a" "holds (s\<lparr>sy_relay := rl\<rparr>) n a = holds s n a"
  "holds (s\<lparr>sy_relay := rl, sy_stopped := b\<rparr>) n a = holds s n a"
  by (simp_all add: holds_def)

lemma tasks_heldD:
  "tasks_held s \<Longrightarrow> refd (sy_relay s) a \<Longrightarrow>
     a < sy_next_ref s \<and> (alive (assocs (sy_relay s) a) \<longrightarrow> (\<exists>n. sy_phase s n = Holding a))"
  by (simp add: tasks_held_def)

lemma entries_heldD:
  "entries_held s \<Longrightarrow> entries (reg (sy_relay s)) i = Some a \<Longrightarrow>
     \<exists>n address. sv_clients (sy_serving s) n = Some (i, address) \<and> holds s n a"
  by (simp add: entries_held_def)

text \<open>The holders of an entry.\<close>

definition holder :: "system \<Rightarrow> u64 \<Rightarrow> nat \<Rightarrow> nat \<Rightarrow> bool" where
  "holder s i n a \<longleftrightarrow> (\<exists>address. sv_clients (sy_serving s) n = Some (i, address)) \<and> holds s n a"

lemma entries_held_iff: "entries_held s \<longleftrightarrow> (\<forall>i a. entries (reg (sy_relay s)) i = Some a \<longleftrightarrow> (\<exists>n. holder s i n a))"
  by (simp add: entries_held_def holder_def)

lemma entries_held_cong:
  "entries_held s \<Longrightarrow> entries (reg (sy_relay t)) = entries (reg (sy_relay s)) \<Longrightarrow>
     (\<And>i n a. holder t i n a \<longleftrightarrow> holder s i n a) \<Longrightarrow> entries_held t"
  by (simp add: entries_held_iff)

lemma holdersD: "holders_ok cfg conns s \<Longrightarrow> holds s n a \<Longrightarrow> holder_ok cfg conns s n a"
  by (simp add: holders_ok_def)

section \<open>Every step keeps the invariant\<close>

lemma serve_step_spawned:
  "serve_step cfg cancelled ev sv = Serving sv' \<Longrightarrow> sv_spawned sv \<le> sv_spawned sv'"
  by (erule serve_step_Serving) simp_all

lemma sys_step_spawned: "sys_step cfg conns mx hz s t \<Longrightarrow> sv_spawned (sy_serving s) \<le> sv_spawned (sy_serving t)"
  by (induction rule: sys_step.induct) (simp_all add: serve_step_spawned client_ended_def)

lemma sys_steps_spawned:
  "(sys_step cfg conns mx hz)\<^sup>*\<^sup>* s t \<Longrightarrow> sv_spawned (sy_serving s) \<le> sv_spawned (sy_serving t)"
  by (induction rule: rtranclp_induct) (auto intro: order_trans sys_step_spawned)

lemma client_spawned:
  "serve_inv cfg sv \<Longrightarrow> sv_clients sv n = Some (i, address) \<Longrightarrow> n < sv_spawned sv"
  unfolding serve_inv_def by blast

lemma holder_id:
  assumes "sys_inv cfg conns s" "sv_spawned (sy_serving s) < 2 ^ 64"
    and "sv_clients (sy_serving s) n = Some (i, x)" "entries (reg (sy_relay s)) i = Some a"
  shows "holds s n a"
  using entries_heldD [OF sys_invD(3) [OF assms(1)] assms(4)]
    serve_ids_distinct [OF sys_invD(1) [OF assms(1)] assms(2) assms(3)] by blast

lemma reg_remove_entries: "entries (reg_remove h i r) = (entries r)(i := None)"
  by (auto simp: reg_remove_def Let_def split: option.splits)

lemma other_holding:
  "(\<exists>m. f m = Holding b) \<Longrightarrow> f n \<noteq> Holding b \<Longrightarrow> \<exists>m. (f(n := p)) m = Holding b"
  by (metis fun_upd_other)

lemma sys_accept_inv:
  assumes inv: "sys_inv cfg conns s"
    and step: "serve_step cfg cancelled (Accepted address) (sy_serving s) = Serving sv"
    and peer: "sv \<noteq> sy_serving s \<Longrightarrow> c_peer (conns (sv_spawned (sy_serving s))) = Inr address"
  shows "sys_inv cfg conns (s\<lparr>sy_serving := sv\<rparr>)"
proof (cases "sv = sy_serving s")
  case True
  then show ?thesis using inv by simp
next
  case False
  let ?n = "sv_spawned (sy_serving s)"
  have sv: "sv_clients sv = (sv_clients (sy_serving s))(?n \<mapsto> (sv_next_id (sy_serving s), address))"
    using step False by (auto simp: serve_step_def split: if_splits)
  have "sv_clients (sy_serving s) ?n = None"
    using client_spawned [OF sys_invD(1) [OF inv], of ?n] by (cases "sv_clients (sy_serving s) ?n") auto
  then have none: "\<not> holds s ?n a" for a
    using holdersD [OF sys_invD(4) [OF inv], of ?n a] by (auto simp: holder_ok_def)
  have "serve_inv cfg sv"
    using serve_moves_inv [OF sys_invD(1) [OF inv] serve_event [OF step]] .
  moreover have "peers_ok conns (s\<lparr>sy_serving := sv\<rparr>)"
    using sys_invD(2) [OF inv] peer False by (simp add: peers_ok_def sv)
  moreover have "entries_held (s\<lparr>sy_serving := sv\<rparr>)"
    by (rule entries_held_cong [OF sys_invD(3) [OF inv]])
      (use none in \<open>auto simp: holder_def holds_def sv\<close>)
  moreover have "holders_ok cfg conns (s\<lparr>sy_serving := sv\<rparr>)"
    using sys_invD(4) [OF inv] none by (auto simp: holders_ok_def holder_ok_def holds_def sv)
  ultimately show ?thesis
    using sys_invD(5) [OF inv] by (simp add: sys_inv_def tasks_held_def)
qed

lemma c_peer_wrote: "c_peer (wrote (c\<lparr>rx := r\<rparr>) bs) = c_peer c"
  by (simp add: wrote_def)

text \<open>The client's address of a new association is the one its handler was accepted for.\<close>

lemma register_address:
  assumes "peers_ok conns s" "valid_credentials (cfg_username cfg) (cfg_password cfg)"
    and "sv_clients (sy_serving s) n = Some (i, address)"
    and "handle_handshake cfg (conns n) = (Return (Do_associate target), c)"
    and "associate_relay udp_local target c = (Return (bound, ip), c')"
  shows "ip = sock_ip address"
proof -
  obtain peer where "c_peer c = Inr peer" "ip = sock_ip peer"
    using associate_relay_Return [OF assms(5)] by blast
  moreover have "c = wrote ((conns n)\<lparr>rx := rx c\<rparr>) (auth_answer cfg)"
    using assms(4) handle_handshake_iff [OF assms(2) dispatched.simps(2)] by blast
  then have "c_peer c = c_peer (conns n)"
    by (metis c_peer_wrote)
  ultimately show ?thesis
    using assms(1,3) by (simp add: peers_ok_def)
qed

text \<open>A new entry under the id of the handler \<open>n\<close>, which alone has that id.\<close>

lemma register_entries_held:
  assumes "entries_held s" and "entries (reg (sy_relay s)) i = None" and same: "sy_serving t = sy_serving s"
    and n: "sv_clients (sy_serving s) n = Some (i, address)"
    and only: "\<And>m x. sv_clients (sy_serving s) m = Some (i, x) \<Longrightarrow> m = n"
    and entries: "entries (reg (sy_relay t)) =
      (if ok then (entries (reg (sy_relay s)))(i \<mapsto> a) else entries (reg (sy_relay s)))"
    and holds: "\<And>m b. holds t m b \<longleftrightarrow> (if m = n then ok \<and> b = a else holds s m b)"
  shows "entries_held t"
  unfolding entries_held_iff
proof (intro allI)
  fix j b
  show "entries (reg (sy_relay t)) j = Some b \<longleftrightarrow> (\<exists>m. holder t j m b)"
  proof (cases "j = i")
    case True
    have "holder t i m b \<longleftrightarrow> m = n \<and> ok \<and> b = a" for m
    proof (cases "m = n")
      case False
      then have "\<not> (\<exists>x. sv_clients (sy_serving s) m = Some (i, x))"
        using only by blast
      then show ?thesis using False by (simp add: holder_def same)
    qed (use n in \<open>simp add: holder_def holds same\<close>)
    then show ?thesis
      using assms(2) by (auto simp: True entries)
  next
    case False
    then have "holder t j m b \<longleftrightarrow> holder s j m b" for m
      using n by (auto simp: holder_def holds same)
    then show ?thesis
      using False assms(1) by (simp add: entries_held_iff entries)
  qed
qed

lemma sys_register_inv:
  assumes inv: "sys_inv cfg conns s" and small: "sv_spawned (sy_serving s) < 2 ^ 64"
    and valid: "valid_credentials (cfg_username cfg) (cfg_password cfg)"
    and n: "sv_clients (sy_serving s) n = Some (i, address)" "sy_phase s n = Handshaking"
    and hs: "handle_handshake cfg (conns n) = (Return (Do_associate target), c)"
    and rel: "associate_relay udp_local target c = (Return (bound, ip), c')"
    and regd: "associate_register (sy_next_ref s) i (new_association ip (t_port target)) (shared s) = (ok, st)"
  shows "entries (reg (sy_relay s)) i = None" "sy_next_ref s \<notin> ran (entries (reg (sy_relay s)))"
    and "sys_inv cfg conns (s\<lparr>sy_relay := with_registry st (sy_relay s),
         sy_phase := (sy_phase s)(n := if ok then Holding (sy_next_ref s) else Leaving),
         sy_next_ref := Suc (sy_next_ref s)\<rparr>)" (is "sys_inv cfg conns ?t")
proof -
  let ?a = "sy_next_ref s"
  note r = associate_register_entries [OF regd]
  have free: "\<not> holds s n b" for b
    using n(2) by (simp add: holds_def)
  then show none: "entries (reg (sy_relay s)) i = None"
    using holder_id [OF inv small n(1)] by (metis not_Some_eq)
  have old: "holds s m b \<Longrightarrow> b < ?a" for m b
    using holdersD [OF sys_invD(4) [OF inv]] by (auto simp: holder_ok_def)
  then show "?a \<notin> ran (entries (reg (sy_relay s)))"
    using entries_heldD [OF sys_invD(3) [OF inv]] unfolding ran_def by blast
  have holds: "holds ?t m b \<longleftrightarrow> (if m = n then ok \<and> b = ?a else holds s m b)" for m b
    by (auto simp: holds_def)
  have ip: "ip = sock_ip address"
    using register_address [OF sys_invD(2) [OF inv] valid n(1) hs rel] .
  have "peers_ok conns ?t"
    using sys_invD(2) [OF inv] by (simp add: peers_ok_def)
  moreover have "entries_held ?t"
  proof (rule register_entries_held [OF sys_invD(3) [OF inv] none _ n(1) _ _ holds])
    show "m = n" if "sv_clients (sy_serving s) m = Some (i, x)" for m x
      using serve_ids_distinct [OF sys_invD(1) [OF inv] small that n(1)] .
  qed (use r in simp_all)
  moreover have "holders_ok cfg conns ?t"
    unfolding holders_ok_def
  proof (intro allI impI)
    fix m b assume "holds ?t m b"
    then consider "m = n" "ok" "b = ?a" | "m \<noteq> n" "holds s m b"
      by (auto simp: holds split: if_splits)
    then show "holder_ok cfg conns ?t m b"
    proof cases
      case 1
      then show ?thesis using n(1) hs r ip by (auto simp: holder_ok_def)
    next
      case 2
      then show ?thesis
        using holdersD [OF sys_invD(4) [OF inv] 2(2)] r by (auto simp: holder_ok_def)
    qed
  qed
  moreover have "tasks_held ?t"
    unfolding tasks_held_def
  proof (intro conjI allI impI)
    fix b assume "refd (sy_relay ?t) b"
    then have old: "b < ?a \<and> (alive (assocs (sy_relay s) b) \<longrightarrow> (\<exists>m. sy_phase s m = Holding b))"
      using tasks_heldD [OF sys_invD(5) [OF inv]] by simp
    then show "b < sy_next_ref ?t" by simp
    show "\<exists>m. sy_phase ?t m = Holding b" if "alive (assocs (sy_relay ?t) b)"
      using old that r n(2) other_holding [of "sy_phase s" b n] by auto
  qed (use sys_invD(5) [OF inv] r in \<open>auto simp: tasks_held_def\<close>)
  ultimately show "sys_inv cfg conns ?t"
    using sys_invD(1) [OF inv] by (simp add: sys_inv_def)
qed

lemma holders_okI:
  "(\<And>n a. holds t n a \<Longrightarrow> holder_ok cfg conns t n a) \<Longrightarrow> holders_ok cfg conns t"
  by (simp add: holders_ok_def)

lemma sys_mark_inv:
  assumes inv: "sys_inv cfg conns s" and n: "sy_phase s n = Holding a"
  shows "sys_inv cfg conns
    (s\<lparr>sy_relay := upd_assoc a (\<lambda>x. x\<lparr>alive := False, stopped := True\<rparr>) (sy_relay s),
       sy_phase := (sy_phase s)(n := Marked a)\<rparr>)" (is "sys_inv cfg conns ?t")
proof -
  have holds: "holds ?t m b \<longleftrightarrow> holds s m b" for m b
    using n by (auto simp: holds_def)
  have "entries_held ?t"
    by (rule entries_held_cong [OF sys_invD(3) [OF inv]]) (simp_all add: holder_def holds)
  moreover have "holders_ok cfg conns ?t"
  proof (rule holders_okI)
    fix m b assume "holds ?t m b"
    then have "holder_ok cfg conns s m b"
      using holdersD [OF sys_invD(4) [OF inv]] by (simp add: holds)
    then show "holder_ok cfg conns ?t m b"
      by (auto simp: holder_ok_def)
  qed
  moreover have "tasks_held ?t"
    unfolding tasks_held_def
  proof (intro conjI allI impI)
    fix b assume "refd (sy_relay ?t) b"
    then have old: "b < sy_next_ref s \<and> (alive (assocs (sy_relay s) b) \<longrightarrow> (\<exists>m. sy_phase s m = Holding b))"
      using tasks_heldD [OF sys_invD(5) [OF inv]] by simp
    then show "b < sy_next_ref ?t" by simp
    assume live: "alive (assocs (sy_relay ?t) b)"
    then have "b \<noteq> a" by auto
    then show "\<exists>m. sy_phase ?t m = Holding b"
      using old live n other_holding [of "sy_phase s" b n] by auto
  qed (use sys_invD(5) [OF inv] in \<open>auto simp: tasks_held_def\<close>)
  ultimately show ?thesis
    using inv by (simp add: sys_inv_def peers_ok_def)
qed

lemma sys_remove_inv:
  assumes inv: "sys_inv cfg conns s" and small: "sv_spawned (sy_serving s) < 2 ^ 64"
    and n: "sv_clients (sy_serving s) n = Some (i, address)" "sy_phase s n = Marked a"
  shows "sys_inv cfg conns
    (s\<lparr>sy_relay := (sy_relay s)\<lparr>reg := reg_remove (assocs (sy_relay s)) i (reg (sy_relay s))\<rparr>,
       sy_phase := (sy_phase s)(n := Leaving)\<rparr>)" (is "sys_inv cfg conns ?t")
proof -
  have holds: "holds ?t m b \<longleftrightarrow> m \<noteq> n \<and> holds s m b" for m b
    by (auto simp: holds_def)
  have "entries_held ?t"
    unfolding entries_held_iff
  proof (intro allI)
    fix j b
    have only: "m = n" if "sv_clients (sy_serving s) m = Some (i, x)" for m x
      using serve_ids_distinct [OF sys_invD(1) [OF inv] small that n(1)] .
    have "holder ?t j m b \<longleftrightarrow> j \<noteq> i \<and> holder s j m b" for m
      using n(1) only [of m] by (cases "m = n") (auto simp: holder_def holds)
    then show "entries (reg (sy_relay ?t)) j = Some b \<longleftrightarrow> (\<exists>m. holder ?t j m b)"
      using sys_invD(3) [OF inv] by (simp add: entries_held_iff reg_remove_entries)
  qed
  moreover have "holders_ok cfg conns ?t"
    by (rule holders_okI)
      (use holdersD [OF sys_invD(4) [OF inv]] in \<open>auto simp: holds holder_ok_def\<close>)
  moreover have "tasks_held ?t"
    using sys_invD(5) [OF inv] n(2) other_holding [of "sy_phase s" _ n] by (simp add: tasks_held_def)
  ultimately show ?thesis
    using inv by (simp add: sys_inv_def peers_ok_def)
qed

lemma sys_leave_inv:
  assumes inv: "sys_inv cfg conns s" and n: "sy_phase s n \<in> {Handshaking, Leaving}"
  shows "sys_inv cfg conns (s\<lparr>sy_serving := client_ended n (sy_serving s)\<rparr>)" (is "sys_inv cfg conns ?t")
proof -
  have free: "\<not> holds s n a" for a
    using n by (auto simp: holds_def)
  have "entries_held ?t"
    by (rule entries_held_cong [OF sys_invD(3) [OF inv]])
      (use free in \<open>auto simp: holder_def client_ended_def\<close>)
  moreover have "holders_ok cfg conns ?t"
  proof (rule holders_okI)
    fix m a assume "holds ?t m a"
    then have "m \<noteq> n" "holder_ok cfg conns s m a"
      using free holdersD [OF sys_invD(4) [OF inv]] by auto
    then show "holder_ok cfg conns ?t m a"
      by (simp add: holder_ok_def client_ended_def)
  qed
  moreover have "peers_ok conns ?t" "tasks_held ?t"
    using sys_invD(2,5) [OF inv] by (simp_all add: peers_ok_def tasks_held_def client_ended_def)
  ultimately show ?thesis
    using serve_moves_inv [OF sys_invD(1) [OF inv] serve_ended] by (simp add: sys_inv_def)
qed

lemma sys_relay_inv:
  assumes inv: "sys_inv cfg conns s" and moves: "relay_moves cfg mx hz (sy_relay s) rl"
  shows "sys_inv cfg conns (s\<lparr>sy_relay := rl\<rparr>)" (is "sys_inv cfg conns ?t")
proof -
  note e = relay_moves_effects [OF moves]
  have same: "client_ip (assocs rl a) = client_ip (assocs (sy_relay s) a)"
    "alive (assocs rl a) = alive (assocs (sy_relay s) a)" for a
    using faceD [OF e(2) [of a]] by simp_all
  have "entries_held ?t"
    by (rule entries_held_cong [OF sys_invD(3) [OF inv]]) (simp_all add: e(1) holder_def)
  moreover have "holders_ok cfg conns ?t"
    using sys_invD(4) [OF inv] by (simp add: holders_ok_def holder_ok_def same)
  moreover have "tasks_held ?t"
    unfolding tasks_held_def
  proof (intro conjI allI impI)
    fix a assume "refd (sy_relay ?t) a"
    then have "refd (sy_relay s) a \<or> alive (assocs (sy_relay s) a) \<and> (\<exists>i. entries (reg (sy_relay s)) i = Some a)"
      using e(3) by simp
    then have "a < sy_next_ref s \<and> (alive (assocs (sy_relay s) a) \<longrightarrow> (\<exists>n. sy_phase s n = Holding a))"
    proof (elim disjE conjE exE)
      fix i assume a: "alive (assocs (sy_relay s) a)" "entries (reg (sy_relay s)) i = Some a"
      then obtain n where n: "holds s n a"
        using entries_heldD [OF sys_invD(3) [OF inv]] by blast
      then show ?thesis
        using holdersD [OF sys_invD(4) [OF inv] n] a(1) by (auto simp: holder_ok_def holds_def)
    qed (rule tasks_heldD [OF sys_invD(5) [OF inv]])
    then show "a < sy_next_ref ?t" "alive (assocs (sy_relay ?t) a) \<Longrightarrow> \<exists>n. sy_phase ?t n = Holding a"
      by (simp_all add: same)
  next
    fix a assume a: "sy_next_ref ?t \<le> a"
    then have "\<not> refd (sy_relay s) a"
      using tasks_heldD [OF sys_invD(5) [OF inv]] by fastforce
    then show "flows (assocs (sy_relay ?t) a) = Map.empty" "preferred (assocs (sy_relay ?t) a) = Map.empty"
      using e(4) a sys_invD(5) [OF inv] by (simp_all add: tasks_held_def)
  qed
  ultimately show ?thesis
    using inv by (simp add: sys_inv_def peers_ok_def)
qed

lemma stop_all_simps:
  "snd (stop_all st) = snd st" "client_ip (fst (stop_all st) a) = client_ip (fst st a)"
  "flows (fst (stop_all st) a) = flows (fst st a)" "preferred (fst (stop_all st) a) = preferred (fst st a)"
  "alive (fst (stop_all st) a) \<longleftrightarrow> alive (fst st a) \<and> a \<notin> ran (entries (snd st))"
  by (cases st; simp add: stop_all_def)+

lemma sys_stop_inv:
  assumes inv: "sys_inv cfg conns s"
  shows "sys_inv cfg conns (s\<lparr>sy_relay := with_registry (stop_all (shared s)) (sy_relay s), sy_stopped := True\<rparr>)"
    (is "sys_inv cfg conns ?t")
proof -
  have "entries_held ?t"
    by (rule entries_held_cong [OF sys_invD(3) [OF inv]]) (simp_all add: stop_all_simps holder_def)
  moreover have "holders_ok cfg conns ?t"
    using sys_invD(4) [OF inv] by (simp add: holders_ok_def holder_ok_def stop_all_simps)
  moreover have "tasks_held ?t"
    using sys_invD(5) [OF inv] by (simp add: tasks_held_def stop_all_simps)
  ultimately show ?thesis
    using inv by (simp add: sys_inv_def peers_ok_def)
qed

lemma sys_step_inv:
  assumes "sys_step cfg conns mx hz s t" "sys_inv cfg conns s" "sv_spawned (sy_serving t) < 2 ^ 64"
    and "valid_credentials (cfg_username cfg) (cfg_password cfg)"
  shows "sys_inv cfg conns t"
  using assms(1)
proof cases
  case (sys_accept cancelled address sv)
  then show ?thesis using sys_accept_inv [OF assms(2)] by simp
next
  case (sys_register n i address target c udp_local bound ip c' ok st)
  have "sv_spawned (sy_serving s) < 2 ^ 64"
    using assms(3) sys_register(1) by simp
  then show ?thesis
    using sys_register_inv(3) [OF assms(2) _ assms(4) sys_register(2-6)] sys_register(1) by simp
next
  case (sys_mark n a)
  then show ?thesis using sys_mark_inv [OF assms(2)] by simp
next
  case (sys_remove n i address a)
  then show ?thesis using sys_remove_inv [OF assms(2)] assms(3) by simp
next
  case (sys_leave n)
  then show ?thesis using sys_leave_inv [OF assms(2)] by simp
next
  case (sys_relay rl)
  then show ?thesis using sys_relay_inv [OF assms(2)] by simp
next
  case (sys_stop cancelled ev result u)
  then show ?thesis using sys_stop_inv [OF assms(2)] by simp
qed

interpretation system:
  invariant_system "\<lambda>s. sys_start s \<and> valid_credentials (cfg_username cfg) (cfg_password cfg)"
    "sys_step cfg conns mx hz"
    "\<lambda>s. (sv_spawned (sy_serving s) < 2 ^ 64 \<longrightarrow> sys_inv cfg conns s) \<and>
       valid_credentials (cfg_username cfg) (cfg_password cfg)" for cfg conns mx hz
proof
  fix s t
  assume inv: "(sv_spawned (sy_serving s) < 2 ^ 64 \<longrightarrow> sys_inv cfg conns s) \<and>
       valid_credentials (cfg_username cfg) (cfg_password cfg)"
    and step: "sys_step cfg conns mx hz s t"
  have "sys_inv cfg conns t" if "sv_spawned (sy_serving t) < 2 ^ 64"
    using sys_step_inv [OF step _ that] inv sys_step_spawned [OF step] that by (meson le_less_trans)
  then show "(sv_spawned (sy_serving t) < 2 ^ 64 \<longrightarrow> sys_inv cfg conns t) \<and>
       valid_credentials (cfg_username cfg) (cfg_password cfg)"
    using inv by blast
qed (simp add: sys_start_inv)

section \<open>The parts of the server\<close>

text \<open>The accept loop's part of a run is a run of the accept loop.\<close>

lemma sys_step_serves:
  "sys_step cfg conns mx hz s t \<Longrightarrow> (serve_moves cfg)\<^sup>*\<^sup>* (sy_serving s) (sy_serving t)"
  by (induction rule: sys_step.induct) (auto intro: serve_event serve_ended)

lemma entries_finite:
  assumes "entries_held s" "finite (dom (sv_clients (sy_serving s)))"
  shows "finite (dom (entries (reg (sy_relay s))))"
    and "card (dom (entries (reg (sy_relay s)))) \<le> card (dom (sv_clients (sy_serving s)))"
proof -
  have sub: "dom (entries (reg (sy_relay s))) \<subseteq> (\<lambda>n. fst (the (sv_clients (sy_serving s) n))) ` dom (sv_clients (sy_serving s))"
    using entries_heldD [OF assms(1)] by force
  then show "finite (dom (entries (reg (sy_relay s))))"
    using assms(2) finite_surj by blast
  show "card (dom (entries (reg (sy_relay s)))) \<le> card (dom (sv_clients (sy_serving s)))"
    using surj_card_le [OF assms(2) sub] .
qed

lemma udp_control_with:
  assumes "reg_step (assocs rl, reg rl) st"
    and "\<And>a. flows (fst st a) = flows (assocs rl a) \<and> preferred (fst st a) = preferred (assocs rl a)"
  shows "udp_step cfg mx hz rl (with_registry st rl)"
  using udp_control [of rl "fst st" "snd st" cfg mx hz] assms by (simp add: with_registry_def)

lemma mark_udp:
  "udp_step cfg mx hz rl
     (with_registry ((assocs rl)(b := (assocs rl b)\<lparr>alive := False, stopped := True\<rparr>), reg rl) rl)"
  by (rule udp_control_with) (simp_all add: reg_stop)

lemma stop_some_steps:
  assumes "finite A"
  shows "(udp_step cfg mx hz)\<^sup>*\<^sup>* rl
    (with_registry ((\<lambda>a. if a \<in> A then (assocs rl a)\<lparr>alive := False, stopped := True\<rparr> else assocs rl a), reg rl) rl)"
  using assms
proof (induction A rule: finite_induct)
  case empty
  then show ?case by (simp add: with_registry_def)
next
  case (insert b A)
  let ?h = "\<lambda>a. if a \<in> A then (assocs rl a)\<lparr>alive := False, stopped := True\<rparr> else assocs rl a"
  let ?h' = "?h(b := (?h b)\<lparr>alive := False, stopped := True\<rparr>)"
  have "udp_step cfg mx hz (with_registry (?h, reg rl) rl) (with_registry (?h', reg rl) (with_registry (?h, reg rl) rl))"
    using mark_udp [of cfg mx hz "with_registry (?h, reg rl) rl" b] by (simp only: shared_eq fst_conv snd_conv)
  moreover have "?h' = (\<lambda>a. if a \<in> insert b A then (assocs rl a)\<lparr>alive := False, stopped := True\<rparr> else assocs rl a)"
    using insert(2) by auto
  ultimately show ?case
    using insert(3) by (simp add: with_registry_def)
qed

lemma sys_step_udp:
  assumes step: "sys_step cfg conns mx hz s t" and inv: "sys_inv cfg conns s"
    and small: "sv_spawned (sy_serving s) < 2 ^ 64"
    and valid: "valid_credentials (cfg_username cfg) (cfg_password cfg)"
    and fin: "finite (dom (sv_clients (sy_serving s)))"
  shows "(udp_step cfg mx hz)\<^sup>*\<^sup>* (sy_relay s) (sy_relay t)"
  using step
proof cases
  case (sys_register n i address target c udp_local bound ip c' ok st)
  note new = sys_register_inv(1,2) [OF inv small valid sys_register(2-6)]
  have "reg_step (shared s) st"
    using associate_register_step [of "shared s" i "sy_next_ref s" "new_association ip (t_port target)"] new sys_register(6)
    by simp
  moreover have "flows (fst st a) = flows (assocs (sy_relay s) a) \<and>
      preferred (fst st a) = preferred (assocs (sy_relay s) a)" for a
    using associate_register_entries [OF sys_register(6)] sys_invD(5) [OF inv]
    by (simp add: tasks_held_def new_association_def)
  ultimately have "udp_step cfg mx hz (sy_relay s) (with_registry st (sy_relay s))"
    by (intro udp_control_with) (simp_all add: shared_def)
  then show ?thesis using sys_register(1) by simp
next
  case (sys_mark n a)
  then show ?thesis
    using mark_udp [of cfg mx hz "sy_relay s" a] by (simp add: upd_assoc_def with_registry_def)
next
  case (sys_remove n i address a)
  have "udp_step cfg mx hz (sy_relay s) (with_registry (assocs (sy_relay s),
      reg_remove (assocs (sy_relay s)) i (reg (sy_relay s))) (sy_relay s))"
    by (rule udp_control_with) (simp_all add: reg_close)
  then show ?thesis using sys_remove(1) by (simp add: with_registry_def)
next
  case (sys_stop cancelled ev result u)
  have "finite (ran (entries (reg (sy_relay s))))"
    using entries_finite(1) [OF sys_invD(3) [OF inv] fin] by (rule finite_ran)
  then show ?thesis
    using stop_some_steps [of _ cfg mx hz "sy_relay s"] sys_stop(1) by (simp add: stop_all_def shared_def)
qed (auto intro: udp_task)

lemma sys_reaches:
  assumes "sys_start s0" "(sys_step cfg conns mx hz)\<^sup>*\<^sup>* s0 s"
    and "valid_credentials (cfg_username cfg) (cfg_password cfg)" "sv_spawned (sy_serving s) < 2 ^ 64"
  shows "sys_inv cfg conns s" "(serve_moves cfg)\<^sup>*\<^sup>* (serve_start 1) (sy_serving s)"
    "finite (dom (sv_clients (sy_serving s))) \<and> card (dom (sv_clients (sy_serving s))) \<le> MAX_TCP_CLIENTS"
    "(udp_step cfg mx hz)\<^sup>*\<^sup>* (sy_relay s0) (sy_relay s)"
proof -
  have inv: "sys_inv cfg conns t" if "(sys_step cfg conns mx hz)\<^sup>*\<^sup>* s0 t" "sv_spawned (sy_serving t) < 2 ^ 64" for t
    using system.reachable_inv [of s0 cfg conns mx hz t] assms(1,3) that by blast
  then show "sys_inv cfg conns s"
    using assms(2,4) by blast
  have serves: "(serve_moves cfg)\<^sup>*\<^sup>* (serve_start 1) (sy_serving t)"
    if "(sys_step cfg conns mx hz)\<^sup>*\<^sup>* s0 t" for t
    using that
  proof (induction rule: rtranclp_induct)
    case base
    then show ?case using assms(1) by (simp add: sys_start_def)
  next
    case (step t u)
    then show ?case using sys_step_serves by (meson rtranclp_trans)
  qed
  then show "(serve_moves cfg)\<^sup>*\<^sup>* (serve_start 1) (sy_serving s)"
    using assms(2) by blast
  have fin: "finite (dom (sv_clients (sy_serving t))) \<and> card (dom (sv_clients (sy_serving t))) \<le> MAX_TCP_CLIENTS"
    if "(sys_step cfg conns mx hz)\<^sup>*\<^sup>* s0 t" for t
    using client_permits.steps_bounded [OF refl serves [OF that]] .
  then show "finite (dom (sv_clients (sy_serving s))) \<and> card (dom (sv_clients (sy_serving s))) \<le> MAX_TCP_CLIENTS"
    using assms(2) by blast
  show "(udp_step cfg mx hz)\<^sup>*\<^sup>* (sy_relay s0) (sy_relay s)"
    using assms(2,4)
  proof (induction rule: rtranclp_induct)
    case (step t u)
    have small: "sv_spawned (sy_serving t) < 2 ^ 64"
      using sys_step_spawned [OF step(2)] step(4) by simp
    have "(udp_step cfg mx hz)\<^sup>*\<^sup>* (sy_relay t) (sy_relay u)"
      using sys_step_udp [OF step(2) inv [OF step(1) small] small assms(3)] fin [OF step(1)] by blast
    then show ?case
      using step(3) small by (meson rtranclp_trans)
  qed simp
qed

text \<open>Without entries the indexes are empty as well.\<close>

lemma no_entries_default:
  assumes "entries r = Map.empty" "reg_inv (h, r)"
  shows "r = reg_default"
proof -
  have "sessions (h, r) j = None" for j
    by (simp add: sessions_def assms(1))
  then have "endpoints r k \<noteq> Some j" "pending r ip \<noteq> Some j" for k ip j
    using assms(2) by (auto simp: reg_inv_def indexed_def)
  then have "endpoints r = Map.empty" "pending r = Map.empty"
    by (meson not_None_eq ext)+
  then show ?thesis
    using assms(1) by (simp add: reg_default_def)
qed

end
