(* ===== verification/System_Answers.thy ===== *)
theory System_Answers
  imports System
begin

text \<open>
  The life of an answer and of a send in the running server. A receiver looks at \<open>alive\<close> when
  an answer comes in, and sends it some time later, when the client may have left; a packet
  task looks at \<open>alive\<close> before each send. What holds when the answer leaves is therefore
  traced back to the state in which it was accepted.
\<close>

section \<open>What the steps do to the receivers and the tasks\<close>

lemma sys_step_relay_cases:
  assumes "sys_step cfg conns mx hz s t"
  obtains "receivers (sy_relay t) = receivers (sy_relay s)" "packets (sy_relay t) = packets (sy_relay s)"
  | "relay_moves cfg mx hz (sy_relay s) (sy_relay t)"
  using assms by cases simp_all

lemma sys_step_answers:
  assumes "sys_step cfg conns mx hz s t" and "receivers (sy_relay t) k = Some r"
  shows "r_stage r = Answering l \<Longrightarrow> receivers (sy_relay s) k = Some r \<or>
      (\<exists>r0. receivers (sy_relay s) k = Some r0 \<and> r_stage r0 = Waiting \<and> r_assoc r0 = r_assoc r \<and>
        alive (assocs (sy_relay s) (r_assoc r)))"
    and "r_stage r = Replying packet source \<Longrightarrow> receivers (sy_relay s) k = Some r \<or>
      (\<exists>r0 l. receivers (sy_relay s) k = Some r0 \<and> r_stage r0 = Answering l \<and> r_assoc r0 = r_assoc r \<and>
        endpoint (assocs (sy_relay s) (r_assoc r)) = Some source)"
  using assms by (cases rule: sys_step_relay_cases; use relay_moves_answers [OF _ assms(2)] in simp)+

lemma sys_step_sending:
  assumes "sys_step cfg conns mx hz s t" and "packets (sy_relay t) i = Some p" and "t_stage p = Sending k"
  shows "packets (sy_relay s) i = Some p \<or> alive (assocs (sy_relay s) (t_assoc p))"
  using assms(1) by (cases rule: sys_step_relay_cases) (use assms relay_moves_sending [OF _ assms(2,3)] in auto)

section \<open>Endpoints\<close>

text \<open>The address an association has learnt is its client's, whether it is registered or not.\<close>

definition endpoint_fits :: "association \<Rightarrow> bool" where
  "endpoint_fits x \<longleftrightarrow>
     (\<forall>e. endpoint x = Some e \<longrightarrow> normalize_ip (sock_ip e) = normalize_ip (client_ip x))"

definition endpoints_fit :: "system \<Rightarrow> bool" where
  "endpoints_fit s \<longleftrightarrow> (\<forall>a < sy_next_ref s. endpoint_fits (assocs (sy_relay s) a))"

lemma endpoint_fits_simps [simp]:
  "endpoint_fits (x\<lparr>alive := b, stopped := c\<rparr>) = endpoint_fits x"
  "endpoint_fits (x\<lparr>flows := fs\<rparr>) = endpoint_fits x"
  "endpoint_fits (remember_udp_address oldest target i x) = endpoint_fits x"
  "endpoint_fits (advance_udp_address oldest target f x) = endpoint_fits x"
  "endpoint_fits (remove_flow_slot target k x) = endpoint_fits x"
  by (simp_all add: endpoint_fits_def remember_udp_address_def advance_udp_address_def remove_flow_slot_def Let_def)

lemma accepts_fits: "endpoint_fits x \<Longrightarrow> endpoint_fits (snd (accepts x source))"
  by (auto simp: accepts_def endpoint_fits_def split: option.splits)

lemma reg_find_fits:
  assumes "reg_find source (h, r) = (res, h', r')" "endpoint_fits (h a)"
  shows "endpoint_fits (h' a)"
proof -
  have "h' a = h a \<or> h' a = snd (accepts (h a) source)"
    using assms(1)
    by (auto simp: reg_find_def Let_def split: option.splits if_splits prod.splits)
  then show ?thesis
    using assms(2) accepts_fits by auto
qed

lemma relay_moves_fits:
  assumes "relay_moves cfg mx hz s t" "endpoint_fits (assocs s a)"
  shows "endpoint_fits (assocs t a)"
  using assms(1)
proof cases
  case (relay_datagram permit source d)
  then show ?thesis
    by (rule_tac udp_datagram_cases [of cfg permit source d s]) (use assms(2) reg_find_fits in auto)
next
  case (relay_packet inp i)
  then show ?thesis
    by (rule_tac packet_step_cases [of inp i s]) (use assms(2) in \<open>auto split: if_splits\<close>)
next
  case (relay_reply slot oldest ev now)
  then show ?thesis
    by (rule_tac receiver_step_cases [of mx "unat (cfg_udp_timeout cfg)" oldest now ev slot s])
      (use assms(2) in \<open>auto simp: end_receiver_def Let_def\<close>)
qed

lemma sys_step_next_ref: "sys_step cfg conns mx hz s t \<Longrightarrow> sy_next_ref s \<le> sy_next_ref t"
  by (induction rule: sys_step.induct) simp_all

lemma sys_step_fits:
  assumes "sys_step cfg conns mx hz s t" "endpoints_fit s"
  shows "endpoints_fit t"
  using assms
proof (induction rule: sys_step.induct)
  case (sys_register s n i address target c udp_local bound ip c' ok st)
  have "fst st = (fst (shared s))(sy_next_ref s := new_association ip (t_port target))"
    using associate_register_entries [OF sys_register(5)] by blast
  then show ?case
    using sys_register(6) by (auto simp: endpoints_fit_def endpoint_fits_def new_association_def less_Suc_eq)
qed (auto simp: endpoints_fit_def upd_assoc_def stop_all_def shared_def with_registry_def relay_moves_fits)

lemma sys_start_fits: "sys_start s \<Longrightarrow> endpoints_fit s"
  by (simp add: sys_start_def endpoints_fit_def)

lemma sys_steps_fits: "sys_start s0 \<Longrightarrow> (sys_step cfg conns mx hz)\<^sup>*\<^sup>* s0 s \<Longrightarrow> endpoints_fit s"
  by (rotate_tac, induction rule: rtranclp_induct) (auto intro: sys_start_fits sys_step_fits)

text \<open>The client of an association never changes.\<close>

lemma sys_step_client:
  assumes "sys_step cfg conns mx hz s t" "a < sy_next_ref s"
  shows "client_ip (assocs (sy_relay t) a) = client_ip (assocs (sy_relay s) a)"
  using assms
proof (induction rule: sys_step.induct)
  case (sys_register s n i address target c udp_local bound ip c' ok st)
  have "fst st = (fst (shared s))(sy_next_ref s := new_association ip (t_port target))"
    using associate_register_entries [OF sys_register(5)] by blast
  then show ?case
    using sys_register(6) by auto
next
  case (sys_relay s rl)
  then show ?case
    using faceD [OF relay_moves_effects(2) [OF sys_relay(1), of a]] by simp
qed (simp_all add: upd_assoc_def stop_all_simps)

section \<open>Every association belongs to a client\<close>

text \<open>
  A handler runs that has registered the association and not given it up; its client is at
  \<open>address\<close>, passes the whitelist and has sent a greeting with the required method, the
  configured credentials and a UDP ASSOCIATE.
\<close>

definition serves_client :: "config \<Rightarrow> (nat \<Rightarrow> conn) \<Rightarrow> system \<Rightarrow> nat \<Rightarrow> socket_addr \<Rightarrow> bool" where
  "serves_client cfg conns s a address \<longleftrightarrow>
     (\<exists>n i ms target bs rest. sy_phase s n = Holding a \<and> sv_clients (sy_serving s) n = Some (i, address) \<and>
        wl_allows (cfg_whitelist cfg) (sock_ip address) \<and> selected_method cfg \<in> set ms \<and>
        target_wire target = Some bs \<and>
        rx (conns n) = greeting ms @ auth_message cfg @ [5, UDP_ASSOCIATE, 0] @ bs @ rest)"

lemma held_client:
  assumes "sys_inv cfg conns s" "valid_credentials (cfg_username cfg) (cfg_password cfg)" "holds s n a"
  obtains i address target ms bs rest where "sv_clients (sy_serving s) n = Some (i, address)"
    "wl_allows (cfg_whitelist cfg) (sock_ip address)" "client_ip (assocs (sy_relay s) a) = sock_ip address"
    "selected_method cfg \<in> set ms" "target_wire target = Some bs"
    "rx (conns n) = greeting ms @ auth_message cfg @ [5, UDP_ASSOCIATE, 0] @ bs @ rest"
proof -
  obtain i address target c where h: "sv_clients (sy_serving s) n = Some (i, address)"
    "client_ip (assocs (sy_relay s) a) = sock_ip address"
    "handle_handshake cfg (conns n) = (Return (Do_associate target), c)"
    using holdersD [OF sys_invD(4) [OF assms(1)] assms(3)] unfolding holder_ok_def by blast
  have "wl_allows (cfg_whitelist cfg) (sock_ip address)"
    using sys_invD(1) [OF assms(1)] h(1) unfolding serve_inv_def by blast
  then show thesis
    using that h(1,2) h(3) [unfolded handle_handshake_iff [OF assms(2) dispatched.simps(2)]] by blast
qed

lemma live_task_client:
  assumes "sys_inv cfg conns s" "valid_credentials (cfg_username cfg) (cfg_password cfg)"
    and "refd (sy_relay s) a" "alive (assocs (sy_relay s) a)"
  obtains address where "serves_client cfg conns s a address" "client_ip (assocs (sy_relay s) a) = sock_ip address"
proof -
  obtain n where n: "sy_phase s n = Holding a"
    using tasks_heldD [OF sys_invD(5) [OF assms(1)] assms(3)] assms(4) by blast
  then have "holds s n a" by (simp add: holds_def)
  from held_client [OF assms(1,2) this] obtain address where "client_ip (assocs (sy_relay s) a) = sock_ip address"
    "serves_client cfg conns s a address"
    using n unfolding serves_client_def by metis
  then show thesis by (rule that [rotated])
qed

section \<open>Where an answer comes from\<close>

text \<open>
  A stretch of a run during which the receiver of the slot \<open>k\<close> is past its look at \<open>alive\<close>:
  it has one answer, which it has not sent yet.
\<close>

definition same_answer ::
  "config \<Rightarrow> (nat \<Rightarrow> conn) \<Rightarrow> nat \<Rightarrow> nat \<Rightarrow> nat \<Rightarrow> system \<Rightarrow> system \<Rightarrow> bool" where
  "same_answer cfg conns mx hz k =
     (\<lambda>s t. sys_step cfg conns mx hz s t \<and> answering (sy_relay s) k \<and> answering (sy_relay t) k)\<^sup>*\<^sup>*"

lemma same_answer_step:
  "same_answer cfg conns mx hz k s t \<Longrightarrow> sys_step cfg conns mx hz t u \<Longrightarrow> answering (sy_relay t) k \<Longrightarrow>
     answering (sy_relay u) k \<Longrightarrow> same_answer cfg conns mx hz k s u"
  unfolding same_answer_def by (rule rtranclp.rtrancl_into_rtrancl) simp_all

text \<open>
  The state \<open>u\<close> is the last before \<open>s\<close> in which the receiver was not past it: there it waits
  for its association, which is live and served.
\<close>

definition accepted_for ::
  "config \<Rightarrow> (nat \<Rightarrow> conn) \<Rightarrow> nat \<Rightarrow> nat \<Rightarrow> nat \<Rightarrow> nat \<Rightarrow> socket_addr \<Rightarrow> system \<Rightarrow> system \<Rightarrow> bool" where
  "accepted_for cfg conns mx hz k a address u s \<longleftrightarrow>
     (\<exists>r v. receivers (sy_relay u) k = Some r \<and> r_assoc r = a \<and> r_stage r = Waiting \<and>
        alive (assocs (sy_relay u) a) \<and> serves_client cfg conns u a address \<and>
        sys_step cfg conns mx hz u v \<and> answering (sy_relay v) k \<and> same_answer cfg conns mx hz k v s)"

lemma accepted_for_step:
  assumes "accepted_for cfg conns mx hz k a address u s" "sys_step cfg conns mx hz s t"
    and "answering (sy_relay s) k" "answering (sy_relay t) k"
  shows "accepted_for cfg conns mx hz k a address u t"
  using assms same_answer_step [of cfg conns mx hz k] unfolding accepted_for_def by blast

definition answer_from ::
  "config \<Rightarrow> (nat \<Rightarrow> conn) \<Rightarrow> nat \<Rightarrow> nat \<Rightarrow> system \<Rightarrow> nat \<Rightarrow> receiver \<Rightarrow> system \<Rightarrow> bool" where
  "answer_from cfg conns mx hz s0 k r s \<longleftrightarrow>
     (\<exists>u address. (sys_step cfg conns mx hz)\<^sup>*\<^sup>* s0 u \<and> accepted_for cfg conns mx hz k (r_assoc r) address u s \<and>
        r_assoc r < sy_next_ref s \<and> client_ip (assocs (sy_relay s) (r_assoc r)) = sock_ip address \<and>
        (\<forall>packet source. r_stage r = Replying packet source \<longrightarrow>
           normalize_ip (sock_ip source) = normalize_ip (sock_ip address)))"

lemma answer_from_step:
  assumes from_s: "answer_from cfg conns mx hz s0 k r0 s" and step: "sys_step cfg conns mx hz s t"
    and fit: "endpoints_fit s" and past: "answering (sy_relay s) k" "answering (sy_relay t) k"
    and same: "r_assoc r0 = r_assoc r"
    and source: "\<And>packet source. r_stage r = Replying packet source \<Longrightarrow> r_stage r0 = Replying packet source \<or>
        endpoint (assocs (sy_relay s) (r_assoc r)) = Some source"
  shows "answer_from cfg conns mx hz s0 k r t"
proof -
  obtain u address where u: "(sys_step cfg conns mx hz)\<^sup>*\<^sup>* s0 u"
      "accepted_for cfg conns mx hz k (r_assoc r) address u s" "r_assoc r < sy_next_ref s"
      "client_ip (assocs (sy_relay s) (r_assoc r)) = sock_ip address"
      "\<And>packet source. r_stage r0 = Replying packet source \<Longrightarrow>
        normalize_ip (sock_ip source) = normalize_ip (sock_ip address)"
    using from_s unfolding answer_from_def same by blast
  have "endpoint_fits (assocs (sy_relay s) (r_assoc r))"
    using fit u(3) by (simp add: endpoints_fit_def)
  then have "normalize_ip (sock_ip a) = normalize_ip (sock_ip address)"
    if "r_stage r = Replying packet a" for packet a
    using source [OF that] u(4,5) by (auto simp: endpoint_fits_def)
  moreover have "r_assoc r < sy_next_ref t" "client_ip (assocs (sy_relay t) (r_assoc r)) = sock_ip address"
    using u(3,4) sys_step_next_ref [OF step] sys_step_client [OF step u(3)] by simp_all
  ultimately show ?thesis
    using u(1) accepted_for_step [OF u(2) step past] unfolding answer_from_def by blast
qed

text \<open>The step in which an answer is accepted.\<close>

lemma answer_from_new:
  assumes inv: "sys_inv cfg conns s" and valid: "valid_credentials (cfg_username cfg) (cfg_password cfg)"
    and reach: "(sys_step cfg conns mx hz)\<^sup>*\<^sup>* s0 s" and step: "sys_step cfg conns mx hz s t"
    and w: "receivers (sy_relay s) k = Some r0" "r_stage r0 = Waiting" "r_assoc r0 = r_assoc r"
      "alive (assocs (sy_relay s) (r_assoc r))"
    and now: "answering (sy_relay t) k" "r_stage r = Answering l"
  shows "answer_from cfg conns mx hz s0 k r t"
proof -
  have "refd (sy_relay s) (r_assoc r)"
    using refdI(2) [OF w(1)] w(3) by simp
  then obtain address where a: "serves_client cfg conns s (r_assoc r) address"
    "client_ip (assocs (sy_relay s) (r_assoc r)) = sock_ip address" "r_assoc r < sy_next_ref s"
    using live_task_client [OF inv valid _ w(4)] tasks_heldD [OF sys_invD(5) [OF inv]] by metis
  have "same_answer cfg conns mx hz k t t"
    by (simp add: same_answer_def)
  then have "accepted_for cfg conns mx hz k (r_assoc r) address s t"
    unfolding accepted_for_def using w a(1) step now(1) by blast
  moreover have "r_assoc r < sy_next_ref t" "client_ip (assocs (sy_relay t) (r_assoc r)) = sock_ip address"
    using a(2,3) sys_step_next_ref [OF step] sys_step_client [OF step a(3)] by simp_all
  ultimately show ?thesis
    unfolding answer_from_def using reach now(2) by auto
qed

lemma answer_history:
  assumes start: "sys_start s0" and valid: "valid_credentials (cfg_username cfg) (cfg_password cfg)"
    and steps: "(sys_step cfg conns mx hz)\<^sup>*\<^sup>* s0 s" and small: "sv_spawned (sy_serving s) < 2 ^ 64"
    and r: "receivers (sy_relay s) k = Some r" "answering (sy_relay s) k"
  shows "answer_from cfg conns mx hz s0 k r s"
  using steps small r
proof (induction arbitrary: r rule: rtranclp_induct)
  case base
  then show ?case
    using start by (simp add: sys_start_def udp_start_def)
next
  case (step s t)
  have small: "sv_spawned (sy_serving s) < 2 ^ 64"
    using sys_step_spawned [OF step(2)] step(4) by simp
  note inv = sys_reaches(1) [OF start step(1) valid small] and fit = sys_steps_fits [OF start step(1)]
  have keep: "answer_from cfg conns mx hz s0 k r t" if "receivers (sy_relay s) k = Some r"
  proof -
    have a: "answering (sy_relay s) k"
      using step(5,6) that by (auto simp: answering_iff)
    show ?thesis
      by (rule answer_from_step [OF step(3) [OF small that a] step(2) fit a step(6)]) simp_all
  qed
  consider (asked) l where "r_stage r = Answering l" | (sends) packet source where "r_stage r = Replying packet source"
    using step(5,6) by (auto simp: answering_iff)
  then show ?case
  proof cases
    case asked
    then show ?thesis
      using sys_step_answers(1) [OF step(2,5) asked] keep
        answer_from_new [OF inv valid step(1,2) _ _ _ _ step(6) asked] by blast
  next
    case sends
    from sys_step_answers(2) [OF step(2,5) sends] show ?thesis
    proof (elim disjE exE conjE)
      fix r0 l assume w: "receivers (sy_relay s) k = Some r0" "r_stage r0 = Answering l" "r_assoc r0 = r_assoc r"
        "endpoint (assocs (sy_relay s) (r_assoc r)) = Some source"
      then have a: "answering (sy_relay s) k"
        by (auto simp: answering_iff)
      show ?thesis
        by (rule answer_from_step [OF step(3) [OF small w(1) a] step(2) fit a step(6) w(3)]) (use sends w(4) in simp)
    qed (rule keep)
  qed
qed

section \<open>What goes on after an association has died\<close>

text \<open>No task comes to a send any more: one that is in a send has been in it all the time.\<close>

lemma gone_sending:
  assumes "(sys_step cfg conns mx hz)\<^sup>*\<^sup>* s t" "gone s a"
    and "packets (sy_relay t) i = Some p" "t_stage p = Sending k" "t_assoc p = a"
  shows "packets (sy_relay s) i = Some p"
  using assms
proof (induction rule: rtranclp_induct)
  case (step t u)
  have "\<not> alive (assocs (sy_relay t) a)"
    using sys_steps_gone [OF step(1,4)] by (simp add: gone_def)
  then show ?case
    using sys_step_sending [OF step(2,5,6)] step by blast
qed

text \<open>No receiver accepts an answer any more: one that has an answer has it since then.\<close>

lemma gone_answering:
  assumes "(sys_step cfg conns mx hz)\<^sup>*\<^sup>* s t" "gone s a"
    and "receivers (sy_relay t) k = Some r" "r_assoc r = a" "answering (sy_relay t) k"
  shows "answering (sy_relay s) k \<and> same_answer cfg conns mx hz k s t"
  using assms
proof (induction arbitrary: r rule: rtranclp_induct)
  case (step t u)
  have dead: "\<not> alive (assocs (sy_relay t) a)"
    using sys_steps_gone [OF step(1,4)] by (simp add: gone_def)
  consider (asked) l where "r_stage r = Answering l" | (sends) packet source where "r_stage r = Replying packet source"
    using step(5,7) by (auto simp: answering_iff)
  then obtain r0 where "receivers (sy_relay t) k = Some r0" "r_assoc r0 = a" "answering (sy_relay t) k"
  proof cases
    case asked
    then show thesis
      using sys_step_answers(1) [OF step(2,5) asked] dead step(6) that by (auto simp: answering_iff)
  next
    case sends
    then show thesis
      using sys_step_answers(2) [OF step(2,5) sends] step(6) that by (auto simp: answering_iff)
  qed
  then show ?case
    using step(3) [OF step(4)] same_answer_step [OF _ step(2) _ step(7)] by blast
qed (simp add: same_answer_def)

text \<open>An association that was told to stop stays so.\<close>

definition told :: "system \<Rightarrow> nat \<Rightarrow> bool" where
  "told s a \<longleftrightarrow> a < sy_next_ref s \<and> \<not> alive (assocs (sy_relay s) a) \<and> stopped (assocs (sy_relay s) a)"

lemma sys_step_told: "sys_step cfg conns mx hz s t \<Longrightarrow> told s a \<Longrightarrow> told t a"
proof (induction rule: sys_step.induct)
  case (sys_register s n i address target c udp_local bound ip c' ok st)
  have "fst st = (fst (shared s))(sy_next_ref s := new_association ip (t_port target))"
    using associate_register_entries [OF sys_register(5)] by blast
  then show ?case using sys_register(6) by (auto simp: told_def with_registry_def shared_def)
next
  case (sys_relay s rl)
  then show ?case
    using relay_moves_effects(2) [OF sys_relay(1), of a] by (simp add: told_def face_def)
qed (auto simp: told_def upd_assoc_def with_registry_def shared_def stop_all_def)

lemma sys_steps_told: "(sys_step cfg conns mx hz)\<^sup>*\<^sup>* s t \<Longrightarrow> told s a \<Longrightarrow> told t a"
  by (induction rule: rtranclp_induct) (auto intro: sys_step_told)

text \<open>What a handler holds it held before, or it has registered it since.\<close>

lemma sys_step_held:
  "sys_step cfg conns mx hz s t \<Longrightarrow> sy_phase t n = Holding a \<Longrightarrow> sy_phase s n = Holding a \<or> sy_next_ref s \<le> a"
  by (induction rule: sys_step.induct) (auto split: if_splits)

lemma sys_steps_held:
  "(sys_step cfg conns mx hz)\<^sup>*\<^sup>* s t \<Longrightarrow> sy_phase t n = Holding a \<Longrightarrow> sy_phase s n = Holding a \<or> sy_next_ref s \<le> a"
proof (induction rule: rtranclp_induct)
  case (step t u)
  have "sy_next_ref s \<le> sy_next_ref t"
    using step(1) by (induction rule: rtranclp_induct) (auto intro: order_trans sys_step_next_ref)
  then show ?case
    using sys_step_held [OF step(2,4)] step(3) by auto
qed simp

section \<open>The end of the accept loop\<close>

text \<open>\<open>sys_stop\<close>: what is registered is told to stop.\<close>

definition stopped_system :: "system \<Rightarrow> system" where
  "stopped_system s = s\<lparr>sy_relay := with_registry (stop_all (shared s)) (sy_relay s), sy_stopped := True\<rparr>"

lemma stopped_system_step: "\<not> sy_stopped s \<Longrightarrow> sys_step cfg conns mx hz s (stopped_system s)"
  unfolding stopped_system_def
  by (rule sys_stop [where cancelled = True and ev = Shutdown and result = "Inr ()" and u = None])
    (simp_all add: serve_step_def)

lemma stopped_system_simps [simp]:
  "shared (stopped_system s) = stop_all (shared s)" "sv_spawned (sy_serving (stopped_system s)) = sv_spawned (sy_serving s)"
  "sy_phase (stopped_system s) = sy_phase s" "sy_next_ref (stopped_system s) = sy_next_ref s"
  by (simp_all add: stopped_system_def shared_def)

lemma stopped_system_told:
  assumes "sys_inv cfg conns s" "entries (reg (sy_relay s)) i = Some a"
  shows "told (stopped_system s) a"
proof -
  obtain n where n: "holds s n a"
    using entries_heldD [OF sys_invD(3) [OF assms(1)] assms(2)] by blast
  then have "a < sy_next_ref s"
    using holdersD [OF sys_invD(4) [OF assms(1)]] by (simp add: holder_ok_def)
  then show ?thesis
    using ranI [of "entries (reg (sy_relay s))", OF assms(2)]
    by (simp add: told_def stopped_system_def stop_all_def shared_def)
qed

text \<open>What is registered and alive afterwards was registered after the stop.\<close>

lemma stopped_system_later:
  assumes inv: "sys_inv cfg conns s" "sys_inv cfg conns t"
    and steps: "(sys_step cfg conns mx hz)\<^sup>*\<^sup>* (stopped_system s) t"
    and a: "entries (reg (sy_relay t)) i = Some a" "alive (assocs (sy_relay t) a)"
  shows "sy_next_ref s \<le> a"
proof -
  obtain n where n: "holds t n a" "(\<exists>x. sv_clients (sy_serving t) n = Some (i, x))"
    using entries_heldD [OF sys_invD(3) [OF inv(2)] a(1)] by blast
  then have "sy_phase t n = Holding a"
    using holdersD [OF sys_invD(4) [OF inv(2)] n(1)] a(2) by (auto simp: holds_def holder_ok_def)
  from sys_steps_held [OF steps this] show ?thesis
  proof
    assume "sy_phase (stopped_system s) n = Holding a"
    then have h: "holds s n a"
      by (simp add: holds_def)
    then obtain j x where "sv_clients (sy_serving s) n = Some (j, x)"
      using holdersD [OF sys_invD(4) [OF inv(1)] h] by (auto simp: holder_ok_def)
    then have "entries (reg (sy_relay s)) j = Some a"
      using sys_invD(3) [OF inv(1)] h by (auto simp: entries_held_def)
    then have "told t a"
      using stopped_system_told [OF inv(1)] sys_steps_told [OF steps] by blast
    then show ?thesis
      using a(2) by (simp add: told_def)
  qed simp
qed

end
