(* ===== verification/Udp_Loop.thy ===== *)
theory Udp_Loop
  imports Server Udp_Guarantees
begin

text \<open>
  \<open>udp_loop\<close> of \<open>src/server.rs\<close> as a whole: the loop around \<open>udp_datagram\<close>, its permits and
  its ends, and what its result means for the result of the server.
\<close>

section \<open>The loop\<close>

text \<open>What the \<open>select!\<close> of the loop waits for.\<close>

datatype loop_event = Cancelled | Datagram socket_addr "u8 list" | Receive_error io_error

definition packet_permit :: "relay \<Rightarrow> bool" where
  "packet_permit s \<longleftrightarrow> map_len (packets s) < MAX_UDP_PACKET_TASKS"

text \<open>One round: the loop ends with a result, or goes on.\<close>

definition loop_step :: "config \<Rightarrow> loop_event \<Rightarrow> relay \<Rightarrow> (io_error + unit) option \<times> relay" where
  "loop_step cfg ev s =
     (case ev of
        Cancelled \<Rightarrow> (Some (Inr ()), s)
      | Receive_error e \<Rightarrow> (udp_receive_error e, s)
      | Datagram source datagram \<Rightarrow> (None, udp_datagram cfg (packet_permit s) source datagram s))"

text \<open>
  The loop on a sequence of events, between which the other tasks run (\<open>Inl\<close>). \<open>None\<close> is a
  loop that still waits.
\<close>

fun udp_loop ::
  "config \<Rightarrow> ((relay \<Rightarrow> relay) + loop_event) list \<Rightarrow> relay \<Rightarrow> (io_error + unit) option \<times> relay" where
  "udp_loop cfg [] s = (None, s)"
| "udp_loop cfg (Inl others # evs) s = udp_loop cfg evs (others s)"
| "udp_loop cfg (Inr ev # evs) s =
     (case loop_step cfg ev s of
        (Some result, s) \<Rightarrow> (Some result, s)
      | (None, s) \<Rightarrow> udp_loop cfg evs s)"

section \<open>What ends it\<close>

definition loop_end :: "loop_event \<Rightarrow> (io_error + unit) option" where
  "loop_end ev =
     (case ev of Cancelled \<Rightarrow> Some (Inr ()) | Receive_error e \<Rightarrow> udp_receive_error e | Datagram _ _ \<Rightarrow> None)"

lemma loop_step_result: "fst (loop_step cfg ev s) = loop_end ev"
  by (simp add: loop_step_def loop_end_def split: loop_event.split)

lemma loop_end_simps [simp]:
  "loop_end Cancelled = Some (Inr ())" "loop_end (Datagram source d) = None"
  "loop_end (Receive_error e) = udp_receive_error e"
  by (simp_all add: loop_end_def)

fun first_end :: "('o + loop_event) list \<Rightarrow> (io_error + unit) option" where
  "first_end [] = None"
| "first_end (Inl others # evs) = first_end evs"
| "first_end (Inr ev # evs) = (case loop_end ev of Some r \<Rightarrow> Some r | None \<Rightarrow> first_end evs)"

lemma udp_loop_result: "fst (udp_loop cfg evs s) = first_end evs"
proof (induction cfg evs s rule: udp_loop.induct)
  case (3 cfg ev evs s)
  obtain r s' where step: "loop_step cfg ev s = (r, s')"
    by (cases "loop_step cfg ev s")
  then have "r = loop_end ev"
    using loop_step_result [of cfg ev s] by simp
  then show ?case
    using 3 [OF step [symmetric]] step by (auto split: option.splits)
qed simp_all

lemma first_end_Some: "first_end evs = Some r \<Longrightarrow> \<exists>ev. Inr ev \<in> set evs \<and> loop_end ev = Some r"
  by (induction evs rule: first_end.induct) (auto split: option.splits)

lemma first_end_None: "first_end evs = None \<longleftrightarrow> (\<forall>ev. Inr ev \<in> set evs \<longrightarrow> loop_end ev = None)"
  by (induction evs rule: first_end.induct) (auto split: option.splits)

lemma loop_end_ok: "loop_end ev = Some (Inr ()) \<longleftrightarrow> ev = Cancelled"
  by (cases ev) (simp_all add: udp_receive_error_def)

lemma loop_end_error:
  "loop_end ev = Some (Inl e) \<longleftrightarrow> ev = Receive_error e \<and> error_kind e \<notin> {ConnectionReset, ConnectionRefused}"
  by (cases ev) (auto simp: udp_receive_error_def)

text \<open>A round is a step of the relay: the permit is taken only while one is free.\<close>

lemma loop_step_moves: "(relay_moves cfg mx hz)\<^sup>*\<^sup>* s (snd (loop_step cfg ev s))"
proof (cases ev)
  case (Datagram source d)
  have "relay_moves cfg mx hz s (udp_datagram cfg (packet_permit s) source d s)"
    by (rule relay_datagram) (simp add: packet_permit_def map_len_def)
  then show ?thesis
    by (simp add: loop_step_def Datagram r_into_rtranclp)
qed (simp_all add: loop_step_def)

lemma udp_loop_moves:
  "(\<And>f t. Inl f \<in> set evs \<Longrightarrow> (udp_step cfg mx hz)\<^sup>*\<^sup>* t (f t)) \<Longrightarrow>
     (udp_step cfg mx hz)\<^sup>*\<^sup>* s (snd (udp_loop cfg evs s))"
proof (induction cfg evs s rule: udp_loop.induct)
  case (2 cfg f evs s)
  have "(udp_step cfg mx hz)\<^sup>*\<^sup>* s (f s)"
    by (rule 2(2)) simp
  moreover have "(udp_step cfg mx hz)\<^sup>*\<^sup>* (f s) (snd (udp_loop cfg evs (f s)))"
    by (rule 2(1)) (rule 2(2), simp)
  ultimately show ?case by simp
next
  case (3 cfg ev evs s)
  obtain r s' where step: "loop_step cfg ev s = (r, s')"
    by (cases "loop_step cfg ev s")
  have moved: "(udp_step cfg mx hz)\<^sup>*\<^sup>* s s'"
    using relay_moves_udp [OF loop_step_moves [of cfg mx hz s ev]] step by simp
  show ?case
  proof (cases r)
    case None
    have "(udp_step cfg mx hz)\<^sup>*\<^sup>* s' (snd (udp_loop cfg evs s'))"
      by (rule 3(1) [OF step [symmetric] None]) (rule 3(2), simp)
    then show ?thesis
      using moved step None by simp
  qed (use moved step in simp)
qed simp

text \<open>C17: The datagram loop survives its input. It returns \<open>Ok\<close> only when it is cancelled, an error
  only for a receive error other than a reset or refused connection, and it still runs
  exactly if neither has come: no datagram, however malformed, of whatever source, and no
  such error ends it. With any other tasks in between it is a run of the relay, with a permit
  taken only while fewer than 256 are.\<close>

theorem udp_loop_survives:
  assumes "\<And>f t. Inl f \<in> set evs \<Longrightarrow> (udp_step cfg mx hz)\<^sup>*\<^sup>* t (f t)"
  shows "(udp_step cfg mx hz)\<^sup>*\<^sup>* s (snd (udp_loop cfg evs s)) \<and>
    (fst (udp_loop cfg evs s) = Some (Inr ()) \<longrightarrow> Inr Cancelled \<in> set evs) \<and>
    (\<forall>e. fst (udp_loop cfg evs s) = Some (Inl e) \<longrightarrow>
       Inr (Receive_error e) \<in> set evs \<and> error_kind e \<notin> {ConnectionReset, ConnectionRefused}) \<and>
    (fst (udp_loop cfg evs s) = None \<longleftrightarrow>
       Inr Cancelled \<notin> set evs \<and>
       (\<forall>e. Inr (Receive_error e) \<in> set evs \<longrightarrow> error_kind e \<in> {ConnectionReset, ConnectionRefused}))"
proof (intro conjI allI impI)
  show "(udp_step cfg mx hz)\<^sup>*\<^sup>* s (snd (udp_loop cfg evs s))"
    using assms by (rule udp_loop_moves)
next
  assume "fst (udp_loop cfg evs s) = Some (Inr ())"
  then show "Inr Cancelled \<in> set evs"
    using first_end_Some [of evs] loop_end_ok by (simp add: udp_loop_result)
next
  fix e assume "fst (udp_loop cfg evs s) = Some (Inl e)"
  then obtain ev where "Inr ev \<in> set evs" "loop_end ev = Some (Inl e)"
    using first_end_Some [of evs] by (auto simp: udp_loop_result)
  then show "Inr (Receive_error e) \<in> set evs" "error_kind e \<notin> {ConnectionReset, ConnectionRefused}"
    by (auto simp: loop_end_error)
next
  show "fst (udp_loop cfg evs s) = None \<longleftrightarrow>
      Inr Cancelled \<notin> set evs \<and>
      (\<forall>e. Inr (Receive_error e) \<in> set evs \<longrightarrow> error_kind e \<in> {ConnectionReset, ConnectionRefused})"
    unfolding udp_loop_result first_end_None
    by (auto simp: loop_end_def udp_receive_error_def split: loop_event.splits if_splits)
qed

text \<open>A run with a datagram, a step of its packet task, a refused connection and the shutdown.\<close>

definition demo_loop_events :: "((relay \<Rightarrow> relay) + loop_event) list" where
  "demo_loop_events =
     [Inr (Datagram (SockV4 7 5) [0, 0, 0, 1, 8, 8, 8, 8, 0, 53, 1]),
      Inr (Receive_error (IoError ConnectionRefused OsError)), Inr Cancelled]"

theorem udp_loop_survives_witness:
  "(udp_step cfg_default 1000 10)\<^sup>*\<^sup>* demo_registered (snd (udp_loop cfg_default demo_loop_events demo_registered)) \<and>
   Inr Cancelled \<in> set demo_loop_events"
proof -
  have "fst (udp_loop cfg_default demo_loop_events demo_registered) = Some (Inr ())"
    unfolding udp_loop_result by (simp add: demo_loop_events_def udp_receive_error_def)
  then show ?thesis
    using udp_loop_survives [of demo_loop_events cfg_default 1000 10 demo_registered]
    by (auto simp: demo_loop_events_def)
qed

section \<open>The server's result\<close>

text \<open>
  The UDP task that the accept loop waits for is \<open>udp_loop\<close>. With \<open>Ok\<close> it was cancelled, and the
  accept loop was left by the shutdown or, the shutdown being requested, by its end.
\<close>

lemma run_async_cancelled:
  assumes "run_async cfg dns tcp udp evs (Udp_returned u) env st = Some (Inr (), st')"
    and "fst (udp_loop cfg loop_evs s) = Some u"
    and "\<And>cancelled ended. (cancelled, Inr (Udp_ended ended)) \<in> set evs \<Longrightarrow> ended = Udp_returned u"
  shows "Inr Cancelled \<in> set loop_evs"
proof -
  have "u = Inr ()"
    using run_async_ok(2) [OF assms(1)] assms(3) by auto
  then have "first_end loop_evs = Some (Inr ())"
    using assms(2) by (simp add: udp_loop_result)
  from first_end_Some [OF this] show ?thesis
    by (simp add: loop_end_ok)
qed

end
