(* ===== verification/System_Guarantees.thy ===== *)
theory System_Guarantees
  imports System_Answers Udp_Loop
begin

text \<open>
  What the running server of System guarantees: whom it relays for, what its registry lists,
  that its parts keep their promises in the whole, that every client can leave, and that the
  handler of the source is a path of the system. A small run of it is the witness.
\<close>

section \<open>A run of the whole server\<close>

text \<open>The client of \<open>demo_conn\<close> connects, asks for an association without authentication, and sends.\<close>

definition demo_conns :: "nat \<Rightarrow> conn" where
  "demo_conns n = demo_conn\<lparr>rx := [5, 1, 0, 5, 3, 0, 1, 0, 0, 0, 0, 0, 0]\<rparr>"

definition demo_system :: system where
  "demo_system = \<lparr>sy_serving = serve_start 1, sy_relay = demo_relay, sy_phase = (\<lambda>_. Handshaking),
     sy_next_ref = 0, sy_stopped = False\<rparr>"

definition demo_accepted :: system where
  "demo_accepted = demo_system\<lparr>sy_serving := demo_serving\<rparr>"

definition demo_holding :: system where
  "demo_holding = demo_accepted\<lparr>sy_relay := demo_registered, sy_phase := (\<lambda>_. Handshaking)(0 := Holding 0),
     sy_next_ref := 1\<rparr>"

lemma demo_valid_default: "valid_credentials (cfg_username cfg_default) (cfg_password cfg_default)"
  by (simp add: valid_credentials_def cfg_default_def)

lemma demo_system_start: "sys_start demo_system"
  by (simp add: sys_start_def demo_system_def demo_relay_start)

lemma demo_accepts: "serve_step cfg_default False (Accepted (SockV4 7 99)) (serve_start 1) = Serving demo_serving"
  by (simp add: serve_step_def serve_start_def demo_serving_def cfg_default_def wl_default_def wl_allows_def
      MAX_TCP_CLIENTS_def)

lemma demo_handshake:
  "handle_handshake cfg_default (demo_conns n) =
     (Return (Do_associate demo_request), wrote (demo_conn) [5, 0])"
proof -
  have answer: "auth_answer cfg_default = [5, 0]" "selected_method cfg_default = 0" "auth_message cfg_default = []"
    by (simp_all add: auth_answer_def selected_method_def auth_message_def cfg_default_def)
  have bs: "target_wire demo_request = Some [1, 0, 0, 0, 0, 0, 0]"
    using target_wire_from [of "SockV4 0 0"]
    by (simp add: demo_request_def target_from_def encode_address_def v4_octets_def port_bytes_def be_bytes_numeral)
  have "counted [0] \<and> selected_method cfg_default \<in> set [0] \<and> target_wire demo_request = Some [1, 0, 0, 0, 0, 0, 0] \<and>
      rx (demo_conns n) = greeting [0] @ auth_message cfg_default @ [5, UDP_ASSOCIATE, 0] @ [1, 0, 0, 0, 0, 0, 0] @ []"
    by (simp add: counted_def answer greeting_def UDP_ASSOCIATE_def bs demo_conns_def)
  moreover have "c_opt (demo_conns n) = Inr ()" "(demo_conns n)\<lparr>rx := []\<rparr> = demo_conn" "room (demo_conns n) k" for k
    by (simp_all add: demo_conns_def demo_conn_def slice_reader_def room_def)
  moreover have "wf_target demo_request"
    using wf_target_from [of "SockV4 0 0"] by (simp add: demo_request_def target_from_def)
  ultimately show ?thesis
    unfolding handle_handshake_iff [OF demo_valid_default dispatched.simps(2)] answer
    by (intro conjI exI [of _ "[0]"] exI [of _ "[1, 0, 0, 0, 0, 0, 0]"])
      (simp_all add: demo_conn_def slice_reader_def)
qed

lemma demo_system_steps: "(sys_step cfg_default demo_conns 1000 10)\<^sup>*\<^sup>* demo_system demo_holding"
proof (rule converse_rtranclp_into_rtranclp)
  show "sys_step cfg_default demo_conns 1000 10 demo_system demo_accepted"
    unfolding demo_accepted_def
    by (rule sys_accept [where address = "SockV4 7 99" and cancelled = False])
      (simp_all add: demo_system_def demo_accepts demo_conns_def demo_conn_def)
  have "sys_step cfg_default demo_conns 1000 10 demo_accepted
    (demo_accepted\<lparr>sy_relay := with_registry demo_state (sy_relay demo_accepted),
       sy_phase := (sy_phase demo_accepted)(0 := if True then Holding (sy_next_ref demo_accepted) else Leaving),
       sy_next_ref := Suc (sy_next_ref demo_accepted)\<rparr>)"
  proof (rule sys_register)
    show "sv_clients (sy_serving demo_accepted) 0 = Some (1, SockV4 7 99)" "sy_phase demo_accepted 0 = Handshaking"
      by (simp_all add: demo_accepted_def demo_serving_def demo_system_def)
    show "associate_relay (Inr (SockV6 0 1080 0 0)) demo_request (wrote demo_conn [5, 0]) =
        (Return (SockV4 1 1080, IpV4 7), wrote demo_conn [5, 0])"
      by (simp add: associate_relay_def demo_conn_def demo_request_def io_bind_def peer_addr_def wrote_def
          local_addr_def io_return_def io_lift_def normalize_ip_def)
    show "associate_register (sy_next_ref demo_accepted) 1 (new_association (IpV4 7) (t_port demo_request))
        (shared demo_accepted) = (True, demo_state)"
      using demo_associate_register by (simp add: demo_accepted_def demo_system_def shared_def demo_relay_def)
  qed (rule demo_handshake)
  moreover have "demo_accepted\<lparr>sy_relay := with_registry demo_state (sy_relay demo_accepted),
       sy_phase := (sy_phase demo_accepted)(0 := if True then Holding (sy_next_ref demo_accepted) else Leaving),
       sy_next_ref := Suc (sy_next_ref demo_accepted)\<rparr> = demo_holding"
    by (simp add: demo_holding_def demo_accepted_def demo_system_def with_registry_def demo_registered_def)
  ultimately show "(sys_step cfg_default demo_conns 1000 10)\<^sup>*\<^sup>* demo_accepted demo_holding"
    by simp
qed

section \<open>Guarantees of the whole server\<close>

text \<open>A datagram that starts a task has found a live entry that owns its source.\<close>

lemma datagram_owner:
  assumes "udp_start rl0" and "(udp_step cfg mx hz)\<^sup>*\<^sup>* rl0 rl"
    and "packets (udp_datagram cfg permit source d rl) (next_packet rl) = Some t"
  shows "\<exists>i. entries (reg rl) i = Some (t_assoc t) \<and> alive (assocs rl (t_assoc t)) \<and>
    owner (sessions (assocs rl, reg rl)) source i"
proof -
  have reg: "reg_inv (assocs rl, reg rl)"
    using udp_steps_registry [OF assms(1,2)] by blast
  have "packets rl (next_packet rl) = None"
    using udp_steps_task_ids [OF assms(1,2)] by (simp add: task_ids_def)
  from udp_datagram_task_iff [OF reg this, of cfg permit source d "t_assoc t" "t_target t" "t_payload t"] assms(3)
  show ?thesis by blast
qed

text \<open>C2: Datagrams are relayed only for authenticated clients that are connected. In every
  reachable state of the whole server, with any number of clients, packet tasks and
  receivers, a datagram starts a packet task only if a handler runs that has registered the
  task's association and not yet given it up; its client passes the whitelist, has sent a
  greeting with the required method, the configured credentials and a UDP ASSOCIATE on its
  control connection, and the datagram comes from that client's address.\<close>

theorem datagrams_authenticated:
  assumes "sys_start s0" and "(sys_step cfg conns mx hz)\<^sup>*\<^sup>* s0 s"
    and "valid_credentials (cfg_username cfg) (cfg_password cfg)" and "sv_spawned (sy_serving s) < 2 ^ 64"
    and "packets (udp_datagram cfg permit source d (sy_relay s)) (next_packet (sy_relay s)) = Some t"
  shows "\<exists>n i address ms target bs rest. sy_phase s n = Holding (t_assoc t) \<and>
    sv_clients (sy_serving s) n = Some (i, address) \<and> wl_allows (cfg_whitelist cfg) (sock_ip address) \<and>
    selected_method cfg \<in> set ms \<and> target_wire target = Some bs \<and>
    rx (conns n) = greeting ms @ auth_message cfg @ [5, UDP_ASSOCIATE, 0] @ bs @ rest \<and>
    normalize_ip (sock_ip source) = normalize_ip (sock_ip address)"
proof -
  note r = sys_reaches [OF assms(1-4)]
  have start: "udp_start (sy_relay s0)"
    using assms(1) by (simp add: sys_start_def)
  obtain i where i: "entries (reg (sy_relay s)) i = Some (t_assoc t)" "alive (assocs (sy_relay s) (t_assoc t))"
    "owner (sessions (assocs (sy_relay s), reg (sy_relay s))) source i"
    using datagram_owner [OF start r(4) assms(5)] by blast
  obtain n where n: "holds s n (t_assoc t)"
    using entries_heldD [OF sys_invD(3) [OF r(1)] i(1)] by blast
  then have "sy_phase s n = Holding (t_assoc t)"
    using holdersD [OF sys_invD(4) [OF r(1)] n] i(2) by (auto simp: holder_ok_def holds_def)
  moreover have "normalize_ip (sock_ip source) = normalize_ip (client_ip (assocs (sy_relay s) (t_assoc t)))"
    using i(1,3) by (auto simp: owner_def sessions_def session_of_def Let_def)
  ultimately show ?thesis
    using held_client [OF r(1) assms(3) n] by metis
qed

lemma demo_next_packet: "next_packet demo_registered = 0"
  by (simp add: demo_registered_def demo_relay_def)

lemma demo_sy_relay [simp]: "sy_relay demo_holding = demo_registered" "sv_spawned (sy_serving demo_holding) = 1"
  by (simp_all add: demo_holding_def demo_accepted_def demo_serving_def)

theorem datagrams_authenticated_witness:
  "\<exists>n i address ms target bs rest. sy_phase demo_holding n = Holding 0 \<and>
    sv_clients (sy_serving demo_holding) n = Some (i, address) \<and>
    wl_allows (cfg_whitelist cfg_default) (sock_ip address) \<and>
    selected_method cfg_default \<in> set ms \<and> target_wire target = Some bs \<and>
    rx (demo_conns n) = greeting ms @ auth_message cfg_default @ [5, UDP_ASSOCIATE, 0] @ bs @ rest \<and>
    normalize_ip (sock_ip (SockV4 7 5)) = normalize_ip (sock_ip address)"
proof -
  have "packets (udp_datagram cfg_default True (SockV4 7 5) [0, 0, 0, 1, 8, 8, 8, 8, 0, 53, 1] (sy_relay demo_holding))
      (next_packet (sy_relay demo_holding)) = Some (demo_task 0 Begin)"
    using demo_received_eq by (simp add: demo_received_def demo_next_packet demo_task_def demo_target_def)
  from datagrams_authenticated [OF demo_system_start demo_system_steps demo_valid_default _ this]
  show ?thesis by (simp add: demo_task_def)
qed

text \<open>C3: Every answer was accepted for its client. In every reachable state of the whole server,
  whenever a receiver sends a packet, the run has passed through a state in which this
  receiver waited and found its association alive: a handler held the association then, for a
  connected client that passes the whitelist and had authenticated and asked for the
  association. From the next step on the receiver has carried this one answer, up to the
  sending, and the packet goes to the address of that client. (The client may leave between
  the look at \<open>alive\<close> and the end of \<open>send_to\<close>.)\<close>

theorem answers_to_clients:
  assumes "sys_start s0" and "(sys_step cfg conns mx hz)\<^sup>*\<^sup>* s0 s"
    and "valid_credentials (cfg_username cfg) (cfg_password cfg)" and "sv_spawned (sy_serving s) < 2 ^ 64"
    and "receivers (sy_relay s) k = Some r"
    and "snd (receiver_step mx (unat (cfg_udp_timeout cfg)) oldest now ev k (sy_relay s)) = Some (packet, to)"
  shows "\<exists>u address. (sys_step cfg conns mx hz)\<^sup>*\<^sup>* s0 u \<and>
    accepted_for cfg conns mx hz k (r_assoc r) address u s \<and>
    normalize_ip (sock_ip to) = normalize_ip (sock_ip address)"
proof -
  have "r_stage r = Replying packet to"
    using assms(5,6) by (auto simp: receiver_step_sends)
  moreover from this have "answering (sy_relay s) k"
    using assms(5) by (auto simp: answering_iff)
  then have "answer_from cfg conns mx hz s0 k r s"
    by (rule answer_history [OF assms(1,3,2,4,5)])
  ultimately show ?thesis
    unfolding answer_from_def by blast
qed

text \<open>Without handlers the registry is empty and the associations of the tasks are dead.\<close>

lemma no_clients_default:
  assumes "sys_start s0" and "(sys_step cfg conns mx hz)\<^sup>*\<^sup>* s0 s"
    and "valid_credentials (cfg_username cfg) (cfg_password cfg)" and "sv_spawned (sy_serving s) < 2 ^ 64"
    and none: "sv_clients (sy_serving s) = Map.empty"
  shows "reg (sy_relay s) = reg_default" "refd (sy_relay s) b \<Longrightarrow> \<not> alive (assocs (sy_relay s) b)"
proof -
  note r = sys_reaches [OF assms(1-4)]
  note held = sys_invD(3) [OF r(1)]
  have free: "\<not> holds s n b" for n b
    using holdersD [OF sys_invD(4) [OF r(1)], of n b] none by (auto simp: holder_ok_def)
  show "\<not> alive (assocs (sy_relay s) b)" if "refd (sy_relay s) b" for b
    using tasks_heldD [OF sys_invD(5) [OF r(1)] that] free by (auto simp: holds_def)
  have "entries (reg (sy_relay s)) j = None" for j
    using entries_heldD [OF held, of j] none by (cases "entries (reg (sy_relay s)) j") auto
  then have "entries (reg (sy_relay s)) = Map.empty" by blast
  moreover have "reg_inv (assocs (sy_relay s), reg (sy_relay s))"
    using udp_steps_registry [OF _ r(4)] assms(1) by (simp add: sys_start_def)
  ultimately show "reg (sy_relay s) = reg_default"
    using no_entries_default by blast
qed

text \<open>C7: The registry is the list of the clients that hold an association. Its entries are exactly
  the associations of the running handlers, under the ids the accept loop gave them, at most
  2048; every association that an entry names belongs to its handler's client; and when the
  last handler has ended the registry is as new, and no task works for a live association.\<close>

theorem registry_is_clients:
  assumes "sys_start s0" and "(sys_step cfg conns mx hz)\<^sup>*\<^sup>* s0 s"
    and "valid_credentials (cfg_username cfg) (cfg_password cfg)" and "sv_spawned (sy_serving s) < 2 ^ 64"
  shows "(entries (reg (sy_relay s)) i = Some a \<longleftrightarrow>
      (\<exists>n address. sv_clients (sy_serving s) n = Some (i, address) \<and> sy_phase s n \<in> {Holding a, Marked a})) \<and>
    card (dom (entries (reg (sy_relay s)))) \<le> 2048 \<and>
    (sv_clients (sy_serving s) = Map.empty \<longrightarrow>
      reg (sy_relay s) = reg_default \<and> (\<forall>b. refd (sy_relay s) b \<longrightarrow> \<not> alive (assocs (sy_relay s) b)))"
proof (intro conjI impI allI)
  note r = sys_reaches [OF assms]
  note held = sys_invD(3) [OF r(1)]
  show "entries (reg (sy_relay s)) i = Some a \<longleftrightarrow>
      (\<exists>n address. sv_clients (sy_serving s) n = Some (i, address) \<and> sy_phase s n \<in> {Holding a, Marked a})"
    using held by (simp add: entries_held_def holds_def)
  show "card (dom (entries (reg (sy_relay s)))) \<le> 2048"
    using entries_finite(2) [OF held] r(3) by (simp add: MAX_TCP_CLIENTS_def)
qed (use no_clients_default [OF assms] in blast)+

lemma sys_relays: "(relay_moves cfg mx hz)\<^sup>*\<^sup>* (sy_relay s) rl \<Longrightarrow> (sys_step cfg conns mx hz)\<^sup>*\<^sup>* s (s\<lparr>sy_relay := rl\<rparr>)"
proof (induction rule: rtranclp_induct)
  case (step rl rl')
  have "sys_step cfg conns mx hz (s\<lparr>sy_relay := rl\<rparr>) (s\<lparr>sy_relay := rl\<rparr>\<lparr>sy_relay := rl'\<rparr>)"
    by (rule sys_relay) (simp add: step(2))
  then show ?case
    using step(3) by simp
qed simp

lemma demo_packs_answer: "relay_moves cfg_default 1000 10 demo_answering demo_replying"
  unfolding demo_replying_def
  by (rule relay_reply) (auto simp: evicts_def event_enabled_def demo_answering_assocs demo_preferred)

lemma demo_sending_system: "(sys_step cfg_default demo_conns 1000 10)\<^sup>*\<^sup>* demo_system (demo_holding\<lparr>sy_relay := demo_replying\<rparr>)"
proof -
  have "(relay_moves cfg_default 1000 10)\<^sup>*\<^sup>* demo_registered demo_replying"
    using demo_moves demo_accepts_answer demo_packs_answer by (meson rtranclp.rtrancl_into_rtrancl)
  then show ?thesis
    using sys_relays [of cfg_default 1000 10 demo_holding] demo_system_steps
    by (metis demo_sy_relay(1) rtranclp_trans)
qed

lemma demo_replies:
  obtains r packet where "receivers demo_replying 0 = Some r" "r_assoc r = 0" "r_stage r = Replying packet (SockV4 7 5)"
proof -
  have w: "receivers demo_waiting 0 = Some (demo_receiver\<lparr>r_stage := Waiting\<rparr>)"
    "alive (assocs demo_waiting (r_assoc (demo_receiver\<lparr>r_stage := Waiting\<rparr>)))"
    by (simp_all add: demo_waiting_receiver demo_waiting_client demo_receiver_def)
  obtain r1 l where 1: "receivers demo_answering 0 = Some r1" "r_stage r1 = Answering l" "r_assoc r1 = 0"
    by (rule answer_accepted [OF demo_waiting_inv w(1) _ w(2), where d = "[9, 8]"])
      (auto simp: demo_answering_def demo_receiver_def)
  have "endpoint (assocs demo_answering (r_assoc r1)) = Some (SockV4 7 5)"
    by (simp add: 1(3) demo_answering_assocs demo_waiting_client)
  then show thesis
    by (rule answer_addressed [OF demo_answering_inv 1(1,2)]) (use 1(3) that in \<open>auto simp: demo_replying_def\<close>)
qed

theorem answers_to_clients_witness:
  "\<exists>k u address. (sys_step cfg_default demo_conns 1000 10)\<^sup>*\<^sup>* demo_system u \<and>
    accepted_for cfg_default demo_conns 1000 10 k 0 address u (demo_holding\<lparr>sy_relay := demo_replying\<rparr>) \<and>
    normalize_ip (sock_ip (SockV4 7 5)) = normalize_ip (sock_ip address)"
proof -
  obtain r packet where r: "receivers demo_replying 0 = Some r" "r_assoc r = 0" "r_stage r = Replying packet (SockV4 7 5)"
    by (rule demo_replies)
  have "sv_spawned (sy_serving (demo_holding\<lparr>sy_relay := demo_replying\<rparr>)) < 2 ^ 64"
    "receivers (sy_relay (demo_holding\<lparr>sy_relay := demo_replying\<rparr>)) 0 = Some r"
    by (simp_all add: r)
  moreover have "relay_inv 10 demo_replying"
    using relay_system.reachable_inv [of demo_relay 10 cfg_default 1000 demo_replying] demo_relay_start
      rtranclp.rtrancl_into_rtrancl [OF demo_answering_steps udp_task [OF demo_packs_answer]] by (simp add: cfg_default_def)
  then have "snd (receiver_step 1000 (unat (cfg_udp_timeout cfg_default)) None 3 Receive_failed 0
      (sy_relay (demo_holding\<lparr>sy_relay := demo_replying\<rparr>))) = Some (packet, SockV4 7 5)"
    using answer_leaves [OF _ r(1)] by (simp add: answer_sent_def r(3))
  ultimately show ?thesis
    using answers_to_clients [OF demo_system_start demo_sending_system demo_valid_default] r(2) by metis
qed

theorem registry_is_clients_witness:
  "entries (reg (sy_relay demo_holding)) 1 = Some 0 \<longleftrightarrow>
    (\<exists>n address. sv_clients (sy_serving demo_holding) n = Some (1, address) \<and>
      sy_phase demo_holding n \<in> {Holding 0, Marked 0})"
  using registry_is_clients [OF demo_system_start demo_system_steps demo_valid_default, of 1 0] by simp

text \<open>C9: The parts keep their promises in the whole. A run of the server is at the same time a run of
  the accept loop and a run of the UDP relay with its registry: each handler's registration,
  its closing and the stop at the end are steps the relay's guarantees allow for, so the bounds
  on the tasks and the flows, the exclusive sessions and the registry's invariant hold in the
  server as it runs.\<close>

theorem server_refines_parts:
  assumes "sys_start s0" and "(sys_step cfg conns mx hz)\<^sup>*\<^sup>* s0 s"
    and "valid_credentials (cfg_username cfg) (cfg_password cfg)" and "sv_spawned (sy_serving s) < 2 ^ 64"
  shows "(serve_moves cfg)\<^sup>*\<^sup>* (serve_start 1) (sy_serving s) \<and>
    (udp_step cfg mx hz)\<^sup>*\<^sup>* (sy_relay s0) (sy_relay s) \<and>
    reg_inv (assocs (sy_relay s), reg (sy_relay s)) \<and>
    card (dom (packets (sy_relay s))) \<le> 256 \<and> card (live_slots (sy_relay s)) \<le> 1024"
proof -
  note r = sys_reaches [OF assms]
  have start: "udp_start (sy_relay s0)"
    using assms(1) by (simp add: sys_start_def)
  show ?thesis
    using r(2,4) udp_steps_registry [OF start r(4)] packet_permits.steps_bounded [OF start r(4)]
      flow_permits.steps_bounded [OF start r(4)]
    by (simp add: MAX_UDP_PACKET_TASKS_def MAX_UDP_FLOWS_def)
qed

theorem server_refines_parts_witness:
  "(serve_moves cfg_default)\<^sup>*\<^sup>* (serve_start 1) (sy_serving demo_holding) \<and>
   (udp_step cfg_default 1000 10)\<^sup>*\<^sup>* (sy_relay demo_system) (sy_relay demo_holding) \<and>
   reg_inv (assocs (sy_relay demo_holding), reg (sy_relay demo_holding)) \<and>
   card (dom (packets (sy_relay demo_holding))) \<le> 256 \<and> card (live_slots (sy_relay demo_holding)) \<le> 1024"
  by (rule server_refines_parts [OF demo_system_start demo_system_steps demo_valid_default]) simp

text \<open>C8: An association that was closed stays closed. Once a handler has marked its association, then
  in every state the whole server reaches from there, whatever the other clients, tasks and
  the network do: no datagram starts a packet task for the association; no packet task comes
  to a send for it, since one that is in a send is in the same send as when the association
  was marked, with the same number of attempts; no receiver accepts an answer for it, since
  one that sends an answer has carried this one answer ever since the association was
  marked; and the handler never takes it up again. So at most the datagrams and the answers
  that had passed their look at \<open>alive\<close> still leave, one per task.\<close>

theorem closed_for_good:
  assumes "sys_start s0" and "(sys_step cfg conns mx hz)\<^sup>*\<^sup>* s0 s" and "(sys_step cfg conns mx hz)\<^sup>*\<^sup>* s t"
    and "valid_credentials (cfg_username cfg) (cfg_password cfg)" and "sv_spawned (sy_serving t) < 2 ^ 64"
    and "sy_phase s n = Marked a"
  shows "(\<forall>permit source d p.
      packets (udp_datagram cfg permit source d (sy_relay t)) (next_packet (sy_relay t)) = Some p \<longrightarrow> t_assoc p \<noteq> a) \<and>
    (\<forall>i p k. packets (sy_relay t) i = Some p \<longrightarrow> t_assoc p = a \<longrightarrow> t_stage p = Sending k \<longrightarrow>
      packets (sy_relay s) i = Some p) \<and>
    (\<forall>k r oldest now ev answer. receivers (sy_relay t) k = Some r \<longrightarrow> r_assoc r = a \<longrightarrow>
      snd (receiver_step mx (unat (cfg_udp_timeout cfg)) oldest now ev k (sy_relay t)) = Some answer \<longrightarrow>
      answering (sy_relay s) k \<and> same_answer cfg conns mx hz k s t) \<and>
    sy_phase t n \<in> {Marked a, Leaving}"
proof (intro conjI allI impI)
  have reach: "(sys_step cfg conns mx hz)\<^sup>*\<^sup>* s0 t"
    using assms(2,3) by (rule rtranclp_trans)
  have small: "sv_spawned (sy_serving s) < 2 ^ 64"
    using sys_steps_spawned [OF assms(3)] assms(5) by simp
  note r = sys_reaches [OF assms(1) reach assms(4,5)]
  have start: "udp_start (sy_relay s0)"
    using assms(1) by (simp add: sys_start_def)
  have "holds s n a"
    using assms(6) by (simp add: holds_def)
  then have gone: "gone s a"
    using holdersD [OF sys_invD(4) [OF sys_reaches(1) [OF assms(1,2,4) small]]] assms(6)
    by (simp add: holder_ok_def gone_def)
  then have dead: "\<not> alive (assocs (sy_relay t) a)"
    using sys_steps_gone [OF assms(3)] by (simp add: gone_def)
  show "t_assoc p \<noteq> a"
    if "packets (udp_datagram cfg permit source d (sy_relay t)) (next_packet (sy_relay t)) = Some p"
    for permit source d p
    using dead datagram_owner [OF start r(4) that] by blast
  show "packets (sy_relay s) i = Some p"
    if "packets (sy_relay t) i = Some p" "t_assoc p = a" "t_stage p = Sending k" for i p k
    using gone_sending [OF assms(3) gone] that by blast
  show "answering (sy_relay s) k" "same_answer cfg conns mx hz k s t"
    if "receivers (sy_relay t) k = Some r" "r_assoc r = a"
      "snd (receiver_step mx (unat (cfg_udp_timeout cfg)) oldest now ev k (sy_relay t)) = Some answer"
    for k r oldest now ev answer
  proof -
    have "answering (sy_relay t) k"
      using that(3) by (cases answer) (auto simp: receiver_step_sends answering_iff)
    then show "answering (sy_relay s) k" "same_answer cfg conns mx hz k s t"
      using gone_answering [OF assms(3) gone that(1,2)] by blast+
  qed
  show "sy_phase t n \<in> {Marked a, Leaving}"
    using sys_steps_phase [OF assms(3), of n] assms(6) by simp
qed

definition demo_marked :: system where
  "demo_marked = demo_holding\<lparr>sy_relay := upd_assoc 0 (\<lambda>x. x\<lparr>alive := False, stopped := True\<rparr>) demo_registered,
     sy_phase := (sy_phase demo_holding)(0 := Marked 0)\<rparr>"

theorem closed_for_good_witness:
  "packets (udp_datagram cfg_default True (SockV4 7 5) [0, 0, 0, 1, 8, 8, 8, 8, 0, 53, 1] (sy_relay demo_marked))
     (next_packet (sy_relay demo_marked)) \<noteq> Some (demo_task 0 Begin) \<and>
   sy_phase demo_marked 0 \<in> {Marked 0, Leaving}"
proof -
  have "sys_step cfg_default demo_conns 1000 10 demo_holding demo_marked"
    using sys_mark [of demo_holding 0 0 cfg_default demo_conns 1000 10]
    by (simp add: demo_marked_def) (simp add: demo_holding_def)
  then have "(sys_step cfg_default demo_conns 1000 10)\<^sup>*\<^sup>* demo_system demo_marked"
    using demo_system_steps by (rule rtranclp.rtrancl_into_rtrancl [rotated])
  note closed = closed_for_good [OF demo_system_start this rtranclp.rtrancl_refl demo_valid_default, of 0 0]
  have "sv_spawned (sy_serving demo_marked) < 2 ^ 64"
    "sy_phase demo_marked 0 = Marked 0" "t_assoc (demo_task 0 Begin) = 0"
    by (simp_all add: demo_marked_def demo_task_def)
  with closed show ?thesis by metis
qed

section \<open>The end of the server\<close>

text \<open>C19: Success means shutdown. The server is \<open>run_async\<close>, whose associations and registry when its
  accept loop is left are those of a reachable state of the whole server, and whose UDP task
  is \<open>udp_loop\<close>; while it is waited for the system goes on. If the server returns \<open>Ok\<close>, then
  its datagram loop was cancelled, and the accept loop was left by the shutdown or, with the
  shutdown requested, by the end of the datagram loop. Every association that was registered
  at the stop is dead when the server returns and its tasks are told to stop; one that is
  registered and alive then was registered after the stop, and with the shutdown requested
  its handler does not wait for its client: a control connection that takes what is written
  to it comes to its end, which closes the association (\<open>association_cleans_up\<close>).\<close>

theorem success_means_shutdown:
  assumes "run_async cfg dns tcp udp evs (Udp_returned u) env st = Some (Inr (), st')"
    and "fst (udp_loop cfg loop_evs rl) = Some u"
    and "\<And>cancelled ended. (cancelled, Inr (Udp_ended ended)) \<in> set evs \<Longrightarrow> ended = Udp_returned u"
    and "sys_start s0" and "(sys_step cfg conns mx hz)\<^sup>*\<^sup>* s0 s" and "\<not> sy_stopped s"
    and "valid_credentials (cfg_username cfg) (cfg_password cfg)" and "sv_spawned (sy_serving t) < 2 ^ 64"
    and "(sys_step cfg conns mx hz)\<^sup>*\<^sup>* (stopped_system s) t"
    and "env 0 st = shared s" and "env 1 (stop_all (shared s)) = shared t"
  shows "Inr Cancelled \<in> set loop_evs \<and>
    (\<exists>cancelled. (cancelled, Inr Shutdown) \<in> set evs \<or> cancelled \<and> (cancelled, Inr (Udp_ended (Udp_returned (Inr ())))) \<in> set evs) \<and>
    (\<forall>i a. entries (reg (sy_relay s)) i = Some a \<longrightarrow> \<not> alive (fst st' a) \<and> stopped (fst st' a)) \<and>
    (\<forall>i a. entries (snd st') i = Some a \<longrightarrow> alive (fst st' a) \<longrightarrow> sy_next_ref s \<le> a) \<and>
    (\<forall>udp_local others a i target c st2. tx_room c = None \<longrightarrow>
       fst (associate udp_local True others a i target (c, st2)) \<noteq> Pending)"
proof (intro conjI allI impI)
  show "Inr Cancelled \<in> set loop_evs"
    using assms(1-3) by (rule run_async_cancelled)
  show "\<exists>cancelled. (cancelled, Inr Shutdown) \<in> set evs \<or> cancelled \<and> (cancelled, Inr (Udp_ended (Udp_returned (Inr ())))) \<in> set evs"
    using run_async_ok(2) [OF assms(1)] by auto
  have end_state: "\<exists>v. st' = shared v \<and> (sys_step cfg conns mx hz)\<^sup>*\<^sup>* (stopped_system s) v \<and>
      sv_spawned (sy_serving v) < 2 ^ 64"
    using run_async_ok(1) [OF assms(1)] assms(8-11) sys_steps_spawned [OF assms(9)]
    by (metis stopped_system_simps(1) rtranclp.rtrancl_refl le_less_trans)
  then obtain v where v: "st' = shared v" "(sys_step cfg conns mx hz)\<^sup>*\<^sup>* (stopped_system s) v"
    "sv_spawned (sy_serving v) < 2 ^ 64"
    by blast
  have reach: "(sys_step cfg conns mx hz)\<^sup>*\<^sup>* s0 v"
    using assms(5) stopped_system_step [OF assms(6)] v(2) by (meson rtranclp.rtrancl_into_rtrancl rtranclp_trans)
  have "sv_spawned (sy_serving s) < 2 ^ 64"
    using sys_steps_spawned [OF v(2)] v(3) by simp
  then have inv: "sys_inv cfg conns s" "sys_inv cfg conns v"
    using sys_reaches(1) [OF assms(4,5,7)] sys_reaches(1) [OF assms(4) reach assms(7) v(3)] by blast+
  show "\<not> alive (fst st' a)" "stopped (fst st' a)" if "entries (reg (sy_relay s)) i = Some a" for i a
    using sys_steps_told [OF v(2) stopped_system_told [OF inv(1) that]] by (simp_all add: v(1) told_def)
  show "sy_next_ref s \<le> a" if "entries (snd st') i = Some a" "alive (fst st' a)" for i a
    using stopped_system_later [OF inv v(2), of i a] that by (simp add: v(1))
qed (rule associate_ends)

theorem success_means_shutdown_witness:
  "Inr Cancelled \<in> set demo_loop_events \<and>
   \<not> alive (fst (snd (the (run_async cfg_default (Inr ()) (Inr ()) (Inr ()) [(False, Inl 3), (True, Inr Shutdown)]
     (Udp_returned (Inr ())) (\<lambda>n st. if n = 0 then shared demo_holding else st) demo_start))) 0)"
proof -
  let ?env = "\<lambda>n st. if n = (0 :: nat) then shared demo_holding else st"
  have run: "run_async cfg_default (Inr ()) (Inr ()) (Inr ()) [(False, Inl 3), (True, Inr Shutdown)]
     (Udp_returned (Inr ())) ?env demo_start = Some (Inr (), stop_all (shared demo_holding))"
    by (simp add: run_async_def and_then_def serve_step_def serve_result_def)
  have "fst (udp_loop cfg_default demo_loop_events demo_registered) = Some (Inr ())"
    unfolding udp_loop_result by (simp add: demo_loop_events_def udp_receive_error_def)
  note ends = success_means_shutdown [OF run this _ demo_system_start demo_system_steps _ demo_valid_default,
      of "stopped_system demo_holding"]
  have "entries (reg (sy_relay demo_holding)) 1 = Some 0"
    by (simp add: demo_registered_def demo_state_def)
  moreover have "\<not> sy_stopped demo_holding"
    by (simp add: demo_holding_def demo_accepted_def demo_system_def)
  ultimately show ?thesis
    using ends by (auto simp: run)
qed

section \<open>Every client can leave\<close>

lemma handler_ends:
  assumes "sv_clients (sy_serving s) n \<noteq> None"
  shows "\<exists>t. (sys_step cfg conns mx hz)\<^sup>*\<^sup>* s t \<and>
    sv_clients (sy_serving t) = (sv_clients (sy_serving s))(n := None) \<and>
    sv_spawned (sy_serving t) = sv_spawned (sy_serving s)" (is "?ends s")
proof -
  let ?step = "sys_step cfg conns mx hz"
  have leave: "?ends u" if "sy_phase u n \<in> {Handshaking, Leaving}" for u
    by (intro exI [of _ "u\<lparr>sy_serving := client_ended n (sy_serving u)\<rparr>"] conjI r_into_rtranclp)
      (use sys_leave [OF that, of cfg conns mx hz] in \<open>simp_all add: client_ended_def\<close>)
  have earlier: "?ends u" if "?step u v" "?ends v" "sy_serving v = sy_serving u" for u v
    using that by (metis converse_rtranclp_into_rtranclp)
  have remove: "?ends u" if c: "sv_clients (sy_serving u) n \<noteq> None" and m: "sy_phase u n = Marked a" for u a
  proof -
    obtain i address where "sv_clients (sy_serving u) n = Some (i, address)"
      using c by auto
    from sys_remove [OF this m] show ?thesis
      by (rule earlier) (rule leave, simp_all)
  qed
  have hold: "?ends s" if "sy_phase s n = Holding a" for a
    by (rule earlier [OF sys_mark [OF that]], rule remove [of _ a]) (simp_all add: assms)
  show ?thesis
  proof (cases "sy_phase s n")
    case (Holding a)
    then show ?thesis by (rule hold)
  next
    case (Marked a)
    then show ?thesis by (rule remove [OF assms])
  qed (rule leave, simp)+
qed

lemma clients_drain:
  assumes "finite (dom (sv_clients (sy_serving s)))"
  shows "\<exists>t. (sys_step cfg conns mx hz)\<^sup>*\<^sup>* s t \<and> sv_clients (sy_serving t) = Map.empty \<and>
    sv_spawned (sy_serving t) = sv_spawned (sy_serving s)"
  using assms
proof (induction "card (dom (sv_clients (sy_serving s)))" arbitrary: s)
  case 0
  then show ?case by (intro exI [of _ s]) auto
next
  case (Suc k)
  obtain n where n: "n \<in> dom (sv_clients (sy_serving s))"
    using Suc(2) by fastforce
  then obtain t where t: "(sys_step cfg conns mx hz)\<^sup>*\<^sup>* s t"
    "sv_clients (sy_serving t) = (sv_clients (sy_serving s))(n := None)"
    "sv_spawned (sy_serving t) = sv_spawned (sy_serving s)"
    using handler_ends [of s n cfg conns mx hz] by auto
  have "k = card (dom (sv_clients (sy_serving t)))"
    using Suc(2,3) n by (simp add: t(2))
  then obtain u where "(sys_step cfg conns mx hz)\<^sup>*\<^sup>* t u" "sv_clients (sy_serving u) = Map.empty"
    "sv_spawned (sy_serving u) = sv_spawned (sy_serving t)"
    using Suc(1) [of t] Suc(3) t(2) by auto
  then show ?case
    using t(1,3) by (metis rtranclp_trans)
qed

text \<open>C10: The server drains. From every reachable state, in whatever phase its clients are and also
  after the shutdown, the handlers have steps with which all of them end, and then the
  registry is as new: no association, no pending address and no bound endpoint is left.\<close>

theorem server_drains:
  assumes "sys_start s0" and "(sys_step cfg conns mx hz)\<^sup>*\<^sup>* s0 s"
    and "valid_credentials (cfg_username cfg) (cfg_password cfg)" and "sv_spawned (sy_serving s) < 2 ^ 64"
  shows "\<exists>t. (sys_step cfg conns mx hz)\<^sup>*\<^sup>* s t \<and> sv_clients (sy_serving t) = Map.empty \<and>
    reg (sy_relay t) = reg_default"
proof -
  obtain t where t: "(sys_step cfg conns mx hz)\<^sup>*\<^sup>* s t" "sv_clients (sy_serving t) = Map.empty"
    "sv_spawned (sy_serving t) = sv_spawned (sy_serving s)"
    using clients_drain [of s cfg conns mx hz] sys_reaches(3) [OF assms] by blast
  have "reg (sy_relay t) = reg_default"
    using no_clients_default [OF assms(1) rtranclp_trans [OF assms(2) t(1)] assms(3) _ t(2)] assms(4) t(3)
    by simp
  then show ?thesis
    using t by blast
qed

theorem server_drains_witness:
  "\<exists>t. (sys_step cfg_default demo_conns 1000 10)\<^sup>*\<^sup>* demo_holding t \<and> sv_clients (sy_serving t) = Map.empty \<and>
    reg (sy_relay t) = reg_default"
  by (rule server_drains [OF demo_system_start demo_system_steps demo_valid_default]) simp

section \<open>The handler is a path of the system\<close>

lemma close_steps:
  assumes "sy_phase s n = Holding a" "sv_clients (sy_serving s) n = Some (i, address)"
  shows "\<exists>t. (sys_step cfg conns mx hz)\<^sup>*\<^sup>* s t \<and> shared t = associate_close a i (shared s) \<and> sy_phase t n = Leaving"
proof -
  let ?u = "s\<lparr>sy_relay := upd_assoc a (\<lambda>x. x\<lparr>alive := False, stopped := True\<rparr>) (sy_relay s),
      sy_phase := (sy_phase s)(n := Marked a)\<rparr>"
  let ?t = "?u\<lparr>sy_relay := (sy_relay ?u)\<lparr>reg := reg_remove (assocs (sy_relay ?u)) i (reg (sy_relay ?u))\<rparr>,
      sy_phase := (sy_phase ?u)(n := Leaving)\<rparr>"
  have "sys_step cfg conns mx hz s ?u"
    by (rule sys_mark [OF assms(1)])
  moreover have "sys_step cfg conns mx hz ?u ?t"
    by (rule sys_remove) (use assms in simp_all)
  ultimately have "(sys_step cfg conns mx hz)\<^sup>*\<^sup>* s ?t"
    by (meson converse_rtranclp_into_rtranclp r_into_rtranclp)
  moreover have "shared ?t = associate_close a i (shared s)"
    by (simp add: shared_def associate_close_def Let_def)
  ultimately show ?thesis
    by (intro exI [of _ ?t]) simp
qed

text \<open>What the other tasks do is a run of the system that leaves handler \<open>n\<close> alone.\<close>

definition others_run :: "config \<Rightarrow> (nat \<Rightarrow> conn) \<Rightarrow> nat \<Rightarrow> nat \<Rightarrow> nat \<Rightarrow> (store \<times> registry \<Rightarrow> store \<times> registry) \<Rightarrow> bool" where
  "others_run cfg conns mx hz n env \<longleftrightarrow>
     (\<forall>s. \<exists>t. (sys_step cfg conns mx hz)\<^sup>*\<^sup>* s t \<and> shared t = env (shared s) \<and>
        sy_phase t n = sy_phase s n \<and> sv_clients (sy_serving t) n = sv_clients (sy_serving s) n)"

lemma others_runE:
  assumes "others_run cfg conns mx hz n env" "(sys_step cfg conns mx hz)\<^sup>*\<^sup>* s0 s"
  obtains t where "(sys_step cfg conns mx hz)\<^sup>*\<^sup>* s0 t" "shared t = env (shared s)"
    "sy_phase t n = sy_phase s n" "sv_clients (sy_serving t) n = sv_clients (sy_serving s) n"
  using assms unfolding others_run_def by (meson rtranclp_trans)

text \<open>C11: The handler of the source is a path of the whole. \<open>associate\<close>, from the checks to the removal,
  with anything the other tasks do in between, is a run of the system's steps of its handler
  and theirs; at its end, unless it still runs, the handler is out of the registry.\<close>

theorem associate_is_run:
  assumes "associate udp_local shutdown env (sy_next_ref s) i target (c, st) = (result, c', st')"
    and "env 0 st = shared s"
    and "sv_clients (sy_serving s) n = Some (i, address)" and "sy_phase s n = Handshaking"
    and "handle_handshake cfg (conns n) = (Return (Do_associate target), c)"
    and "\<And>k. others_run cfg conns mx hz n (env k)"
  shows "\<exists>t. (sys_step cfg conns mx hz)\<^sup>*\<^sup>* s t \<and> shared t = st' \<and>
    (result \<noteq> Pending \<longrightarrow> sy_phase t n \<in> {Handshaking, Leaving})"
proof -
  let ?step = "sys_step cfg conns mx hz"
  have register: "\<exists>t. ?step\<^sup>*\<^sup>* s t \<and> shared t = st1 \<and> sy_phase t n = (if ok then Holding (sy_next_ref s) else Leaving) \<and>
      sv_clients (sy_serving t) n = Some (i, address)"
    if "associate_relay udp_local target c = (Return (bound, ip), c)"
      "associate_register (sy_next_ref s) i (new_association ip (t_port target)) (env 0 st) = (ok, st1)"
    for bound ip ok st1
  proof (intro exI conjI)
    let ?t = "s\<lparr>sy_relay := with_registry st1 (sy_relay s),
        sy_phase := (sy_phase s)(n := if ok then Holding (sy_next_ref s) else Leaving),
        sy_next_ref := Suc (sy_next_ref s)\<rparr>"
    show "?step\<^sup>*\<^sup>* s ?t"
      by (rule r_into_rtranclp, rule sys_register) (use assms(2-5) that in simp_all)
  qed (use assms(3) in \<open>simp_all add: shared_def\<close>)
  from assms(1) show ?thesis
  proof (cases rule: associate_cases)
    case rejected
    then show ?thesis using assms(2,4) by auto
  next
    case (refused bound ip st1)
    obtain u where u: "?step\<^sup>*\<^sup>* s u" "shared u = st1" "sy_phase u n = Leaving"
      using register [OF refused(1,2)] by auto
    then show ?thesis
      using others_runE [OF assms(6) u(1), of 1] refused(3) by (metis insertCI)
  next
    case (closed bound ip st1)
    obtain u where u: "?step\<^sup>*\<^sup>* s u" "shared u = st1" "sy_phase u n = Holding (sy_next_ref s)"
      "sv_clients (sy_serving u) n = Some (i, address)"
      using register [OF closed(1,2)] by auto
    obtain v where v: "?step\<^sup>*\<^sup>* s v" "shared v = env 1 st1" "sy_phase v n = Holding (sy_next_ref s)"
      "sv_clients (sy_serving v) n = Some (i, address)"
      using others_runE [OF assms(6) u(1), of 1] u by metis
    obtain w where w: "?step\<^sup>*\<^sup>* s w" "shared w = env 2 (env 1 st1)" "sy_phase w n = Holding (sy_next_ref s)"
      "sv_clients (sy_serving w) n = Some (i, address)"
      using others_runE [OF assms(6) v(1), of 2] v by metis
    show ?thesis
      using closed(3) close_steps [OF v(3,4), of cfg conns mx hz] close_steps [OF w(3,4), of cfg conns mx hz]
        v(1,2) w(1,2) by (metis insertCI rtranclp_trans)
  next
    case (running bound ip st1)
    obtain u where u: "?step\<^sup>*\<^sup>* s u" "shared u = st1"
      using register [OF running(1,2)] by auto
    obtain v where v: "?step\<^sup>*\<^sup>* s v" "shared v = env 1 st1"
      using others_runE [OF assms(6) u(1), of 1] u by metis
    obtain w where w: "?step\<^sup>*\<^sup>* s w" "shared w = env 2 (env 1 st1)"
      using others_runE [OF assms(6) v(1), of 2] v by metis
    show ?thesis
      using running(3,4) v w by metis
  qed
qed

text \<open>Another task may look up a datagram that is dropped because no permit is free.\<close>

lemma datagram_others:
  "others_run cfg_default conns mx hz n
     (\<lambda>st. snd (reg_find (SockV4 7 5) st))"
  unfolding others_run_def
proof
  fix s :: system
  let ?rl = "udp_datagram cfg_default False (SockV4 7 5) [0, 0, 0, 1, 8, 8, 8, 8, 0, 53, 1] (sy_relay s)"
  obtain res h r where f: "reg_find (SockV4 7 5) (assocs (sy_relay s), reg (sy_relay s)) = (res, h, r)"
    by (cases "reg_find (SockV4 7 5) (assocs (sy_relay s), reg (sy_relay s))")
  have w: "wl_allows (cfg_whitelist cfg_default) (sock_ip (SockV4 7 5))"
    by (simp add: cfg_default_def wl_default_def wl_allows_def)
  have d: "?rl = (sy_relay s)\<lparr>assocs := h, reg := r\<rparr>"
    unfolding udp_datagram_def demo_datagram_parses f using w by (simp split: option.split)
  show "\<exists>t. (sys_step cfg_default conns mx hz)\<^sup>*\<^sup>* s t \<and> shared t = snd (reg_find (SockV4 7 5) (shared s)) \<and>
      sy_phase t n = sy_phase s n \<and> sv_clients (sy_serving t) n = sv_clients (sy_serving s) n"
  proof (intro exI conjI)
    show "(sys_step cfg_default conns mx hz)\<^sup>*\<^sup>* s (s\<lparr>sy_relay := ?rl\<rparr>)"
      by (intro r_into_rtranclp sys_relay relay_datagram) simp
    show "shared (s\<lparr>sy_relay := ?rl\<rparr>) = snd (reg_find (SockV4 7 5) (shared s))"
      unfolding d by (simp add: shared_def f)
  qed simp_all
qed

lemma nobody_others: "others_run cfg conns mx hz n (\<lambda>st. st)"
  unfolding others_run_def by blast

theorem associate_is_run_witness:
  "\<exists>t. (sys_step cfg_default demo_conns 1000 10)\<^sup>*\<^sup>* demo_accepted t \<and>
     shared t = snd (snd (associate (Inr (SockV6 0 1080 0 0)) False
       (\<lambda>k st. if k = 1 then snd (reg_find (SockV4 7 5) st) else st) 0 1 demo_request
       (wrote demo_conn [5, 0], demo_start)))"
proof -
  let ?env = "\<lambda>(k :: nat) st. if k = 1 then snd (reg_find (SockV4 7 5) st) else st"
  let ?run = "associate (Inr (SockV6 0 1080 0 0)) False ?env (sy_next_ref demo_accepted) 1
      demo_request (wrote demo_conn [5, 0], demo_start)"
  obtain result c' st' where run: "?run = (result, c', st')"
    by (cases ?run rule: prod_cases3)
  have "\<exists>t. (sys_step cfg_default demo_conns 1000 10)\<^sup>*\<^sup>* demo_accepted t \<and> shared t = st' \<and>
      (result \<noteq> Pending \<longrightarrow> sy_phase t 0 \<in> {Handshaking, Leaving})"
  proof (rule associate_is_run [OF run _ _ _ demo_handshake])
    show "others_run cfg_default demo_conns 1000 10 0 (?env k)" for k
      by (cases "k = 1") (simp_all add: datagram_others nobody_others del: One_nat_def)
  qed (simp_all add: demo_accepted_def demo_system_def demo_serving_def shared_def demo_relay_def)
  then show ?thesis
    using run by (fastforce simp: demo_accepted_def demo_system_def)
qed

end
