(* ===== verification/Udp_Peers.thy ===== *)
theory Udp_Peers
  imports Udp_Guarantees
begin

text \<open>
  Where the payloads go. A flow is connected to an address of the one target, and serves the
  one association, that its slot was made for; and a datagram that was admitted is sent on
  such a flow, on the one that is there or on a new one.
\<close>

section \<open>The peer of a flow\<close>

text \<open>What a resolved address keeps of its target: the port, and the address itself if the
  target names one.\<close>

definition peer_for :: "target \<Rightarrow> socket_addr \<Rightarrow> bool" where
  "peer_for t a =
     (case t_host t of
        Ip ip \<Rightarrow> a = sock_new ip (t_port t)
      | Domain name \<Rightarrow> sock_port a = t_port t)"

lemma lookup_peers:
  "dns_lookup lookup_ip t = Inr addresses \<Longrightarrow> a \<in> set addresses \<Longrightarrow> peer_for t a"
  using dns.lookup_port [of lookup_ip t addresses a] dns.lookup_literal [of t _ lookup_ip]
  by (auto simp: peer_for_def split: host.split)

definition peer :: "relay \<Rightarrow> nat \<Rightarrow> socket_addr option" where
  "peer s k = (case cells s k of Some (Some f) \<Rightarrow> Some (f_peer f) | _ \<Rightarrow> None)"

lemma peer_Some: "peer s k = Some a \<longleftrightarrow> (\<exists>f. cells s k = Some (Some f) \<and> f_peer f = a)"
  by (auto simp: peer_def split: option.splits)

text \<open>
  Every flow is connected to an address for the target that refers to it, the receiver of the
  flow knows that address, and what a task is about to choose from are such addresses.
\<close>

definition flow_peers :: "relay \<Rightarrow> bool" where
  "flow_peers s \<longleftrightarrow>
     (\<forall>k a b t. peer s k = Some b \<longrightarrow> refs s k a t \<longrightarrow> peer_for t b) \<and>
     (\<forall>k r. receivers s k = Some r \<longrightarrow> peer s k = Some (r_dest r)) \<and>
     (\<forall>i p k addresses start. packets s i = Some p \<longrightarrow> t_stage p = Init k addresses start \<longrightarrow>
        (\<forall>a \<in> set addresses. peer_for (t_target p) a))"

lemma flow_peersD:
  assumes "flow_peers s"
  shows "peer s k = Some b \<Longrightarrow> refs s k a t \<Longrightarrow> peer_for t b"
    and "receivers s k = Some r \<Longrightarrow> peer s k = Some (r_dest r)"
    and "packets s i = Some p \<Longrightarrow> t_stage p = Init k addresses start \<Longrightarrow> c \<in> set addresses \<Longrightarrow>
      peer_for (t_target p) c"
  using assms unfolding flow_peers_def by blast+

section \<open>The steps\<close>

text \<open>A packet task connects a new flow only in the initialiser, to one of its addresses.\<close>

lemma packet_step_peer:
  assumes "peer (packet_step inp i s) k = Some b"
  obtains (old) "peer s k = Some b"
  | (new) p addresses start where "packets s i = Some p" "t_stage p = Init k addresses start" "b \<in> set addresses"
  using assms
  by (rule_tac packet_step_cases [of inp i s])
    (auto simp: peer_Some dest: select_address_less split: if_splits)

lemma packet_step_addresses:
  assumes "packets (packet_step inp i s) j = Some p" "t_stage p = Init k addresses start"
  obtains (old) "packets s j = Some p"
  | (new) "dns_lookup (\<lambda>_. in_answer inp) (t_target p) = Inr addresses"
  using assms
  by (rule_tac packet_step_cases [of inp i s]) (auto split: if_splits)

text \<open>A flow keeps its peer, and a new receiver comes with its flow.\<close>

lemma packet_step_keeps_peer:
  assumes "peer s k = Some b" "slot_cells s" "k < next_slot s"
  shows "peer (packet_step inp i s) k = Some b"
proof -
  obtain f where f: "cells s k = Some (Some f)" "f_peer f = b"
    using assms(1) by (auto simp: peer_Some)
  have "cells s j = None" if "packets s n = Some p" "t_stage p = Init j addresses start" for n p j addresses start
    using slot_cells_tasks(1) [OF assms(2) that(1)] that(2) by (simp add: stage_ok_def)
  then show ?thesis
    by (rule_tac packet_step_cases [of inp i s]) (use f assms(3) in \<open>auto simp: peer_Some split: if_splits\<close>)
qed

lemma packet_step_new_receiver:
  "receivers (packet_step inp i s) k = Some r \<Longrightarrow>
     receivers s k = Some r \<or> peer (packet_step inp i s) k = Some (r_dest r)"
  by (rule packet_step_cases [of inp i s]) (auto simp: peer_Some split: if_splits)

lemma packet_step_receiver_peer:
  assumes "receivers (packet_step inp i s) k = Some r"
    and "flow_peers s" "slot_cells s" "slot_places s"
  shows "peer (packet_step inp i s) k = Some (r_dest r)"
  using packet_step_new_receiver [OF assms(1)] flow_peersD(2) [OF assms(2)]
    packet_step_keeps_peer [OF _ assms(3)] slot_places_less [OF assms(4) refs.by_receiver] by metis

text \<open>A slot is empty when it is made.\<close>

lemma packet_step_new_slot:
  "next_slot (packet_step inp i s) = Suc (next_slot s) \<Longrightarrow> peer (packet_step inp i s) (next_slot s) = None"
  by (rule packet_step_cases [of inp i s]) (auto simp: peer_def split: if_splits)

lemma packet_step_peers:
  assumes "flow_peers s" "slot_cells s" "slot_places s"
  shows "flow_peers (packet_step inp i s)"
  unfolding flow_peers_def
proof (intro conjI allI impI ballI)
  fix k a b t assume p: "peer (packet_step inp i s) k = Some b" and r: "refs (packet_step inp i s) k a t"
  from p show "peer_for t b"
  proof (cases rule: packet_step_peer)
    case old
    have "refs s k a t"
      using packet_step_refs [OF r] packet_step_new_slot [of inp i s] p by auto
    then show ?thesis
      using flow_peersD(1) [OF assms(1) old] by blast
  next
    case (new q addresses start)
    have "refs s k (t_assoc q) (t_target q)"
      by (rule stage_refs(2) [OF new(1,2)])
    moreover from this have "refs s k a t"
      using slot_places_less [OF assms(3)] packet_step_refs [OF r] by blast
    ultimately have "t = t_target q"
      using slot_places_same [OF assms(3)] by blast
    then show ?thesis
      using flow_peersD(3) [OF assms(1) new] by simp
  qed
next
  fix k r assume "receivers (packet_step inp i s) k = Some r"
  then show "peer (packet_step inp i s) k = Some (r_dest r)"
    using packet_step_receiver_peer assms by blast
next
  fix j p k addresses start a
  assume "packets (packet_step inp i s) j = Some p" and st: "t_stage p = Init k addresses start"
    and a: "a \<in> set addresses"
  then show "peer_for (t_target p) a"
    by (cases rule: packet_step_addresses) (use flow_peersD(3) [OF assms(1) _ st a] lookup_peers [OF _ a] in blast)+
qed

lemma receiver_step_peer [simp]:
  "peer (fst (receiver_step mx tmo oldest now ev k s)) j = peer s j"
  by (rule receiver_step_cases [of mx tmo oldest now ev k s]) (auto simp: peer_def)

lemma receiver_step_dest:
  "receivers (fst (receiver_step mx tmo oldest now ev k s)) j = Some r' \<Longrightarrow>
     \<exists>r. receivers s j = Some r \<and> r_dest r' = r_dest r"
  by (rule receiver_step_cases [of mx tmo oldest now ev k s]) (auto split: if_splits)

lemma receiver_step_peers:
  "flow_peers s \<Longrightarrow> flow_peers (fst (receiver_step mx tmo oldest now ev k s))"
  unfolding flow_peers_def
  by (simp add: receiver_step_packets) (metis receiver_step_refs receiver_step_dest)

lemma udp_datagram_peer [simp]: "peer (udp_datagram cfg permit source d s) k = peer s k"
  by (simp add: peer_def)

lemma udp_datagram_init:
  "packets (udp_datagram cfg permit source d s) i = Some p \<Longrightarrow> t_stage p = Init k addresses start \<Longrightarrow>
     packets s i = Some p"
  by (rule udp_datagram_cases [of cfg permit source d s]) (auto split: if_splits)

lemma udp_datagram_peers: "flow_peers s \<Longrightarrow> flow_peers (udp_datagram cfg permit source d s)"
  unfolding flow_peers_def
  by simp (metis udp_datagram_refs udp_datagram_init)

lemma udp_step_peers:
  assumes "udp_step cfg mx hz s s'" "flow_peers s" "slot_cells s" "slot_places s"
  shows "flow_peers s'"
  using assms(1)
proof cases
  case (udp_control h r)
  have "peer s' = peer s" "receivers s' = receivers s" "packets s' = packets s"
    unfolding udp_control(1) by (simp_all add: peer_def fun_eq_iff)
  moreover have "refs s k a t" if "refs s' k a t" for k a t
    using that udp_control(3) control_refs unfolding udp_control(1) by blast
  ultimately show ?thesis
    using assms(2) unfolding flow_peers_def by metis
qed (use assms packet_step_peers receiver_step_peers udp_datagram_peers in simp_all)

text \<open>It is kept together with what it rests on, whatever the clock does.\<close>

definition peers_inv :: "relay \<Rightarrow> bool" where
  "peers_inv s \<longleftrightarrow> slot_places s \<and> slot_cells s \<and> task_ids s \<and> flow_peers s"

lemma udp_step_peers_inv:
  assumes "udp_step cfg mx hz s s'" "peers_inv s"
  shows "peers_inv s'"
proof -
  have i: "slot_places s" "slot_cells s" "task_ids s" "flow_peers s"
    using assms(2) by (simp_all add: peers_inv_def)
  have "slot_cells s'"
    using assms(1)
  proof cases
    case (udp_control h r)
    then show ?thesis
      using i(2) by (simp add: slot_cells_def stage_ok_def cong: stage.case_cong)
  qed (use i in \<open>simp_all add: udp_datagram_slot_cells packet_step_slot_cells receiver_step_slot_cells\<close>)
  then show ?thesis
    using udp_step_places [OF assms(1) i(1)] udp_step_task_ids [OF assms(1) i(3)] udp_step_peers [OF assms(1) i(4,2,1)]
    by (simp add: peers_inv_def)
qed

lemma peers_start_inv: "udp_start s \<Longrightarrow> peers_inv s"
  using relay_start_inv [of s 0] by (simp add: relay_inv_def peers_inv_def flow_peers_def peer_def udp_start_def)

interpretation relay_peers: invariant_system udp_start "udp_step cfg mx hz" peers_inv for cfg mx hz
  by unfold_locales (use peers_start_inv udp_step_peers_inv in blast)+

section \<open>No payload goes astray\<close>

text \<open>
  What \<open>flow.socket.send\<close> is called with: the payload, and the address the socket is
  connected to.
\<close>

definition sends :: "relay \<Rightarrow> nat \<Rightarrow> (u8 list \<times> socket_addr) option" where
  "sends s i =
     (case packets s i of
        None \<Rightarrow> None
      | Some t \<Rightarrow>
          (case t_stage t of
             Sending k \<Rightarrow>
               (case cells s k of
                  Some (Some f) \<Rightarrow> Some (t_payload t, f_peer f)
                | _ \<Rightarrow> None)
           | _ \<Rightarrow> None))"

lemma sends_Some:
  "sends s i = Some (payload, b) \<longleftrightarrow>
     (\<exists>t k. packets s i = Some t \<and> t_stage t = Sending k \<and> peer s k = Some b \<and> payload = t_payload t)"
  by (auto simp: sends_def peer_Some split: option.splits stage.splits)

text \<open>C4: No payload goes astray. In every reachable state of the relay, however the tasks of any
  number of clients interleave, what a packet task sends is its own payload, to an address
  for its own target: on the target's port, and at the target's address if it has one. The
  flow it sends on serves the same association and the same target alone: its receiver
  answers to that association, with the address the payload was sent to, and no map and no
  other task uses it for anything else.\<close>

theorem payloads_reach_target:
  assumes "udp_start s0" and "(udp_step cfg mx hz)\<^sup>*\<^sup>* s0 s"
    and "packets s i = Some t" and "t_stage t = Sending k" and "sends s i = Some (payload, b)"
  shows "payload = t_payload t \<and> peer_for (t_target t) b \<and>
    (\<forall>r. receivers s k = Some r \<longrightarrow> r_assoc r = t_assoc t \<and> r_target r = t_target t \<and> r_dest r = b) \<and>
    (\<forall>a target. flows (assocs s a) target = Some k \<longrightarrow> a = t_assoc t \<and> target = t_target t) \<and>
    (\<forall>j u. packets s j = Some u \<longrightarrow> held_slot (t_stage u) = Some k \<longrightarrow>
       t_assoc u = t_assoc t \<and> t_target u = t_target t)"
proof -
  have inv: "slot_places s" "flow_peers s"
    using relay_peers.reachable_inv [OF assms(1,2)] by (simp_all add: peers_inv_def)
  have p: "peer s k = Some b" "payload = t_payload t"
    using assms(3-5) by (auto simp: sends_Some)
  note mine = stage_refs(4) [OF assms(3,4)]
  note same = slot_places_same [OF inv(1) _ mine]
  show ?thesis
    using p flow_peersD(1) [OF inv(2) p(1) mine] flow_peersD(2) [OF inv(2), of k] same [OF refs.by_receiver]
      same [OF refs.by_map] same [OF refs.by_task]
    by auto
qed

theorem payloads_reach_target_witness:
  "sends (demo_run 5) 0 = Some ([1], SockV4 0x08080808 53) \<and> peer_for demo_target (SockV4 0x08080808 53)"
proof -
  have p: "packets (demo_run 5) 0 = Some (demo_task 1 (Sending 0))"
    and s: "sends (demo_run 5) 0 = Some ([1], SockV4 0x08080808 53)"
    by (simp_all add: demo_run_eq sends_def demo_defs demo_flow_def)
  have "(udp_step cfg_default 1000 10)\<^sup>*\<^sup>* demo_relay (demo_run 5)"
    using demo_sequence_steps [of 7] by (simp add: demo_sequence_def numeral_eq_Suc)
  from payloads_reach_target [OF demo_relay_start this p _ s] s show ?thesis
    by (simp add: demo_task_def)
qed

end
