(* ===== verification/Udp_Sending.thy ===== *)
theory Udp_Sending
  imports Udp_Peers
begin

text \<open>
  What becomes of a datagram that was admitted: the way of its task from the start to
  \<open>flow.socket.send\<close>, through each of the flows it can meet, and how many steps it takes.
  The lemmas \<open>sends_from_...\<close> follow the stages backwards from the send.
\<close>

section \<open>From each stage to the send\<close>

definition sends_within ::
  "nat \<Rightarrow> packet_input \<Rightarrow> nat \<Rightarrow> u8 list \<Rightarrow> (socket_addr \<Rightarrow> bool) \<Rightarrow> relay \<Rightarrow> bool" where
  "sends_within n inp i payload P s \<longleftrightarrow>
     (\<exists>m \<le> n. \<exists>b. sends ((packet_step inp i ^^ m) s) i = Some (payload, b) \<and> P b)"

lemma sends_within_now:
  "sends s i = Some (payload, b) \<Longrightarrow> P b \<Longrightarrow> sends_within n inp i payload P s"
  by (auto simp: sends_within_def intro: exI [of _ 0])

lemma sends_within_step:
  "sends_within n inp i payload P (packet_step inp i s) \<Longrightarrow> sends_within (Suc n) inp i payload P s"
  unfolding sends_within_def by (metis Suc_le_mono funpow_Suc_right o_apply)

lemma sends_within_le:
  "sends_within n inp i payload P s \<Longrightarrow> n \<le> m \<Longrightarrow> sends_within m inp i payload P s"
  unfolding sends_within_def using order_trans by blast

text \<open>What \<open>get_or_init\<close> and the checks after it need.\<close>

lemma sends_from_Have:
  assumes "packets s i = Some t" "t_stage t = Have k" "cells s k = Some (Some f)"
    and "f_active f" "\<not> f_poisoned f" "alive (assocs s (t_assoc t))" "P (f_peer f)"
  shows "sends_within 1 inp i (t_payload t) P s"
  using packet_step_Have [OF assms(1-3), of inp] assms(4-7)
  by (intro sends_within_step [of 0, folded One_nat_def] sends_within_now [of _ _ _ "f_peer f"])
    (auto simp: sends_def)

text \<open>The offsets reach every index, so one usable address is enough.\<close>

lemma cyclic_covers:
  assumes "j < (n :: nat)"
  obtains off where "off < n" "(start + off) mod n = j"
proof
  have "(start + (n - start mod n + j) mod n) mod n = (start mod n + (n - start mod n + j)) mod n"
    by (simp add: mod_simps)
  also have "\<dots> = (n + j) mod n"
    using assms mod_less_divisor [of n start] by (simp add: add.assoc [symmetric] del: mod_less_divisor)
  finally show "(start + (n - start mod n + j) mod n) mod n = j"
    using assms by simp
qed (use assms in simp)

lemma select_address_usable:
  assumes "\<exists>a \<in> set addresses. usable a"
  obtains index where "select_address usable addresses start = Some index" "index < length addresses"
    "usable (addresses ! index)"
proof -
  obtain j where j: "j < length addresses" "usable (addresses ! j)"
    using assms by (auto simp: in_set_conv_nth)
  obtain off where "off < length addresses" "(start + off) mod length addresses = j"
    using cyclic_covers [OF j(1)] by blast
  then have "j \<in> set (map (\<lambda>offset. (start + offset) mod length addresses) [0..<length addresses])"
    unfolding set_map set_upt by (intro image_eqI [of _ _ off]) simp_all
  then have "select_address usable addresses start \<noteq> None"
    unfolding select_address_def find_None_iff using j(2) by blast
  then obtain index where "select_address usable addresses start = Some index" by blast
  moreover from this have "usable (addresses ! index)"
    unfolding select_address_def find_Some_iff by blast
  ultimately show thesis
    using that select_address_less by blast
qed

lemma sends_from_Init:
  assumes "packets s i = Some t" "t_stage t = Init k addresses start"
    and "\<exists>a \<in> set addresses. in_usable inp a" "alive (assocs s (t_assoc t))"
  shows "sends_within 2 inp i (t_payload t) (\<lambda>b. b \<in> set addresses \<and> in_usable inp b) s"
proof -
  obtain index where sel: "select_address (in_usable inp) addresses start = Some index"
    and index: "index < length addresses" "in_usable inp (addresses ! index)"
    using select_address_usable [OF assms(3)] by blast
  let ?s = "packet_step inp i s"
  have "?s = end_init inp i t k addresses start s"
    by (simp add: packet_step_def assms(1,2))
  then have "packets ?s i = Some (t\<lparr>t_stage := Have k\<rparr>)" "alive (assocs ?s (t_assoc t))"
    and "\<exists>f. cells ?s k = Some (Some f) \<and> f_active f \<and> \<not> f_poisoned f \<and> f_peer f = addresses ! index"
    using assms(4) by (simp_all add: end_init_def sel Let_def)
  then have "sends_within 1 inp i (t_payload t) (\<lambda>b. b \<in> set addresses \<and> in_usable inp b) ?s"
    using sends_from_Have [of ?s i "t\<lparr>t_stage := Have k\<rparr>" k] index by fastforce
  then show ?thesis
    using sends_within_step [of 1] by (simp add: numeral_2_eq_2)
qed

lemma sends_from_Got:
  assumes "packets s i = Some t" "t_stage t = Got k" "cells s k = None" "\<not> initialising s k"
    and "dns_lookup (\<lambda>_. in_answer inp) (t_target t) = Inr addresses"
    and "\<exists>a \<in> set addresses. in_usable inp a" "alive (assocs s (t_assoc t))"
  shows "sends_within 3 inp i (t_payload t) (\<lambda>b. b \<in> set addresses \<and> in_usable inp b) s"
proof -
  obtain start where "packet_step inp i s = set_stage i t (Init k addresses start) s"
    using packet_step_Got [OF assms(1,2), of inp] assms(3-5) by simp
  then have "sends_within 2 inp i (t_payload t) (\<lambda>b. b \<in> set addresses \<and> in_usable inp b) (packet_step inp i s)"
    using sends_from_Init [of "packet_step inp i s" i "t\<lparr>t_stage := Init k addresses start\<rparr>" k addresses start inp]
      assms(6,7) by simp
  then show ?thesis
    using sends_within_step [of 2] by (simp add: eval_nat_numeral)
qed


lemma next_slot_not_initialising: "slot_places s \<Longrightarrow> \<not> initialising s (next_slot s)"
  using slot_places_less [OF _ stage_refs(2)] by (fastforce simp: initialising_def ran_def)

lemma sends_from_Choose_new:
  assumes "packets s i = Some t" "t_stage t = Choose" "slot_places s"
    and "flows (assocs s (t_assoc t)) (t_target t) = None" "in_permit inp"
    and "card (dom (flows (assocs s (t_assoc t)))) < MAX_FLOWS_PER_ASSOCIATION"
    and "dns_lookup (\<lambda>_. in_answer inp) (t_target t) = Inr addresses"
    and "\<exists>a \<in> set addresses. in_usable inp a" "alive (assocs s (t_assoc t))"
  shows "sends_within 4 inp i (t_payload t) (\<lambda>b. b \<in> set addresses \<and> in_usable inp b) s"
proof -
  let ?s = "packet_step inp i s"
  have step: "?s = set_stage i t (Got (next_slot s))
      ((upd_assoc (t_assoc t) (\<lambda>x. x\<lparr>flows := (flows x)(t_target t \<mapsto> next_slot s)\<rparr>) s)
         \<lparr>cells := (cells s)(next_slot s := None), next_slot := Suc (next_slot s)\<rparr>)"
    using packet_step_Choose [OF assms(1,2), of inp] assms(4-6) by simp
  have "\<not> initialising ?s (next_slot s)"
    using next_slot_not_initialising [OF assms(3)]
    by (auto simp: step initialising_def ran_def)
  then have "sends_within 3 inp i (t_payload t) (\<lambda>b. b \<in> set addresses \<and> in_usable inp b) ?s"
    using sends_from_Got [of ?s i "t\<lparr>t_stage := Got (next_slot s)\<rparr>" "next_slot s" inp addresses] assms(7-9)
    by (simp add: step)
  then show ?thesis
    using sends_within_step [of 3] by (simp add: eval_nat_numeral)
qed


text \<open>The flow a target has, if it is still in use.\<close>

definition open_flow :: "relay \<Rightarrow> nat \<Rightarrow> target \<Rightarrow> flow option" where
  "open_flow s a target =
     (case flows (assocs s a) target of
        None \<Rightarrow> None
      | Some k \<Rightarrow>
          (case cells s k of
             Some (Some f) \<Rightarrow> if f_active f then Some f else None
           | _ \<Rightarrow> None))"

lemma sends_from_Got_open:
  assumes "packets s i = Some t" "t_stage t = Got k" "cells s k = Some (Some f)"
    and "f_active f" "\<not> f_poisoned f" "alive (assocs s (t_assoc t))"
  shows "sends_within 2 inp i (t_payload t) (\<lambda>b. b = f_peer f) s"
proof -
  let ?s = "packet_step inp i s"
  have "?s = set_stage i t (Have k) s"
    using packet_step_Got [OF assms(1,2), of inp] assms(3) by simp
  then have "sends_within 1 inp i (t_payload t) (\<lambda>b. b = f_peer f) ?s"
    using sends_from_Have [of ?s i "t\<lparr>t_stage := Have k\<rparr>" k f "\<lambda>b. b = f_peer f" inp] assms(3-6)
    by simp
  then show ?thesis
    using sends_within_step [of 1] by (simp add: numeral_2_eq_2)
qed

lemma sends_from_Got_stale:
  assumes "packets s i = Some t" "t_stage t = Got k" "slot_places s" "t_stale t < 2"
    and "flows (assocs s (t_assoc t)) (t_target t) = Some k" "in_permit inp"
    and "finite (dom (flows (assocs s (t_assoc t))))"
    and "card (dom (flows (assocs s (t_assoc t)))) \<le> MAX_FLOWS_PER_ASSOCIATION"
    and "cells s k = Some (Some f)" "\<not> f_active f"
    and "dns_lookup (\<lambda>_. in_answer inp) (t_target t) = Inr addresses"
    and "\<exists>a \<in> set addresses. in_usable inp a" "alive (assocs s (t_assoc t))"
  shows "sends_within 6 inp i (t_payload t) (\<lambda>b. b \<in> set addresses \<and> in_usable inp b) s"
proof -
  let ?s1 = "packet_step inp i s" and ?t = "t\<lparr>t_stale := t_stale t + 1, t_stage := Choose\<rparr>"
  let ?s2 = "packet_step inp i ?s1"
  have s1: "?s1 = set_stage i t (Have k) s"
    using packet_step_Got [OF assms(1,2), of inp] assms(9) by simp
  have s2: "?s2 = set_stage i (t\<lparr>t_stale := t_stale t + 1\<rparr>) Choose
      (upd_assoc (t_assoc t) (remove_flow_slot (t_target t) k) ?s1)"
    using packet_step_Have [of ?s1 i "t\<lparr>t_stage := Have k\<rparr>" k f inp] assms(4,9,10)
    by (simp add: s1)
  have fl: "flows (assocs ?s2 (t_assoc t)) = (flows (assocs s (t_assoc t)))(t_target t := None)"
    and more: "packets ?s2 i = Some ?t" "alive (assocs ?s2 (t_assoc t))"
    using assms(5,13) by (simp_all add: s2) (simp_all add: s1)
  have "card (dom (flows (assocs ?s2 (t_assoc t)))) < MAX_FLOWS_PER_ASSOCIATION"
    using assms(5,7,8) card_Diff1_less [of "dom (flows (assocs s (t_assoc t)))" "t_target t"]
    by (simp add: fl domI)
  then have "sends_within 4 inp i (t_payload t) (\<lambda>b. b \<in> set addresses \<and> in_usable inp b) ?s2"
    using sends_from_Choose_new [OF more(1), of inp addresses] packet_step_places assms(3,6,11,12) more(2)
    by (simp add: fl)
  then show ?thesis
    using sends_within_step [of 5] sends_within_step [of 4] by (simp add: eval_nat_numeral)
qed

section \<open>From the top of the loop\<close>

lemma initialising_set_stage:
  assumes "packets s i = Some t" "init_slot (t_stage t) = None" "init_slot g = None"
  shows "initialising (set_stage i t g s) k = initialising s k"
proof -
  have "(\<exists>q. packets (set_stage i t g s) j = Some q \<and> init_slot (t_stage q) = Some k) \<longleftrightarrow>
      (\<exists>q. packets s j = Some q \<and> init_slot (t_stage q) = Some k)" for j
    using assms by simp
  then show ?thesis
    by (simp add: initialising_iff)
qed

lemma sends_from_Got_mapped:
  assumes t: "packets s i = Some t" "t_stage t = Got k" and inv: "slot_places s" "clock_ok hz s"
    and "t_stale t < 2" and "alive (assocs s (t_assoc t))"
    and fl: "flows (assocs s (t_assoc t)) (t_target t) = Some k" "finite (dom (flows (assocs s (t_assoc t))))"
      "card (dom (flows (assocs s (t_assoc t)))) \<le> MAX_FLOWS_PER_ASSOCIATION"
    and slot: "cells s k \<noteq> Some None" "\<not> initialising s k"
    and net: "in_permit inp" "dns_lookup (\<lambda>_. in_answer inp) (t_target t) = Inr addresses"
      "\<exists>a \<in> set addresses. in_usable inp a"
  shows "sends_within 6 inp i (t_payload t)
    (\<lambda>b. case open_flow s (t_assoc t) (t_target t) of
            Some f \<Rightarrow> b = f_peer f
          | None \<Rightarrow> b \<in> set addresses \<and> in_usable inp b) s"
proof -
  consider "cells s k = None" | f where "cells s k = Some (Some f)" "f_active f"
    | f where "cells s k = Some (Some f)" "\<not> f_active f"
    using slot(1) by (metis not_None_eq)
  then show ?thesis
  proof cases
    case 1
    then show ?thesis
      using sends_within_le [OF sends_from_Got [OF t 1 slot(2) net(2,3) assms(6)], of 6] fl(1)
      by (simp add: open_flow_def)
  next
    case (2 f)
    then have "\<not> f_poisoned f"
      using inv(2) by (simp add: clock_ok_def)
    then show ?thesis
      using sends_within_le [OF sends_from_Got_open [OF t 2 _ assms(6)], of 6] fl(1) 2
      by (simp add: open_flow_def)
  next
    case (3 f)
    then show ?thesis
      using sends_from_Got_stale [OF t inv(1) assms(5) fl(1) net(1) fl(2,3) 3 net(2,3) assms(6)] fl(1)
      by (simp add: open_flow_def)
  qed
qed

lemma sends_from_Choose:
  assumes t: "packets s i = Some t" "t_stage t = Choose" and inv: "slot_places s" "clock_ok hz s"
    and "t_stale t < 2" and "alive (assocs s (t_assoc t))"
    and fin: "finite (dom (flows (assocs s (t_assoc t))))"
      "card (dom (flows (assocs s (t_assoc t)))) \<le> MAX_FLOWS_PER_ASSOCIATION"
    and room: "flows (assocs s (t_assoc t)) (t_target t) = None \<Longrightarrow>
      card (dom (flows (assocs s (t_assoc t)))) < MAX_FLOWS_PER_ASSOCIATION"
    and slot: "\<And>k. flows (assocs s (t_assoc t)) (t_target t) = Some k \<Longrightarrow>
      cells s k \<noteq> Some None \<and> \<not> initialising s k"
    and net: "in_permit inp" "dns_lookup (\<lambda>_. in_answer inp) (t_target t) = Inr addresses"
      "\<exists>a \<in> set addresses. in_usable inp a"
  shows "sends_within 7 inp i (t_payload t)
    (\<lambda>b. case open_flow s (t_assoc t) (t_target t) of
            Some f \<Rightarrow> b = f_peer f
          | None \<Rightarrow> b \<in> set addresses \<and> in_usable inp b) s"
proof (cases "flows (assocs s (t_assoc t)) (t_target t)")
  case None
  then show ?thesis
    using sends_within_le [OF sends_from_Choose_new [OF t inv(1) None net(1) room net(2,3) assms(6)], of 7]
    by (simp add: open_flow_def)
next
  case (Some k)
  let ?s = "packet_step inp i s" and ?t = "t\<lparr>t_stage := Got k\<rparr>"
  have step: "?s = set_stage i t (Got k) s"
    using packet_step_Choose [OF t, of inp] Some by simp
  have "clock_ok hz ?s" "slot_places ?s" "cells ?s k \<noteq> Some None" "\<not> initialising ?s k"
    "open_flow ?s a target = open_flow s a target" for a target
    using inv(2) packet_step_places [OF inv(1), of inp i] slot [OF Some] initialising_set_stage [OF t(1), of "Got k" k] t(2)
    by (simp_all add: step clock_ok_def open_flow_def cong: option.case_cong)
  then show ?thesis
    using sends_within_step [of 6] sends_from_Got_mapped [of ?s i ?t k hz inp addresses] assms(5,6) Some fin net
    by (simp add: step eval_nat_numeral)
qed

section \<open>Datagrams are sent\<close>

text \<open>A task that has not begun has not tried anything.\<close>

definition fresh_tasks :: "relay \<Rightarrow> bool" where
  "fresh_tasks s \<longleftrightarrow> (\<forall>i t. packets s i = Some t \<longrightarrow> t_stage t = Begin \<longrightarrow> t_stale t = 0)"

lemma packet_step_begin: "packets (packet_step inp i s) j = Some t \<Longrightarrow> t_stage t = Begin \<Longrightarrow> packets s j = Some t"
  by (rule packet_step_cases [of inp i s]) (auto split: if_splits)

lemma udp_step_fresh:
  assumes "udp_step cfg mx hz s s'" "fresh_tasks s"
  shows "fresh_tasks s'"
  using assms(1)
proof cases
  case (udp_receive permit source d)
  then show ?thesis
    by (rule_tac udp_datagram_cases [of cfg permit source d s])
      (use assms(2) in \<open>auto simp: fresh_tasks_def\<close>)
next
  case (udp_packet inp i)
  then show ?thesis
    using assms(2) packet_step_begin unfolding fresh_tasks_def by blast
qed (use assms(2) in \<open>simp_all add: fresh_tasks_def\<close>)

interpretation relay_fresh: invariant_system udp_start "udp_step cfg mx hz" fresh_tasks for cfg mx hz
  by unfold_locales (use udp_step_fresh in \<open>auto simp: fresh_tasks_def udp_start_def\<close>)

lemma begin_sends:
  assumes "udp_start s0" and "(udp_step cfg mx hz)\<^sup>*\<^sup>* s0 s" and "hz + unat (cfg_udp_timeout cfg) \<le> mx"
    and "packets s i = Some t" and "t_stage t = Begin" and "alive (assocs s (t_assoc t))"
    and "flows (assocs s (t_assoc t)) (t_target t) = None \<Longrightarrow>
      card (dom (flows (assocs s (t_assoc t)))) < MAX_FLOWS_PER_ASSOCIATION"
    and "\<And>k. flows (assocs s (t_assoc t)) (t_target t) = Some k \<Longrightarrow>
      cells s k \<noteq> Some None \<and> \<not> initialising s k"
    and "in_permit inp" and "dns_lookup (\<lambda>_. in_answer inp) (t_target t) = Inr addresses"
    and "\<exists>a \<in> set addresses. in_usable inp a"
  shows "\<exists>n \<le> 8. \<exists>b. sends ((packet_step inp i ^^ n) s) i = Some (t_payload t, b) \<and>
    (case open_flow s (t_assoc t) (t_target t) of
       Some f \<Rightarrow> b = f_peer f
     | None \<Rightarrow> b \<in> set addresses \<and> in_usable inp b)"
proof -
  let ?s = "packet_step inp i s" and ?t = "t\<lparr>t_stage := Choose\<rparr>"
  have inv: "slot_places s" "clock_ok hz s"
    using relay_system.reachable_inv [of s0 hz cfg mx s] assms(1-3) by (auto simp: relay_inv_def)
  have stale: "t_stale t = 0"
    using relay_fresh.reachable_inv [OF assms(1,2)] assms(4,5) by (simp add: fresh_tasks_def)
  have step: "?s = set_stage i t Choose s"
    using packet_step_Begin [OF assms(4,5)] assms(6) by simp
  have "initialising ?s k = initialising s k" for k
    using initialising_set_stage [of s i t Choose k] assms(4,5) by (simp add: step)
  moreover have "open_flow ?s a target = open_flow s a target" for a target
    by (simp add: step open_flow_def cong: option.case_cong)
  moreover have "slot_places ?s" "clock_ok hz ?s"
    using packet_step_places [OF inv(1), of inp i] inv(2) by (simp, simp add: step clock_ok_def)
  ultimately have "sends_within 7 inp i (t_payload t)
    (\<lambda>b. case open_flow s (t_assoc t) (t_target t) of
            Some f \<Rightarrow> b = f_peer f | None \<Rightarrow> b \<in> set addresses \<and> in_usable inp b) ?s"
    using sends_from_Choose [of ?s i ?t hz inp addresses] flow_entries.steps_bounded [OF assms(1,2)] stale assms(6-11)
    by (simp add: step)
  then show ?thesis
    using sends_within_step [of 7] by (simp add: sends_within_def)
qed

text \<open>Either way the payload goes to an address for the target.\<close>

lemma sent_to_peer:
  assumes "flow_peers s" "dns_lookup lookup_ip target = Inr addresses"
    and "case open_flow s a target of Some f \<Rightarrow> b = f_peer f | None \<Rightarrow> b \<in> set addresses \<and> usable b"
  shows "peer_for target b"
proof (cases "open_flow s a target")
  case None
  then show ?thesis
    using assms(3) lookup_peers [OF assms(2)] by simp
next
  case (Some f)
  then obtain k where "flows (assocs s a) target = Some k" "peer s k = Some (f_peer f)"
    by (auto simp: open_flow_def peer_Some split: option.splits if_splits)
  then show ?thesis
    using flow_peersD(1) [OF assms(1) _ refs.by_map] assms(3) Some by simp
qed

text \<open>A datagram that arrives opens no slot.\<close>

lemma udp_datagram_initialising:
  assumes "task_ids s"
  shows "initialising (udp_datagram cfg permit source d s) k = initialising s k"
proof -
  have "packets s (next_packet s) = None"
    using assms by (simp add: task_ids_def)
  then show ?thesis
    using udp_datagram_packets [of cfg permit source d s] by (fastforce simp: initialising_def)
qed

text \<open>C18: Datagrams are sent. In every reachable state of the relay, a packet task that is about to begin
  for a live association sends its payload within eight steps of its own, if no other task
  comes in between: on the flow its target has if that is in use, and otherwise, also when the
  flow it has was stopped, on a new one to a usable address of the resolver's answer. The
  association has to have room for the flow, and no other task may be opening it.\<close>

theorem datagrams_are_sent:
  assumes "udp_start s0" and "(udp_step cfg mx hz)\<^sup>*\<^sup>* s0 s" and "hz + unat (cfg_udp_timeout cfg) \<le> mx"
    and "packets s i = Some t" and "t_stage t = Begin" and "alive (assocs s (t_assoc t))"
    and "flows (assocs s (t_assoc t)) (t_target t) = None \<Longrightarrow>
      card (dom (flows (assocs s (t_assoc t)))) < MAX_FLOWS_PER_ASSOCIATION"
    and "\<And>k. flows (assocs s (t_assoc t)) (t_target t) = Some k \<Longrightarrow>
      cells s k \<noteq> Some None \<and> \<not> initialising s k"
    and "in_permit inp" and "dns_lookup (\<lambda>_. in_answer inp) (t_target t) = Inr addresses"
    and "\<exists>a \<in> set addresses. in_usable inp a"
  shows "\<exists>n \<le> 8. \<exists>b. sends ((packet_step inp i ^^ n) s) i = Some (t_payload t, b) \<and>
    (case open_flow s (t_assoc t) (t_target t) of
       Some f \<Rightarrow> b = f_peer f
     | None \<Rightarrow> b \<in> set addresses \<and> in_usable inp b)"
  using assms by (rule begin_sends)

theorem datagrams_are_sent_witness:
  "\<exists>n \<le> 8. \<exists>b. sends ((packet_step demo_input 0 ^^ n) demo_received) 0 = Some ([1], b) \<and> b = SockV4 0x08080808 53"
proof -
  have p: "packets demo_received 0 = Some (demo_task 0 Begin)"
    and no: "flows (assocs demo_received 0) = Map.empty" "alive (assocs demo_received 0)"
    by (simp_all add: demo_received_eq demo_registered_def demo_relay_def demo_task_def demo_target_def
        demo_association_def demo_state_def)
  have "(udp_step cfg_default 1000 10)\<^sup>*\<^sup>* demo_relay demo_received"
    using demo_sequence_steps [of 2] by (simp add: demo_sequence_def demo_run_def numeral_eq_Suc)
  moreover have "dns_lookup (\<lambda>_. in_answer demo_input) demo_target = Inr [SockV4 0x08080808 53]"
    and "in_permit demo_input" "in_usable demo_input a" for a
    by (simp_all add: dns_lookup_def demo_target_def demo_input_def)
  moreover have "10 + unat (cfg_udp_timeout cfg_default) \<le> 1000"
    by (simp add: cfg_default_def)
  ultimately show ?thesis
    using datagrams_are_sent [OF demo_relay_start _ _ p, of cfg_default 1000 10 demo_input "[SockV4 0x08080808 53]"]
    by (simp add: demo_task_def no open_flow_def MAX_FLOWS_PER_ASSOCIATION_def)
qed

end
