(* ===== verification/Client.thy ===== *)
theory Client
  imports Server_Handshake Happy_Eyeballs
begin

text \<open>
  The client library, \<open>src/client.rs\<close>: \<open>Client\<close> with its construction, its half of the
  negotiation, \<open>connect\<close> and \<open>associate\<close>, and \<open>UdpAssociation\<close> with \<open>send\<close> and \<open>recv\<close>.

  The operating system's sockets are parameters: what connecting, binding and the resolver
  return, and how many bytes of a datagram a send takes. The last section puts the client's
  negotiation and the server's next to each other.
\<close>

section \<open>Connecting to the proxy\<close>

text \<open>
  \<open>connector_runtime\<close>: the runtime is built on the first use, and what came of it is kept for
  the life of the process: \<open>cell\<close> is the \<open>OnceLock\<close>, empty or with the outcome.
\<close>

definition connector_runtime ::
  "io_error + unit \<Rightarrow> bool option \<Rightarrow> (io_error + unit) \<times> bool option" where
  "connector_runtime built cell =
     (let kept = (case cell of
                    Some ok \<Rightarrow> ok
                  | None \<Rightarrow> (case built of Inl _ \<Rightarrow> False | Inr _ \<Rightarrow> True))
      in (if kept then Inr () else Inl (IoError OtherKind RuntimeText), Some kept))"

text \<open>
  \<open>connect_proxy\<close>. A server given as a socket address is connected to directly. Otherwise a
  task on the shared runtime resolves the name and races the addresses, all under the
  timeout: \<open>in_time\<close> says whether it made it. What the caller sees of the task is a message,
  a timeout, or a dropped channel.
\<close>

datatype 'a received = Received "io_error + 'a" | Recv_timeout | Disconnected

definition proxy_task ::
  "(string \<Rightarrow> io_error + socket_addr list) \<Rightarrow> (socket_addr \<Rightarrow> io_error + conn) \<Rightarrow> event list \<Rightarrow>
     bool \<Rightarrow> string \<Rightarrow> io_error + conn" where
  "proxy_task lookup_host into_std evs in_time server =
     (if \<not> in_time then Inl (IoError TimedOut (Message ProxyConnectTimeout))
      else
        (case lookup_host server of
           Inl e \<Rightarrow> Inl e
         | Inr addresses \<Rightarrow>
             (case happy_eyeballs_connect addresses evs of
                Inl e \<Rightarrow> Inl e
              | Inr a \<Rightarrow> into_std a)))"

definition connect_proxy ::
  "(socket_addr \<Rightarrow> io_error + conn) \<Rightarrow> io_error + unit \<Rightarrow> conn received \<Rightarrow> string \<Rightarrow>
     io_error + conn" where
  "connect_proxy tcp_connect runtime task server =
     (case parse_sock server of
        Some address \<Rightarrow> tcp_connect address
      | None \<Rightarrow>
          (case runtime of
             Inl e \<Rightarrow> Inl e
           | Inr _ \<Rightarrow>
               (case task of
                  Received (Inl e) \<Rightarrow> Inl e
                | Received (Inr stream) \<Rightarrow>
                    (case set_option stream of
                       (Raise e, _) \<Rightarrow> Inl e
                     | (_, stream) \<Rightarrow> Inr stream)
                | Recv_timeout \<Rightarrow> Inl (IoError TimedOut (Message ProxyConnectTimeout))
                | Disconnected \<Rightarrow> Inl (IoError OtherKind (Message ProxyTaskGone)))))"

section \<open>The client\<close>

text \<open>Timeouts are in seconds.\<close>

record client =
  cl_server :: string
  cl_username :: string
  cl_password :: string
  cl_tcp_timeout :: "u64 option"
  cl_udp_timeout :: "u64 option"

definition client_new :: "string \<Rightarrow> string \<Rightarrow> string \<Rightarrow> io_error + client" where
  "client_new server username password =
     (if (username = []) \<noteq> (password = []) \<or> length username > 255 \<or> length password > 255
      then Inl (IoError InvalidInput (Message ClientCredentialPair))
      else Inr \<lparr>cl_server = server, cl_username = username, cl_password = password,
                cl_tcp_timeout = None, cl_udp_timeout = Some 60\<rparr>)"

definition set_tcp_timeout :: "u64 option \<Rightarrow> client \<Rightarrow> client" where
  "set_tcp_timeout timeout cl = cl\<lparr>cl_tcp_timeout := timeout\<rparr>"

definition set_udp_timeout :: "u64 option \<Rightarrow> client \<Rightarrow> client" where
  "set_udp_timeout timeout cl = cl\<lparr>cl_udp_timeout := timeout\<rparr>"

text \<open>\<open>Client::negotiate\<close> on the stream that \<open>connect_proxy\<close> returned.\<close>

definition client_negotiate :: "client \<Rightarrow> unit io" where
  "client_negotiate cl =
     io_bind set_option (\<lambda>_. io_bind set_option (\<lambda>_. io_bind set_option (\<lambda>_.
     let method = (if cl_username cl = [] then 0 else 2) in
     io_bind (write_all [5, 1, method]) (\<lambda>_.
     io_bind (read_exact 2) (\<lambda>reply.
     if reply \<noteq> [5, method]
     then io_raise (IoError PermissionDenied (Message MethodNotAccepted))
     else if method = 2
     then (let request = [1, word_of_nat (length (cl_username cl))] @ as_bytes (cl_username cl)
               @ [word_of_nat (length (cl_password cl))] @ as_bytes (cl_password cl) in
           io_bind (write_all request) (\<lambda>_.
           io_bind (read_exact 2) (\<lambda>reply.
           if reply \<noteq> [1, 0]
           then io_raise (IoError PermissionDenied (Message CredentialsRejected))
           else io_return ())))
     else io_return ())))))"

definition check_status :: "u8 \<Rightarrow> io_error + unit" where
  "check_status status =
     (if status = SUCCESS then Inr ()
      else Inl (IoError OtherKind (Message (RequestFailed status))))"

definition client_connect :: "client \<Rightarrow> target \<Rightarrow> unit io" where
  "client_connect cl t =
     io_bind (client_negotiate cl) (\<lambda>_.
     io_bind (write_request CONNECT t) (\<lambda>_.
     io_bind read_reply (\<lambda>(status, _).
     io_bind (io_lift (check_status status)) (\<lambda>_.
     io_bind set_option (\<lambda>_. set_option)))))"

definition client_unspecified :: "ip_addr \<Rightarrow> socket_addr" where
  "client_unspecified ip =
     (case ip of IpV4 _ \<Rightarrow> sock_new (IpV4 0) 0 | IpV6 _ \<Rightarrow> sock_new (IpV6 0) 0)"

text \<open>
  The UDP socket by what its operations return: binding to an address, its own address,
  connecting, setting options.
\<close>

record udp_socket =
  us_local :: "io_error + socket_addr"
  us_connect :: "socket_addr \<Rightarrow> io_error + unit"
  us_opt :: "io_error + unit"

record udp_association =
  ua_socket :: udp_socket
  ua_target :: target
  ua_relay :: socket_addr

definition relay_ip ::
  "(string \<Rightarrow> u16 \<Rightarrow> io_error + socket_addr list) \<Rightarrow> socket_addr \<Rightarrow> socket_addr \<Rightarrow> target \<Rightarrow>
     io_error + ip_addr" where
  "relay_ip to_socket_addrs peer bind reply =
     (case t_host reply of
        Ip ip \<Rightarrow> if \<not> is_unspecified ip then Inr ip else Inr (sock_ip peer)
      | Domain name \<Rightarrow>
          (case to_socket_addrs name (t_port reply) of
             Inl e \<Rightarrow> Inl e
           | Inr addresses \<Rightarrow>
               (case find (\<lambda>a. is_ipv4 (sock_ip a) = is_ipv4 (sock_ip bind)) addresses of
                  None \<Rightarrow> Inl (IoError NotFound (Message NoRelayFamily))
                | Some a \<Rightarrow> Inr (sock_ip a))))"

definition client_associate ::
  "(string \<Rightarrow> u16 \<Rightarrow> io_error + socket_addr list) \<Rightarrow> (socket_addr \<Rightarrow> io_error + udp_socket) \<Rightarrow>
     client \<Rightarrow> target \<Rightarrow> udp_association io" where
  "client_associate to_socket_addrs udp_bind cl t =
     io_bind (client_negotiate cl) (\<lambda>_.
     io_bind peer_addr (\<lambda>peer.
     io_bind local_addr (\<lambda>local.
     let bind = client_unspecified (sock_ip local) in
     io_bind (io_lift (udp_bind bind)) (\<lambda>socket.
     io_bind (io_lift (us_local socket)) (\<lambda>socket_addr.
     let request = \<lparr>t_host = Ip (sock_ip bind), t_port = sock_port socket_addr\<rparr> in
     io_bind (write_request UDP_ASSOCIATE request) (\<lambda>_.
     io_bind read_reply (\<lambda>(status, reply).
     io_bind (io_lift (check_status status)) (\<lambda>_.
     io_bind (io_lift (relay_ip to_socket_addrs peer bind reply)) (\<lambda>ip.
     let relay = sock_new ip (t_port reply) in
     io_bind (io_lift (us_connect socket relay)) (\<lambda>_.
     io_bind (io_lift (us_opt socket)) (\<lambda>_. io_bind (io_lift (us_opt socket)) (\<lambda>_.
     io_bind set_option (\<lambda>_. io_bind set_option (\<lambda>_.
     io_return \<lparr>ua_socket = socket, ua_target = t, ua_relay = relay\<rparr>))))))))))))))"

text \<open>
  \<open>UdpAssociation::send\<close>: \<open>socket_send\<close> is what the operating system reports of a packet.
  \<open>recv\<close> takes the next packet, cut to the receive buffer, and copies its payload to the
  front of the caller's buffer.
\<close>

definition UDP_BUFFER_SIZE :: nat where "UDP_BUFFER_SIZE = 65535"

definition udp_send ::
  "(u8 list \<Rightarrow> io_error + nat) \<Rightarrow> udp_association \<Rightarrow> u8 list \<Rightarrow> io_error + nat" where
  "udp_send socket_send ua payload =
     (case append_datagram_to [] (ua_target ua) payload of
        (Inl e, _) \<Rightarrow> Inl e
      | (Inr _, packet) \<Rightarrow>
          (case socket_send packet of
             Inl e \<Rightarrow> Inl e
           | Inr n \<Rightarrow>
               if n \<noteq> length packet then Inl (IoError WriteZero (Message DatagramNotSent))
               else Inr (length payload)))"

definition udp_recv ::
  "io_error + u8 list \<Rightarrow> u8 list \<Rightarrow> (io_error + (nat \<times> target)) \<times> u8 list" where
  "udp_recv packet payload =
     (case packet of
        Inl e \<Rightarrow> (Inl e, payload)
      | Inr packet \<Rightarrow>
          (case parse_datagram (take UDP_BUFFER_SIZE packet) of
             Inl e \<Rightarrow> (Inl e, payload)
           | Inr (t, data) \<Rightarrow>
               if length data > length payload
               then (Inl (IoError InvalidInput (Message ReceiveBufferTooSmall)), payload)
               else (Inr (length data, t), data @ drop (length data) payload)))"

definition udp_local_addr :: "udp_association \<Rightarrow> io_error + socket_addr" where
  "udp_local_addr ua = us_local (ua_socket ua)"

definition relay_addr :: "udp_association \<Rightarrow> socket_addr" where
  "relay_addr ua = ua_relay ua"

section \<open>The client's half of the negotiation\<close>

text \<open>What the client sends, in all, and the answer it waits for.\<close>

definition client_method :: "client \<Rightarrow> u8" where
  "client_method cl = (if cl_username cl = [] then 0 else 2)"

definition client_hello :: "client \<Rightarrow> u8 list" where
  "client_hello cl =
     greeting [client_method cl] @
     (if cl_username cl = [] then []
      else credentials (as_bytes (cl_username cl)) (as_bytes (cl_password cl)))"

definition client_expects :: "client \<Rightarrow> u8 list" where
  "client_expects cl = [5, client_method cl] @ (if cl_username cl = [] then [] else [1, 0])"

lemma client_new_Inr:
  "client_new server u p = Inr cl \<longleftrightarrow>
     valid_credentials u p \<and>
     cl = \<lparr>cl_server = server, cl_username = u, cl_password = p,
           cl_tcp_timeout = None, cl_udp_timeout = Some 60\<rparr>"
  by (auto simp: client_new_def valid_credentials_def)

lemma set_option_ok: "c_opt c = Inr u \<Longrightarrow> set_option c = (Return (), c)"
  by (simp add: set_option_eq)

lemma c_opt_simps [simp]: "c_opt (wrote c bs) = c_opt c" "c_opt (c\<lparr>rx := r\<rparr>) = c_opt c"
  "c_local (wrote c bs) = c_local c" "c_peer (wrote c bs) = c_peer c"
  "tx_room c = None \<Longrightarrow> tx_room (wrote c bs) = None"
  by (simp_all add: wrote_def)

lemma write_free: "tx_room c = None \<Longrightarrow> write_all bs c = (Return (), wrote c bs)"
  by (simp add: write_all_room room_def)

lemma wrote_order: "wrote (c\<lparr>rx := r\<rparr>) bs = (wrote c bs)\<lparr>rx := r\<rparr>"
  by simp

lemma read_wrote:
  "rx c = bs @ r \<Longrightarrow> length bs = n \<Longrightarrow>
     read_exact n (wrote c ws) = (Return bs, wrote (c\<lparr>rx := r\<rparr>) ws)"
  by (subst read_exact_append [of _ bs r]) simp_all

text \<open>The first exchange: the method.\<close>

lemma client_negotiate_method:
  assumes "c_opt c = Inr ()" "tx_room c = None" "rx c = reply @ r" "length reply = 2"
  shows "client_negotiate cl c =
    (let c1 = wrote (c\<lparr>rx := r\<rparr>) (greeting [client_method cl]) in
     if reply \<noteq> [5, client_method cl]
     then (Raise (IoError PermissionDenied (Message MethodNotAccepted)), c1)
     else if cl_username cl = [] then (Return (), c1)
     else io_bind (write_all (credentials (as_bytes (cl_username cl)) (as_bytes (cl_password cl))))
       (\<lambda>_. io_bind (read_exact 2) (\<lambda>reply.
        if reply \<noteq> [1, 0] then io_raise (IoError PermissionDenied (Message CredentialsRejected))
        else io_return ())) c1)"
  unfolding client_negotiate_def client_method_def [symmetric]
  using assms
  by (simp add: io_bind_Return set_option_ok write_free read_wrote Let_def io_return_simps
      greeting_def credentials_def)
    (auto simp: client_method_def io_return_simps)

text \<open>The second: the credentials.\<close>

lemma client_negotiate_auth:
  assumes "c_opt c = Inr ()" "tx_room c = None" "cl_username cl \<noteq> []"
    and "rx c = [5, 2] @ reply @ r" "length reply = 2"
  shows "client_negotiate cl c =
    (if reply \<noteq> [1, 0] then Raise (IoError PermissionDenied (Message CredentialsRejected))
     else Return (), wrote (c\<lparr>rx := r\<rparr>) (client_hello cl))"
proof -
  let ?c1 = "wrote (c\<lparr>rx := reply @ r\<rparr>) (greeting [client_method cl])"
  let ?a = "credentials (as_bytes (cl_username cl)) (as_bytes (cl_password cl))"
  have m: "client_method cl = 2"
    using assms(3) by (simp add: client_method_def)
  have w: "write_all ?a ?c1 = (Return (), wrote ?c1 ?a)"
    using assms(2) by (intro write_free) simp
  have r: "read_exact 2 (wrote ?c1 ?a) =
      (Return reply, wrote (c\<lparr>rx := r\<rparr>) (greeting [client_method cl] @ ?a))"
    using assms(5) by (simp add: read_wrote)
  show ?thesis
    using client_negotiate_method [OF assms(1,2), of "[5, 2]" "reply @ r"] assms(3-5) m w r
    by (simp add: Let_def io_bind_Return io_return_simps client_hello_def)
qed

lemma client_negotiate_accepts:
  assumes "c_opt c = Inr ()" "tx_room c = None" "rx c = client_expects cl @ r"
  shows "client_negotiate cl c = (Return (), wrote (c\<lparr>rx := r\<rparr>) (client_hello cl))"
proof (cases "cl_username cl = []")
  case True
  then show ?thesis
    using client_negotiate_method [OF assms(1,2), of "[5, client_method cl]" r cl] assms(3)
    by (simp add: client_expects_def client_hello_def Let_def)
next
  case False
  then show ?thesis
    using client_negotiate_auth [OF assms(1,2) False, of "[1, 0]" r] assms(3)
    by (simp add: client_expects_def client_method_def)
qed

section \<open>Client and server\<close>

definition same_credentials :: "client \<Rightarrow> config \<Rightarrow> bool" where
  "same_credentials cl cfg \<longleftrightarrow>
     cl_username cl = cfg_username cfg \<and> cl_password cl = cfg_password cfg"

lemma matching:
  assumes "same_credentials cl cfg"
  shows "client_method cl = selected_method cfg" "client_expects cl = auth_answer cfg"
    "client_hello cl = greeting [selected_method cfg] @ auth_message cfg"
  using assms
  by (simp_all add: same_credentials_def client_method_def selected_method_def client_expects_def
      auth_answer_def client_hello_def auth_message_def)

lemma counted_method [simp]: "counted [m]"
  by (simp add: counted_def)

text \<open>A mismatch: the server's answer, and that the client turns away on it.\<close>

lemma server_refuses:
  assumes cl: "valid_credentials (cl_username cl) (cl_password cl)"
    and cfg: "valid_credentials (cfg_username cfg) (cfg_password cfg)"
    and diff: "\<not> same_credentials cl cfg"
    and rx: "rx ss = client_hello cl @ r" and room: "tx_room ss = None"
  obtains m ss' answer where
    "server_negotiate cfg ss = (Raise (IoError PermissionDenied (Message m)), ss')"
    "tx ss' = tx ss @ answer"
    "answer = [5, 255] \<and> (cl_username cl = [] \<longleftrightarrow> cfg_username cfg \<noteq> []) \<or>
     answer = [5, 2, 1, 1] \<and> cl_username cl \<noteq> []"
proof (cases "cl_username cl \<noteq> [] \<and> cfg_username cfg \<noteq> []")
  case True
  let ?u = "as_bytes (cl_username cl)" and ?p = "as_bytes (cl_password cl)"
  have "server_negotiate cfg ss =
    (Raise (IoError PermissionDenied (Message WrongCredentials)), wrote (ss\<lparr>rx := r\<rparr>) [5, 2, 1, 1])"
  proof (rule server_negotiate_wrong [OF cfg, of "[2]" ?u ?p])
    show "counted ?u" "counted ?p"
      using cl True by (auto simp: valid_credentials_def counted_def)
    show "(?u, ?p) \<noteq> (as_bytes (cfg_username cfg), as_bytes (cfg_password cfg))"
      using diff by (auto simp: same_credentials_def)
    show "rx ss = greeting [2] @ credentials ?u ?p @ r"
      using rx True by (simp add: client_hello_def client_method_def)
  qed (use True room in \<open>auto simp: room_def\<close>)
  then show ?thesis
    using that True by (metis wrote_simps(2) conn.select_convs(3) conn.surjective conn.update_convs(1))
next
  case False
  have ne: "client_method cl \<noteq> selected_method cfg"
    using False diff cl cfg
    by (auto simp: client_method_def selected_method_def same_credentials_def valid_credentials_def)
  obtain r' where "rx ss = greeting [client_method cl] @ r'"
    using rx by (simp add: client_hello_def)
  then have "server_negotiate cfg ss =
      (Raise (IoError PermissionDenied (Message NoUsableMethod)), wrote (ss\<lparr>rx := r'\<rparr>) [5, 255])"
    using ne room by (intro server_negotiate_no_method) (auto simp: room_def)
  moreover have "cl_username cl = [] \<longleftrightarrow> cfg_username cfg \<noteq> []"
    using ne by (auto simp: client_method_def selected_method_def split: if_splits)
  ultimately show ?thesis
    using that [of NoUsableMethod "wrote (ss\<lparr>rx := r'\<rparr>) [5, 255]" "[5, 255]"]
    by (auto simp: wrote_def)
qed

lemma client_refused:
  assumes "c_opt cs = Inr ()" "tx_room cs = None" "rx cs = answer"
    and "answer = [5, 255] \<or> answer = [5, 2, 1, 1] \<and> cl_username cl \<noteq> []"
  obtains m cs' where "client_negotiate cl cs = (Raise (IoError PermissionDenied (Message m)), cs')"
  using assms(4)
proof
  assume a: "answer = [5, 255]"
  have "[5, 255] \<noteq> [5, client_method cl]"
    by (simp add: client_method_def)
  then show ?thesis
    using that client_negotiate_method [OF assms(1,2), of "[5, 255]" "[]" cl] assms(3) a
    by (simp add: Let_def)
next
  assume "answer = [5, 2, 1, 1] \<and> cl_username cl \<noteq> []"
  then show ?thesis
    using that client_negotiate_auth [OF assms(1,2), of cl "[1, 1]" "[]"] assms(3) by simp
qed

section \<open>Requests\<close>

lemma write_request_wire:
  "target_wire t = Some bs \<Longrightarrow> tx_room c = None \<Longrightarrow>
     write_request k t c = (Return (), wrote c ([5, k, 0] @ bs))"
  by (simp add: write_request_def encode_target_wire write_free)

lemma write_request_bad:
  "target_wire t = None \<Longrightarrow>
     write_request k t c = (Raise (IoError InvalidInput (Message BadDomainLength)), c)"
  by (simp add: write_request_def encode_target_wire io_return_simps)

lemma read_reply_bytes:
  assumes "rx c = encode_address [5, s, 0] a @ r"
  shows "read_reply c = (Return (s, target_from a), c\<lparr>rx := r\<rparr>)"
  using assms encode_address_wire [of "[5, s, 0]" a]
  by (intro reply.rd_wire [OF wf_target_from target_wire_from]) simp

lemma client_connect_eq:
  assumes io: "c_opt c = Inr ()" "tx_room c = None"
    and t: "target_wire t = Some bs"
    and rx: "rx c = client_expects cl @ encode_address [5, s, 0] a @ r"
  shows "client_connect cl t c =
    (if s = SUCCESS then Return () else Raise (IoError OtherKind (Message (RequestFailed s))),
     wrote (c\<lparr>rx := r\<rparr>) (client_hello cl @ [5, CONNECT, 0] @ bs))"
proof -
  let ?c1 = "wrote (c\<lparr>rx := encode_address [5, s, 0] a @ r\<rparr>) (client_hello cl)"
  let ?c2 = "wrote (c\<lparr>rx := encode_address [5, s, 0] a @ r\<rparr>) (client_hello cl @ [5, CONNECT, 0] @ bs)"
  let ?c3 = "wrote (c\<lparr>rx := r\<rparr>) (client_hello cl @ [5, CONNECT, 0] @ bs)"
  have 1: "client_negotiate cl c = (Return (), ?c1)"
    using io rx by (rule client_negotiate_accepts)
  have 2: "write_request CONNECT t ?c1 = (Return (), ?c2)"
    using write_request_wire [OF t, of ?c1] io by simp
  have 3: "read_reply ?c2 = (Return (s, target_from a), ?c3)"
    using read_reply_bytes [of ?c2 s a r] by simp
  have 4: "set_option ?c3 = (Return (), ?c3)"
    using io by (intro set_option_ok) simp
  show ?thesis
    unfolding client_connect_def
    using 1 2 3 4 by (simp add: io_bind_def check_status_def io_lift_def)
qed

text \<open>UDP ASSOCIATE: the client declares the port of its socket, and takes the relay's address
  from the reply, or the proxy's own where the reply leaves it open.\<close>

definition declared :: "socket_addr \<Rightarrow> socket_addr \<Rightarrow> socket_addr" where
  "declared local socket = sock_new (sock_ip (client_unspecified (sock_ip local))) (sock_port socket)"

definition relay_of :: "socket_addr \<Rightarrow> socket_addr \<Rightarrow> socket_addr" where
  "relay_of peer a = sock_new (if is_unspecified (sock_ip a) then sock_ip peer else sock_ip a) (sock_port a)"

lemma client_associate_eq:
  assumes io: "c_opt c = Inr ()" "tx_room c = None" "c_peer c = Inr peer" "c_local c = Inr local"
    and socket: "udp_bind (client_unspecified (sock_ip local)) = Inr socket" "us_local socket = Inr sa"
    and rx: "rx c = client_expects cl @ encode_address [5, s, 0] a @ r"
    and connect: "us_connect socket (relay_of peer a) = Inr ()" "us_opt socket = Inr ()"
  shows "client_associate to_socket_addrs udp_bind cl t c =
    (if s = SUCCESS then Return \<lparr>ua_socket = socket, ua_target = t, ua_relay = relay_of peer a\<rparr>
     else Raise (IoError OtherKind (Message (RequestFailed s))),
     wrote (c\<lparr>rx := r\<rparr>) (client_hello cl @ encode_address [5, UDP_ASSOCIATE, 0] (declared local sa)))"
proof -
  let ?bs = "encode_address [] (declared local sa)"
  let ?c1 = "wrote (c\<lparr>rx := encode_address [5, s, 0] a @ r\<rparr>) (client_hello cl)"
  let ?c2 = "wrote (c\<lparr>rx := encode_address [5, s, 0] a @ r\<rparr>) (client_hello cl @ [5, UDP_ASSOCIATE, 0] @ ?bs)"
  let ?c3 = "wrote (c\<lparr>rx := r\<rparr>) (client_hello cl @ [5, UDP_ASSOCIATE, 0] @ ?bs)"
  have t: "target_wire \<lparr>t_host = Ip (sock_ip (client_unspecified (sock_ip local))), t_port = sock_port sa\<rparr> = Some ?bs"
    using target_wire_from [of "declared local sa"] by (simp add: declared_def target_from_def)
  have 1: "client_negotiate cl c = (Return (), ?c1)"
    using io(1,2) rx by (rule client_negotiate_accepts)
  have 2: "write_request UDP_ASSOCIATE
      \<lparr>t_host = Ip (sock_ip (client_unspecified (sock_ip local))), t_port = sock_port sa\<rparr> ?c1 = (Return (), ?c2)"
    using write_request_wire [OF t, of ?c1] io by simp
  have 3: "read_reply ?c2 = (Return (s, target_from a), ?c3)"
    using read_reply_bytes [of ?c2 s a r] by simp
  have 4: "set_option ?c3 = (Return (), ?c3)"
    using io by (intro set_option_ok) simp
  have 5: "relay_ip to_socket_addrs peer b (target_from a) =
      Inr (if is_unspecified (sock_ip a) then sock_ip peer else sock_ip a)" for b
    by (simp add: relay_ip_def target_from_def)
  have 6: "sock_new (if is_unspecified (sock_ip a) then sock_ip peer else sock_ip a) (t_port (target_from a)) =
      relay_of peer a"
    by (simp add: relay_of_def target_from_def)
  have 7: "encode_address [5, UDP_ASSOCIATE, 0] (declared local sa) = [5, UDP_ASSOCIATE, 0] @ ?bs"
    by (rule encode_address_wire)
  show ?thesis
    unfolding client_associate_def 7
    using 1 2 3 4 io(3,4) socket connect
    by (simp add: io_bind_def check_status_def io_lift_def peer_addr_def local_addr_def Let_def io_return_def 5
        6 [simplified])
qed

section \<open>Properties\<close>

text \<open>C37: Client and server with the same credentials understand each other. Fed the bytes the
  client sends, the server's negotiation succeeds and writes exactly what the client waits
  for; fed those, the client's negotiation succeeds and has sent exactly those bytes. Neither
  side takes a byte more, so what follows is the request.\<close>

theorem negotiation_agrees:
  assumes "valid_credentials (cfg_username cfg) (cfg_password cfg)"
    and "client_new server (cfg_username cfg) (cfg_password cfg) = Inr cl"
    and "c_opt cs = Inr ()" and "tx_room cs = None" and "tx_room ss = None"
    and "rx ss = client_hello cl @ r" and "rx cs = auth_answer cfg @ r'"
  shows "server_negotiate cfg ss = (Return (), wrote (ss\<lparr>rx := r\<rparr>) (auth_answer cfg)) \<and>
    client_negotiate cl cs = (Return (), wrote (cs\<lparr>rx := r'\<rparr>) (client_hello cl))"
proof
  have same: "same_credentials cl cfg"
    using assms(2) by (auto simp: client_new_Inr same_credentials_def)
  note m = matching [OF same]
  show "server_negotiate cfg ss = (Return (), wrote (ss\<lparr>rx := r\<rparr>) (auth_answer cfg))"
    unfolding server_negotiate_eq_Return [OF assms(1)]
    using assms(5,6) m
    by (auto simp: room_def intro!: exI [of _ "[selected_method cfg]"])
  show "client_negotiate cl cs = (Return (), wrote (cs\<lparr>rx := r'\<rparr>) (client_hello cl))"
    using assms(3,4,7) m by (intro client_negotiate_accepts) simp_all
qed

definition demo_client :: client where
  "demo_client =
     \<lparr>cl_server = ''h:1080'', cl_username = ''u'', cl_password = ''pw'',
      cl_tcp_timeout = None, cl_udp_timeout = Some 60\<rparr>"

lemma demo_client_new:
  "client_new ''h:1080'' (cfg_username demo_config) (cfg_password demo_config) = Inr demo_client"
  by (simp add: client_new_def demo_config_def demo_client_def)

lemma slice_reader_ok: "c_opt (slice_reader bs) = Inr ()"
  by (simp add: slice_reader_def)

theorem negotiation_agrees_witness:
  "server_negotiate demo_config (slice_reader (client_hello demo_client @ [9])) =
     (Return (), wrote ((slice_reader (client_hello demo_client @ [9]))\<lparr>rx := [9]\<rparr>)
        (auth_answer demo_config)) \<and>
   client_negotiate demo_client (slice_reader (auth_answer demo_config @ [8])) =
     (Return (), wrote ((slice_reader (auth_answer demo_config @ [8]))\<lparr>rx := [8]\<rparr>)
        (client_hello demo_client))"
  by (rule negotiation_agrees [OF demo_valid demo_client_new]) (simp_all add: slice_reader_ok)

text \<open>Client and server with different credentials both turn away. Fed what the client would
  send, the server ends with \<open>PermissionDenied\<close>; fed what the server wrote in answer, so
  does the client. In no case does either side go on to the request.\<close>

theorem negotiation_disagrees:
  assumes "valid_credentials (cfg_username cfg) (cfg_password cfg)"
    and "client_new server user pass = Inr cl"
    and "(user, pass) \<noteq> (cfg_username cfg, cfg_password cfg)"
    and "tx_room ss = None" and "rx ss = client_hello cl @ r"
    and "server_negotiate cfg ss = (result, ss')"
    and "c_opt cs = Inr ()" and "tx_room cs = None" and "rx cs = drop (length (tx ss)) (tx ss')"
  shows "(\<exists>m. result = Raise (IoError PermissionDenied (Message m))) \<and>
    (\<exists>m cs'. client_negotiate cl cs = (Raise (IoError PermissionDenied (Message m)), cs'))"
proof -
  have cl: "valid_credentials (cl_username cl) (cl_password cl)"
    and diff: "\<not> same_credentials cl cfg"
    using assms(2,3) by (auto simp: client_new_Inr same_credentials_def)
  obtain m ss2 answer where
    s: "server_negotiate cfg ss = (Raise (IoError PermissionDenied (Message m)), ss2)"
    "tx ss2 = tx ss @ answer" and
    a: "answer = [5, 255] \<and> (cl_username cl = [] \<longleftrightarrow> cfg_username cfg \<noteq> []) \<or>
      answer = [5, 2, 1, 1] \<and> cl_username cl \<noteq> []"
    using server_refuses [OF cl assms(1) diff assms(5,4)] by blast
  have "rx cs = answer"
    using s assms(6,9) by simp
  then obtain m' cs' where "client_negotiate cl cs = (Raise (IoError PermissionDenied (Message m')), cs')"
    using client_refused [OF assms(7,8)] a by blast
  then show ?thesis
    using s assms(6) by simp
qed

theorem negotiation_disagrees_witness:
  "\<exists>m cs'. client_negotiate demo_client (slice_reader [5, 255]) =
     (Raise (IoError PermissionDenied (Message m)), cs')"
proof -
  have valid: "valid_credentials (cfg_username cfg_default) (cfg_password cfg_default)"
    by (simp add: valid_credentials_def cfg_default_def)
  let ?ss = "slice_reader (client_hello demo_client @ [])"
  have run: "server_negotiate cfg_default ?ss =
      (Raise (IoError PermissionDenied (Message NoUsableMethod)),
       wrote (?ss\<lparr>rx := credentials (as_bytes ''u'') (as_bytes ''pw'')\<rparr>) [5, 255])"
    by (rule server_negotiate_no_method [of "[2]"])
      (simp_all add: selected_method_def cfg_default_def client_hello_def demo_client_def
        client_method_def room_def)
  have new: "client_new ''h:1080'' ''u'' ''pw'' = Inr demo_client"
    by (simp add: client_new_def demo_client_def)
  from negotiation_disagrees [OF valid new _ _ _ run, of "[]" "slice_reader [5, 255]"]
  show ?thesis
    by (simp add: cfg_default_def slice_reader_ok)
qed

text \<open>A CONNECT end to end. What the client writes for a target makes the server's handshake
  hand on exactly that target, without a byte left over; and when the server answers with a
  status, the client returns or fails by that status.\<close>

theorem connect_end_to_end:
  assumes "valid_credentials (cfg_username cfg) (cfg_password cfg)"
    and "client_new server (cfg_username cfg) (cfg_password cfg) = Inr cl"
    and "wf_target t" and "c_opt cs = Inr ()" and "tx_room cs = None"
    and "rx cs = auth_answer cfg @ encode_address [5, status, 0] a"
    and "client_connect cl t cs = (result, cs')"
    and "c_opt ss = Inr ()" and "tx_room ss = None" and "rx ss = drop (length (tx cs)) (tx cs')"
  shows "handle_handshake cfg ss =
      (Return (Do_connect t), wrote (ss\<lparr>rx := []\<rparr>) (auth_answer cfg)) \<and>
    result = (if status = SUCCESS then Return ()
              else Raise (IoError OtherKind (Message (RequestFailed status))))"
proof -
  have same: "same_credentials cl cfg"
    using assms(2) by (auto simp: client_new_Inr same_credentials_def)
  note m = matching [OF same]
  obtain bs where bs: "target_wire t = Some bs"
    using tgt.wire_wf [OF assms(3)] by blast
  have run: "client_connect cl t cs =
    (if status = SUCCESS then Return () else Raise (IoError OtherKind (Message (RequestFailed status))),
     wrote (cs\<lparr>rx := []\<rparr>) (client_hello cl @ [5, CONNECT, 0] @ bs))"
    using assms(4-6) m by (intro client_connect_eq [OF _ _ bs]) simp_all
  then have "rx ss = greeting [selected_method cfg] @ auth_message cfg @ [5, CONNECT, 0] @ bs @ []"
    using assms(7,10) m by auto
  then have "handle_handshake cfg ss =
      (Return (Do_connect t), wrote (ss\<lparr>rx := []\<rparr>) (auth_answer cfg))"
    unfolding handle_handshake_iff [OF assms(1) dispatched.simps(1)]
    using assms(3,8,9) bs by (auto simp: room_def intro!: exI [of _ "[selected_method cfg]"])
  then show ?thesis
    using run assms(7) by simp
qed

theorem connect_end_to_end_witness:
  "let t = target_from (SockV4 0x7F000001 80); a = SockV6 1 2 0 0;
       cs = slice_reader (auth_answer demo_config @ encode_address [5, HOST_UNREACHABLE, 0] a);
       ss = slice_reader (tx (snd (client_connect demo_client t cs))) in
   handle_handshake demo_config ss =
     (Return (Do_connect t), wrote (ss\<lparr>rx := []\<rparr>) (auth_answer demo_config)) \<and>
   fst (client_connect demo_client t cs) =
     (if HOST_UNREACHABLE = SUCCESS then Return ()
      else Raise (IoError OtherKind (Message (RequestFailed HOST_UNREACHABLE))))"
  unfolding Let_def
  by (rule connect_end_to_end [OF demo_valid demo_client_new wf_target_from _ _ slice_reader_sel(1)
        surjective_pairing])
    (simp_all add: slice_reader_ok)

text \<open>C14: A UDP ASSOCIATE end to end. What the client writes makes the server's handshake hand on an
  association for an unspecified address of the connection's family and the port of the
  client's UDP socket, without a byte left over. On success the client's association has the
  socket connected to the relay: the address of the reply, or the proxy's own address where
  the reply leaves it open, with the port of the reply. Any other status fails.\<close>

theorem associate_end_to_end:
  assumes "valid_credentials (cfg_username cfg) (cfg_password cfg)"
    and "client_new server (cfg_username cfg) (cfg_password cfg) = Inr cl"
    and "c_opt cs = Inr ()" and "tx_room cs = None" and "c_peer cs = Inr peer" and "c_local cs = Inr local"
    and "udp_bind (client_unspecified (sock_ip local)) = Inr socket" and "us_local socket = Inr sa"
    and "us_connect socket (relay_of peer a) = Inr ()" and "us_opt socket = Inr ()"
    and "rx cs = auth_answer cfg @ encode_address [5, status, 0] a"
    and "client_associate to_socket_addrs udp_bind cl t cs = (result, cs')"
    and "c_opt ss = Inr ()" and "tx_room ss = None" and "rx ss = drop (length (tx cs)) (tx cs')"
  shows "handle_handshake cfg ss =
      (Return (Do_associate (target_from (declared local sa))), wrote (ss\<lparr>rx := []\<rparr>) (auth_answer cfg)) \<and>
    result = (if status = SUCCESS
              then Return \<lparr>ua_socket = socket, ua_target = t, ua_relay = relay_of peer a\<rparr>
              else Raise (IoError OtherKind (Message (RequestFailed status))))"
proof -
  have same: "same_credentials cl cfg"
    using assms(2) by (auto simp: client_new_Inr same_credentials_def)
  note m = matching [OF same]
  have run: "client_associate to_socket_addrs udp_bind cl t cs =
    (if status = SUCCESS then Return \<lparr>ua_socket = socket, ua_target = t, ua_relay = relay_of peer a\<rparr>
     else Raise (IoError OtherKind (Message (RequestFailed status))),
     wrote (cs\<lparr>rx := []\<rparr>) (client_hello cl @ encode_address [5, UDP_ASSOCIATE, 0] (declared local sa)))"
    using assms(3-11) m by (intro client_associate_eq) simp_all
  have "encode_address [5, UDP_ASSOCIATE, 0] (declared local sa) =
      [5, UDP_ASSOCIATE, 0] @ encode_address [] (declared local sa)"
    by (rule encode_address_wire)
  then have "rx ss = greeting [selected_method cfg] @ auth_message cfg @ [5, UDP_ASSOCIATE, 0] @
      encode_address [] (declared local sa) @ []"
    using assms(12,15) m run by auto
  then have "handle_handshake cfg ss =
      (Return (Do_associate (target_from (declared local sa))), wrote (ss\<lparr>rx := []\<rparr>) (auth_answer cfg))"
    unfolding handle_handshake_iff [OF assms(1) dispatched.simps(2)]
    using assms(13,14) target_wire_from [of "declared local sa"] wf_target_from [of "declared local sa"]
    by (auto simp: room_def intro!: exI [of _ "[selected_method cfg]"])
  then show ?thesis
    using run assms(12) by simp
qed

text \<open>A client on 127.0.0.1 whose socket got port 5000, and a server that leaves its address open.\<close>

definition demo_socket :: udp_socket where
  "demo_socket = \<lparr>us_local = Inr (SockV4 0 5000), us_connect = (\<lambda>_. Inr ()), us_opt = Inr ()\<rparr>"

theorem associate_end_to_end_witness:
  "let cs = slice_reader (auth_answer demo_config @ encode_address [5, SUCCESS, 0] (SockV4 0 1080));
       run = client_associate (\<lambda>_ _. Inr []) (\<lambda>_. Inr demo_socket) demo_client (target_from (SockV4 0x08080808 53)) cs;
       ss = slice_reader (tx (snd run)) in
   handle_handshake demo_config ss =
     (Return (Do_associate (target_from (declared (SockV4 0 0) (SockV4 0 5000)))),
      wrote (ss\<lparr>rx := []\<rparr>) (auth_answer demo_config)) \<and>
   fst run =
     (if SUCCESS = SUCCESS
      then Return \<lparr>ua_socket = demo_socket, ua_target = target_from (SockV4 0x08080808 53),
        ua_relay = relay_of (SockV4 0 0) (SockV4 0 1080)\<rparr>
      else Raise (IoError OtherKind (Message (RequestFailed SUCCESS))))"
  unfolding Let_def
  by (rule associate_end_to_end [OF demo_valid demo_client_new, where peer = "SockV4 0 0" and local = "SockV4 0 0",
        OF _ _ _ _ refl _ _ _ slice_reader_sel(1) surjective_pairing])
    (simp_all add: slice_reader_ok demo_socket_def slice_reader_def)

text \<open>Datagrams end to end. What \<open>send\<close> puts on the wire for a payload that is not empty, the
  server parses as the association's target and that payload; and what the server packs for
  an answer from \<open>a\<close>, \<open>recv\<close> delivers as that payload, from \<open>a\<close>, at the front of a buffer
  that is large enough, the rest of which keeps its content.\<close>

theorem datagrams_end_to_end:
  assumes "wf_target (ua_target ua)" and "payload \<noteq> []"
    and "length (encode_datagram a payload) \<le> UDP_BUFFER_SIZE"
    and "length payload \<le> length buffer"
    and "\<And>packet. socket_send packet = Inr (length packet)"
  shows "(\<exists>packet. append_datagram_to [] (ua_target ua) payload = (Inr (), packet) \<and>
      udp_send socket_send ua payload = Inr (length payload) \<and>
      parse_datagram packet = Inr (ua_target ua, payload)) \<and>
    udp_recv (Inr (encode_datagram a payload)) buffer =
      (Inr (length payload, target_from a), payload @ drop (length payload) buffer)"
proof
  obtain bs where bs: "target_wire (ua_target ua) = Some bs"
    using tgt.wire_wf [OF assms(1)] by blast
  have enc: "encode_datagram_to (ua_target ua) payload = Inr ([0, 0, 0] @ bs @ payload)"
    by (simp add: encode_datagram_to_wire bs)
  then have app: "append_datagram_to [] (ua_target ua) payload = (Inr (), [0, 0, 0] @ bs @ payload)"
    by (simp add: encode_datagram_to_def split: prod.splits sum.splits)
  show "\<exists>packet. append_datagram_to [] (ua_target ua) payload = (Inr (), packet) \<and>
      udp_send socket_send ua payload = Inr (length payload) \<and>
      parse_datagram packet = Inr (ua_target ua, payload)"
    using app enc assms(1,2,5) by (auto simp: udp_send_def parse_datagram_iff)
  have "parse_datagram (encode_datagram a payload) = Inr (target_from a, payload)"
    using assms(2) by (simp add: parse_datagram_iff encode_datagram_from)
  then show "udp_recv (Inr (encode_datagram a payload)) buffer =
      (Inr (length payload, target_from a), payload @ drop (length payload) buffer)"
    using assms(3,4) by (simp add: udp_recv_def)
qed

definition demo_udp :: udp_association where
  "demo_udp =
     \<lparr>ua_socket = \<lparr>us_local = Inr (SockV4 0 5), us_connect = (\<lambda>_. Inr ()), us_opt = Inr ()\<rparr>,
      ua_target = target_from (SockV4 0x08080808 53), ua_relay = SockV4 1 1080\<rparr>"

theorem datagrams_end_to_end_witness:
  "(\<exists>packet. append_datagram_to [] (ua_target demo_udp) [1, 2] = (Inr (), packet) \<and>
      udp_send (\<lambda>packet. Inr (length packet)) demo_udp [1, 2] = Inr (length [1, 2 :: u8]) \<and>
      parse_datagram packet = Inr (ua_target demo_udp, [1, 2])) \<and>
    udp_recv (Inr (encode_datagram (SockV6 9 53 0 0) [1, 2])) [0, 0, 7] =
      (Inr (length [1, 2 :: u8], target_from (SockV6 9 53 0 0)), [1, 2] @ drop (length [1, 2 :: u8]) [0, 0, 7])"
  by (rule datagrams_end_to_end)
    (simp_all add: demo_udp_def encode_datagram_def encode_address_def UDP_BUFFER_SIZE_def)

end
