(* ===== verification/Repository_Tests.thy ===== *)
theory Repository_Tests
  imports Client Udp_Loop Tcp_Relay
begin

text \<open>
  The unit tests of the repository, translated like the code they test: a test is a boolean,
  \<open>unwrap\<close> is a case that fails the test, \<open>assert\<close> is a conjunct. That they hold of the model
  ties the model to the behaviour the authors check the program for. Where a test runs the
  server against real sockets, the translation drives the model through the same exchange
  and quantifies over the ports the system would choose. Relay_Tests has the tests that send
  datagrams through the server, and the theorem that all of them hold.
\<close>

section \<open>protocol.rs\<close>

definition unwrap :: "'a outcome \<times> conn \<Rightarrow> 'a option" where
  "unwrap r = (case r of (Return x, _) \<Rightarrow> Some x | _ \<Rightarrow> None)"

definition is_err :: "'e + 'a \<Rightarrow> bool" where
  "is_err r = (case r of Inl _ \<Rightarrow> True | Inr _ \<Rightarrow> False)"

definition example_com :: "u8 list" where
  "example_com = [3, 11, 101, 120, 97, 109, 112, 108, 101, 46, 99, 111, 109, 1, 187]"

definition requests_accept_all_address_types :: bool where
  "requests_accept_all_address_types \<longleftrightarrow>
     list_all (\<lambda>text.
       case parse_sock text of
         None \<Rightarrow> False
       | Some address \<Rightarrow>
           unwrap (read_request (slice_reader (encode_address [5, CONNECT, 0] address))) =
           Some (CONNECT, \<lparr>t_host = Ip (sock_ip address), t_port = 443\<rparr>))
       [''127.0.0.1:443'', ''[2001:db8::1]:443''] \<and>
     map_option (t_host \<circ> snd) (unwrap (read_request (slice_reader ([5, CONNECT, 0] @ example_com)))) =
     Some (Domain ''example.com'')"

definition datagrams_round_trip_and_reject_invalid_headers :: bool where
  "datagrams_round_trip_and_reject_invalid_headers \<longleftrightarrow>
     list_all (\<lambda>text.
       case parse_sock text of
         None \<Rightarrow> False
       | Some address \<Rightarrow>
           parse_datagram (encode_datagram address (as_bytes ''hello'')) =
           Inr (\<lparr>t_host = Ip (sock_ip address), t_port = 443\<rparr>, as_bytes ''hello''))
       [''127.0.0.1:443'', ''[2001:db8::1]:443''] \<and>
     (case parse_datagram ([0, 0, 0] @ example_com @ [120]) of
        Inl _ \<Rightarrow> False | Inr (t, _) \<Rightarrow> t_host t = Domain ''example.com'') \<and>
     list_all (\<lambda>packet. is_err (parse_datagram packet))
       [[0, 0, 1, 1, 127, 0, 0, 1, 0, 80, 1], [1, 0, 0, 1, 127, 0, 0, 1, 0, 80, 1],
        [0, 0, 0, 3, 0, 0, 80, 1]]"

definition client_request_and_reply_preserve_domain_target :: bool where
  "client_request_and_reply_preserve_domain_target \<longleftrightarrow>
     (let target = \<lparr>t_host = Domain ''example.com'', t_port = 443\<rparr> in
      (case write_request CONNECT target (slice_reader []) of
         (Return _, c) \<Rightarrow> unwrap (read_request (slice_reader (tx c))) = Some (CONNECT, target)
       | _ \<Rightarrow> False) \<and>
      (case encode_target [5, SUCCESS, 0] target of
         (Inr _, reply) \<Rightarrow> unwrap (read_reply (slice_reader reply)) = Some (SUCCESS, target)
       | _ \<Rightarrow> False) \<and>
      (case encode_datagram_to target (as_bytes ''hello'') of
         Inr packet \<Rightarrow> parse_datagram packet = Inr (target, as_bytes ''hello'')
       | _ \<Rightarrow> False))"

lemma test_addresses:
  "parse_sock ''127.0.0.1:443'' = Some (SockV4 0x7F000001 443)"
  "parse_sock ''[2001:db8::1]:443'' = Some (SockV6 0x20010DB8000000000000000000000001 443 0 0)"
  by (simp_all add: ip_eval)

lemma example_com_wire:
  "target_wire \<lparr>t_host = Domain ''example.com'', t_port = 443\<rparr> = Some example_com"
  "wf_target \<lparr>t_host = Domain ''example.com'', t_port = 443\<rparr>"
  by (simp_all add: target_wire_def host_wire_def example_com_def as_bytes_def byte_of_char_def port_bytes_def
      be_bytes_numeral wf_target_def wf_host_def wf_str_ascii)

lemma read_request_from:
  "unwrap (read_request (slice_reader (encode_address [5, k, 0] a))) = Some (k, target_from a)"
  using request.rd_wire [OF wf_target_from target_wire_from, of "slice_reader (encode_address [5, k, 0] a)" k a "[]"]
  by (simp add: encode_address_wire [of "[5, k, 0]"] slice_reader_def unwrap_def)

lemma unwrap_example:
  "rx c = [5, k, 0] @ example_com \<Longrightarrow>
     unwrap (read_request c) = Some (k, \<lparr>t_host = Domain ''example.com'', t_port = 443\<rparr>)"
  "rx c = [5, k, 0] @ example_com \<Longrightarrow>
     unwrap (read_reply c) = Some (k, \<lparr>t_host = Domain ''example.com'', t_port = 443\<rparr>)"
  using request.rd_wire [OF example_com_wire(2,1), of c k "[]"]
    reply.rd_wire [OF example_com_wire(2,1), of c k "[]"]
  by (simp_all add: unwrap_def)

lemma slice_reader_simps [simp]: "rx (slice_reader bs) = bs" "tx (slice_reader bs) = []"
  by (simp_all add: slice_reader_def)

lemma test_requests: requests_accept_all_address_types
  by (simp add: requests_accept_all_address_types_def test_addresses read_request_from target_from_def
      unwrap_example)

lemma test_datagrams: datagrams_round_trip_and_reject_invalid_headers
proof -
  have "parse_datagram (encode_datagram a (as_bytes ''hello'')) = Inr (target_from a, as_bytes ''hello'')" for a
    by (simp add: parse_datagram_iff encode_datagram_from)
  moreover have "parse_datagram ([0, 0, 0] @ example_com @ [120]) =
      Inr (\<lparr>t_host = Domain ''example.com'', t_port = 443\<rparr>, [120])"
    using parse_datagram_wire [OF example_com_wire(2,1), of "[120]"] by simp
  moreover have "is_err (parse_datagram [0, 0, 1, 1, 127, 0, 0, 1, 0, 80, 1])"
    "is_err (parse_datagram [1, 0, 0, 1, 127, 0, 0, 1, 0, 80, 1])"
    by (simp_all add: parse_datagram_def is_err_def)
  moreover have "is_err (parse_datagram [0, 0, 0, 3, 0, 0, 80, 1])"
    by (simp add: parse_datagram_def read_target_def io_bind_def read_exact_def slice_reader_def io_raise_def is_err_def)
  ultimately show ?thesis
    by (simp add: datagrams_round_trip_and_reject_invalid_headers_def test_addresses target_from_def)
qed

lemma test_domain_target: client_request_and_reply_preserve_domain_target
proof -
  have e: "encode_target bytes \<lparr>t_host = Domain ''example.com'', t_port = 443\<rparr> = (Inr (), bytes @ example_com)" for bytes
    by (simp add: encode_target_wire example_com_wire)
  have "write_request k \<lparr>t_host = Domain ''example.com'', t_port = 443\<rparr> (slice_reader []) =
      (Return (), wrote (slice_reader []) ([5, k, 0] @ example_com))" for k
    by (simp add: write_request_def e write_free slice_reader_def)
  moreover have "encode_datagram_to \<lparr>t_host = Domain ''example.com'', t_port = 443\<rparr> (as_bytes ''hello'') =
      Inr ([0, 0, 0] @ example_com @ as_bytes ''hello'')"
    by (simp add: encode_datagram_to_wire example_com_wire)
  moreover have "parse_datagram ([0, 0, 0] @ example_com @ as_bytes ''hello'') =
      Inr (\<lparr>t_host = Domain ''example.com'', t_port = 443\<rparr>, as_bytes ''hello'')"
    using parse_datagram_wire [OF example_com_wire(2,1)] by simp
  ultimately show ?thesis
    by (simp add: client_request_and_reply_preserve_domain_target_def Let_def e unwrap_example)
qed

section \<open>config.rs\<close>

definition allows_text :: "whitelist \<Rightarrow> string \<Rightarrow> bool" where
  "allows_text list address = (case parse_ip address of None \<Rightarrow> False | Some ip \<Rightarrow> wl_allows list ip)"

definition whitelist_matches_addresses_and_networks :: bool where
  "whitelist_matches_addresses_and_networks \<longleftrightarrow>
     (case wl_parse ''198.51.100.10,192.0.2.0/24,2001:db8::/32'' of
        Inl _ \<Rightarrow> False
      | Inr list \<Rightarrow>
          list_all (allows_text list)
            [''198.51.100.10'', ''192.0.2.20'', ''2001:db8::20'', ''::ffff:192.0.2.20''] \<and>
          (case parse_ip ''203.0.113.10'' of None \<Rightarrow> False | Some ip \<Rightarrow> \<not> wl_allows list ip)) \<and>
     is_err (wl_parse ''bad-ip'') \<and> is_err (wl_parse ''192.0.2.0/33'') \<and> is_err (wl_parse '',,,'') \<and>
     (case wl_parse ''::ffff:192.0.2.0/120'' of
        Inl _ \<Rightarrow> False | Inr mapped \<Rightarrow> allows_text mapped ''192.0.2.20'')"

definition zero_bit_prefix_matches_entire_family :: bool where
  "zero_bit_prefix_matches_entire_family \<longleftrightarrow>
     (case parse_ip ''203.0.113.1'' of None \<Rightarrow> False | Some ip \<Rightarrow> prefix_matches (IpV4 0) ip 0) \<and>
     (case parse_ip ''2001:db8::1'' of None \<Rightarrow> False | Some ip \<Rightarrow> prefix_matches (IpV6 0) ip 0)"

definition parses_legacy_arguments :: bool where
  "parses_legacy_arguments \<longleftrightarrow>
     (case config_parse (\<lambda>_. None)
             [''-p'', ''8080'', ''-user'', ''admin'', ''-pwd'', ''secret'', ''--whitelist'', ''127.0.0.1''] of
        Inr (Some config) \<Rightarrow> cfg_port config = 8080 \<and> \<not> wl_is_empty (cfg_whitelist config)
      | _ \<Rightarrow> False) \<and>
     is_err (config_parse (\<lambda>_. None) [''-user'', ''admin''])"

text \<open>The file of the next test; the comment line is in UTF-8.\<close>

definition crlf :: string where "crlf = [CHR 0x0D, CHR 0x0A]"

definition config_text :: string where
  "config_text =
     ''# '' @ [CHR 0xE6, CHR 0x9C, CHR 0x8D, CHR 0xE5, CHR 0x8A, CHR 0xA1, CHR 0xE9, CHR 0x85, CHR 0x8D,
       CHR 0xE7, CHR 0xBD, CHR 0xAE] @ crlf @
     ''port=1080'' @ crlf @ ''username=admin'' @ crlf @ ''password=pass=#word'' @ crlf @
     ''whitelist=127.0.0.1'' @ crlf @ ''tcp_timeout=5'' @ crlf @ ''udp_timeout=15'' @ crlf @
     ''dns_servers=9.9.9.9,1.0.0.1'' @ crlf"

definition loads_config_file_and_applies_command_line_overrides :: bool where
  "loads_config_file_and_applies_command_line_overrides \<longleftrightarrow>
     (case config_parse [''brume.conf'' \<mapsto> config_text]
             [''--port'', ''26547'', ''--config'', ''brume.conf'', ''--udp-timeout=0''] of
        Inr (Some config) \<Rightarrow>
          cfg_port config = 26547 \<and> cfg_username config = ''admin'' \<and> cfg_password config = ''pass=#word'' \<and>
          allows_text (cfg_whitelist config) ''127.0.0.1'' \<and> cfg_tcp_timeout config = Some 5 \<and>
          cfg_udp_timeout config = 0 \<and>
          map Some (cfg_dns_servers config) = [parse_sock ''9.9.9.9:53'', parse_sock ''1.0.0.1:53'']
      | _ \<Rightarrow> False)"

definition rejects_invalid_config_files :: bool where
  "rejects_invalid_config_files \<longleftrightarrow>
     (let file = (\<lambda>text. [''brume.conf'' \<mapsto> text @ [CHR 0x0A]]); arg = ''--config=brume.conf'' in
      is_err (config_parse Map.empty [arg]) \<and>
      is_err (config_parse (file ''password=secret'') [arg]) \<and>
      is_err (config_parse (file ''unknown=value'') [arg]) \<and>
      is_err (config_parse (file ''port 1080'') [arg]) \<and>
      is_err (config_parse (file ''port 1080'') [arg, arg]) \<and>
      is_err (config_parse (file ''port 1080'') [''--dns-servers='']) \<and>
      is_err (config_parse (file ''port 1080'') [''--dns-servers=not-an-ip'']) \<and>
      is_err (config_parse (file ''port 1080'') [''--dns-servers=0.0.0.0'']))"

lemma test_whitelist: whitelist_matches_addresses_and_networks
  by (simp add: whitelist_matches_addresses_and_networks_def wl_parse_test_list test_list_def allows_text_def
      wl_allows_def is_err_def checked_shl_def unwrap_or_def wl_eval and_high_mask push_drop_eq_iff)

lemma test_zero_bits: zero_bit_prefix_matches_entire_family
  by (simp add: zero_bit_prefix_matches_entire_family_def checked_shl_def unwrap_or_def ip_eval)

lemmas option_eval =
  apply_value_def match_key_def parse_u16_def parse_u64_def parse_dns_servers_def parse_dns_server_def wl_eval

lemmas arg_eval = prints_only_def split_arg_def known_keys_def add_option_def

lemma test_legacy: parses_legacy_arguments
  by (simp add: parses_legacy_arguments_def is_err_def config_parse_def cfg_validate_def cfg_default_def
      arg_eval option_eval)

text \<open>The file, line by line.\<close>

lemma config_lines:
  "str_lines config_text =
     [''# '' @ [CHR 0xE6, CHR 0x9C, CHR 0x8D, CHR 0xE5, CHR 0x8A, CHR 0xA1, CHR 0xE9, CHR 0x85, CHR 0x8D,
       CHR 0xE7, CHR 0xBD, CHR 0xAE], ''port=1080'', ''username=admin'', ''password=pass=#word'',
      ''whitelist=127.0.0.1'', ''tcp_timeout=5'', ''udp_timeout=15'', ''dns_servers=9.9.9.9,1.0.0.1'']"
  by (simp add: str_lines_def config_text_def crlf_def strip_cr_def strip_suffix_def)

text \<open>Trimming leaves a text alone whose first and last bytes occur in no white space.\<close>

lemma strip_front_stop:
  assumes "list_all (\<lambda>w. w = [] \<or> hd w \<noteq> c) ws"
  shows "strip_front ws (c # s) = c # s"
proof -
  have "find (\<lambda>w. w \<noteq> [] \<and> take (length w) (c # s) = w) ws = None"
    using assms by (auto simp: find_None_iff list_all_iff neq_Nil_conv)
  then show ?thesis by (subst strip_front.simps) simp
qed

definition solid :: "string \<Rightarrow> bool" where
  "solid s \<longleftrightarrow> s \<noteq> [] \<and> list_all (\<lambda>w. hd w \<noteq> hd s \<and> last w \<noteq> last s) whitespace"

lemma trim_solid:
  assumes "solid s"
  shows "trim_start s = s" and "trim s = s"
proof -
  obtain c r where c: "s = c # r" using assms by (cases s) (auto simp: solid_def)
  obtain d q where d: "rev s = d # q" using c by (cases "rev s") auto
  have "last s = d" using arg_cong [OF d, of rev] by simp
  moreover have "list_all (\<lambda>w. w \<noteq> []) whitespace" by (simp add: whitespace_def)
  ultimately have "list_all (\<lambda>w. w = [] \<or> hd w \<noteq> c) whitespace"
    "list_all (\<lambda>w. w = [] \<or> hd w \<noteq> d) (map rev whitespace)"
    using assms c by (auto simp: solid_def list_all_iff hd_rev)
  note w = this
  show "trim_start s = s"
    unfolding trim_start_def c by (rule strip_front_stop [OF w(1)])
  moreover have "trim_end s = s"
    unfolding trim_end_def d strip_front_stop [OF w(2)] by (simp flip: d)
  ultimately show "trim s = s" by (simp add: trim_def)
qed

lemma solid_line:
  assumes "solid line" and "last line \<noteq> CHR 0x0D"
  shows "file_options (line # rest) =
    (if hd line = CHR ''#'' then file_options rest
     else case split_once (CHR ''='') line of
       None \<Rightarrow> None
     | Some (key, value) \<Rightarrow>
         (case file_option (trim key) of
            None \<Rightarrow> None
          | Some option \<Rightarrow> map_option ((#) (option, value)) (file_options rest)))"
proof -
  have "strip_cr line = line" using assms(2) by (simp add: strip_cr_def strip_suffix_def)
  moreover have "skip_line line \<longleftrightarrow> hd line = CHR ''#''"
    using assms(1) by (simp add: skip_line_def trim_solid) (simp add: solid_def)
  ultimately show ?thesis by (simp add: Let_def)
qed

lemmas line_eval = solid_line trim_solid(2) solid_def whitespace_def file_option_def

lemma config_options:
  "file_options (str_lines config_text) = Some
     [(''--port'', ''1080''), (''--user'', ''admin''), (''--pwd'', ''pass=#word''),
      (''--whitelist'', ''127.0.0.1''), (''--tcp-timeout'', ''5''), (''--udp-timeout'', ''15''),
      (''--dns-servers'', ''9.9.9.9,1.0.0.1'')]"
  unfolding config_lines by (simp add: line_eval del: file_options.simps(2))

lemma test_file_values:
  "wl_parse ''127.0.0.1'' = Inr \<lparr>wl_addresses = [IpV4 0x7F000001], wl_networks = []\<rparr>"
  "parse_dns_servers ''9.9.9.9,1.0.0.1'' = Inr [SockV4 0x09090909 53, SockV4 0x01000001 53]"
  "parse_u16 ''1080'' = Some 1080" "parse_u16 ''26547'' = Some 26547"
  "parse_u64 ''5'' = Some 5" "parse_u64 ''15'' = Some 15" "parse_u64 ''0'' = Some 0"
  by (simp_all add: option_eval)

lemma test_file_args:
  "parse_args [''--port'', ''26547'', ''--config'', ''brume.conf'', ''--udp-timeout=0''] (None, []) =
     Inr (Some (Some ''brume.conf'', [(''--port'', ''26547''), (''--udp-timeout'', ''0'')]))"
  by (simp add: arg_eval)

lemma test_file_config:
  "config_parse [''brume.conf'' \<mapsto> config_text]
       [''--port'', ''26547'', ''--config'', ''brume.conf'', ''--udp-timeout=0''] =
     Inr (Some \<lparr>cfg_port = 26547, cfg_username = ''admin'', cfg_password = ''pass=#word'',
       cfg_whitelist = \<lparr>wl_addresses = [IpV4 0x7F000001], wl_networks = []\<rparr>, cfg_tcp_timeout = Some 5,
       cfg_udp_timeout = 0, cfg_dns_servers = [SockV4 0x09090909 53, SockV4 0x01000001 53]\<rparr>)"
  unfolding config_parse_Inr test_file_args
  by (simp add: config_options apply_value_def match_key_def test_file_values cfg_default_def
      valid_credentials_def)

lemma test_file: loads_config_file_and_applies_command_line_overrides
proof -
  have "parse_ip ''127.0.0.1'' = Some (IpV4 0x7F000001)"
    "parse_sock ''9.9.9.9:53'' = Some (SockV4 0x09090909 53)"
    "parse_sock ''1.0.0.1:53'' = Some (SockV4 0x01000001 53)"
    by (simp_all add: ip_eval)
  then show ?thesis
    by (simp add: loads_config_file_and_applies_command_line_overrides_def test_file_config allows_text_def
        wl_allows_def wl_is_empty_def normalize_def)
qed

lemma test_invalid_lines:
  "str_lines (''password=secret'' @ [CHR 0x0A]) = [''password=secret'']"
  "str_lines (''unknown=value'' @ [CHR 0x0A]) = [''unknown=value'']"
  "str_lines (''port 1080'' @ [CHR 0x0A]) = [''port 1080'']"
  "file_options [''password=secret''] = Some [(''--pwd'', ''secret'')]"
  "file_options [''unknown=value''] = None"
  "file_options [''port 1080''] = None"
  by (simp_all add: str_lines_def strip_cr_def strip_suffix_def line_eval del: file_options.simps(2))

lemma is_err_unless: "(\<And>c. r \<noteq> Inr c) \<Longrightarrow> is_err r"
  by (cases r) (auto simp: is_err_def)

lemma test_invalid_values:
  "is_err (config_parse fs [''--dns-servers=''])"
  "is_err (config_parse fs [''--dns-servers=not-an-ip''])"
  "is_err (config_parse fs [''--dns-servers=0.0.0.0''])"
  by (simp_all add: config_parse_def arg_eval option_eval is_err_def)

lemma test_config_arg:
  "parse_args (''--config=brume.conf'' # args) (None, []) = parse_args args (Some ''brume.conf'', [])"
  "parse_args (''--config=brume.conf'' # args) (Some p, []) = Inl DuplicateConfig"
  by (simp_all add: arg_eval)

lemma test_file_fails:
  assumes "fs ''brume.conf'' = Some text" "file_options (str_lines text) = None"
  shows "is_err (config_parse fs [''--config=brume.conf''])"
proof (rule is_err_unless)
  fix c
  have "parse_args [''--config=brume.conf''] (None, []) = Inr (Some (Some ''brume.conf'', []))"
    unfolding test_config_arg(1) by simp
  then show "config_parse fs [''--config=brume.conf''] \<noteq> Inr c"
    using assms by (cases c) (auto simp: config_parse_Inr config_parse_def read_file_def read_lines_apply_all
        simp del: parse_args.simps split: sum.splits)
qed

lemma test_invalid_files: rejects_invalid_config_files
proof -
  have "parse_args [''--config=brume.conf''] (None, []) = Inr (Some (Some ''brume.conf'', []))"
    unfolding test_config_arg(1) by simp
  note a = this
  have "is_err (config_parse Map.empty [''--config=brume.conf''])"
    by (simp add: config_parse_def a read_file_def is_err_def del: parse_args.simps)
  moreover have "is_err (config_parse [''brume.conf'' \<mapsto> ''password=secret'' @ [CHR 0x0A]] [''--config=brume.conf''])"
  proof -
    have "str_lines (''password=secret'' @ [CHR 0x0A]) = [''password=secret'']"
      by (rule test_invalid_lines(1))
    then have "read_file [''brume.conf'' \<mapsto> ''password=secret'' @ [CHR 0x0A]] cfg_default ''brume.conf'' =
        Inr (cfg_default\<lparr>cfg_password := ''secret''\<rparr>)"
      by (simp add: read_file_def read_lines_apply_all test_invalid_lines(4) apply_value_def match_key_def
          del: read_lines.simps append.simps file_options.simps)
    then show ?thesis
      by (simp add: config_parse_def a cfg_validate_def cfg_default_def is_err_def
          del: parse_args.simps append.simps)
  qed
  moreover have "is_err (config_parse [''brume.conf'' \<mapsto> s] [''--config=brume.conf''])"
    if "file_options (str_lines s) = None" for s
    using that by (intro test_file_fails [of _ s]) simp_all
  moreover have "is_err (config_parse fs [''--config=brume.conf'', ''--config=brume.conf''])" for fs
    by (simp only: config_parse_def test_config_arg) (simp add: is_err_def)
  ultimately show ?thesis
    using test_invalid_values test_invalid_lines(2,3,5,6)
    unfolding rejects_invalid_config_files_def Let_def by metis
qed

section \<open>happy_eyeballs.rs\<close>

definition test_interleave_addresses :: bool where
  "test_interleave_addresses \<longleftrightarrow>
     (case collect_options (map parse_sock [''127.0.0.1:80'', ''127.0.0.2:80'', ''[::1]:80'', ''[::2]:80'']) of
        Some [v4_1, v4_2, v6_1, v6_2] \<Rightarrow>
          interleave_addresses [v4_1, v4_2, v6_1, v6_2] = [v6_1, v4_1, v6_2, v4_2]
      | _ \<Rightarrow> False)"

text \<open>
  A listening address accepts; nothing listens on the bad one, which refuses. \<open>port\<close> is the one
  the listener was given.
\<close>

definition test_race_connect_single_success :: "u16 \<Rightarrow> bool" where
  "test_race_connect_single_success port =
     (let addr = SockV4 0x7F000001 port in
      happy_eyeballs_connect [addr] [Joined 0 Connected] = Inr addr)"

definition test_race_connect_fallback_to_second_on_failure :: "io_error \<Rightarrow> u16 \<Rightarrow> bool" where
  "test_race_connect_fallback_to_second_on_failure refusal port =
     (let good_addr = SockV4 0x7F000001 port in
      case parse_sock ''127.0.0.1:1'' of
        None \<Rightarrow> False
      | Some bad_addr \<Rightarrow>
          happy_eyeballs_connect [bad_addr, good_addr] [Joined 0 (Refused refusal), Joined 1 Connected] =
          Inr good_addr)"

lemma test_interleave: test_interleave_addresses
proof -
  have "map parse_sock [''127.0.0.1:80'', ''127.0.0.2:80'', ''[::1]:80'', ''[::2]:80''] =
      map Some [SockV4 0x7F000001 80, SockV4 0x7F000002 80, SockV6 1 80 0 0, SockV6 2 80 0 0]"
    by (simp add: ip_eval)
  then show ?thesis
    unfolding test_interleave_addresses_def by (simp only:) (simp add: interleave_addresses_def)
qed

lemma test_single: "test_race_connect_single_success port"
  by (simp add: test_race_connect_single_success_def happy_eyeballs_connect_def)

lemma test_fallback: "test_race_connect_fallback_to_second_on_failure refusal port"
proof -
  have "parse_sock ''127.0.0.1:1'' = Some (SockV4 0x7F000001 1)"
    by (simp add: ip_eval)
  then show ?thesis
    by (simp add: test_race_connect_fallback_to_second_on_failure_def Let_def happy_eyeballs_connect_def
        interleave_addresses_def race_connect_def race_check_def race_start_def spawn_next_def race_over_def
        race_step_def attempt_failed_def)
qed

section \<open>server.rs\<close>

definition test_association :: "u16 \<Rightarrow> association" where
  "test_association port =
     \<lparr>client_ip = IpV4 0x7F000001, requested_port = port, endpoint = None, alive = True, stopped = False,
      flows = Map.empty, preferred = Map.empty\<rparr>"

text \<open>The associations of the test, by the number of the reference: \<open>first\<close> is 0, \<open>second\<close> 1,
  \<open>pending\<close> 2; 3 and 5 are further ones without a port, 4 has the port of \<open>first\<close>.\<close>

definition test_store :: store where
  "test_store a =
     test_association (if a = 0 \<or> a = 4 then 40001 else if a = 1 then 40002 else 0)"

definition finds :: "store \<times> registry \<Rightarrow> string \<Rightarrow> nat option \<Rightarrow> bool \<times> store \<times> registry" where
  "finds st source a =
     (case parse_sock source of
        None \<Rightarrow> (False, st)
      | Some source \<Rightarrow> (case reg_find source st of (found, st) \<Rightarrow> (found = a, st)))"

definition udp_registry_matches_ports_and_rejects_ambiguous_pending_associations :: bool where
  "udp_registry_matches_ports_and_rejects_ambiguous_pending_associations =
     (let h = test_store;
          (ok1, r) = reg_insert h 1 0 reg_default;
          (ok2, r) = reg_insert h 2 1 r;
          (ok3, r) = reg_insert h 3 2 r;
          (no4, r) = reg_insert h 4 3 r;
          (no5, r) = reg_insert h 5 4 r;
          (f1, st) = finds (h, r) ''127.0.0.1:40001'' (Some 0);
          (f2, st) = finds st ''[::ffff:127.0.0.1]:40001'' (Some 0);
          (f3, st) = finds st ''127.0.0.1:40002'' (Some 1);
          (f4, (h, r)) = finds st ''127.0.0.1:40003'' (Some 2);
          r = reg_remove h 3 r;
          (f5, (h, r)) = finds (h, r) ''127.0.0.1:40003'' None;
          (ok6, r) = reg_insert h 4 5 r in
      ok1 \<and> ok2 \<and> ok3 \<and> \<not> no4 \<and> \<not> no5 \<and> f1 \<and> f2 \<and> f3 \<and> f4 \<and> f5 \<and> ok6)"

lemma test_sources:
  "parse_sock ''127.0.0.1:40001'' = Some (SockV4 0x7F000001 40001)"
  "parse_sock ''[::ffff:127.0.0.1]:40001'' = Some (SockV6 0xFFFF7F000001 40001 0 0)"
  "parse_sock ''127.0.0.1:40002'' = Some (SockV4 0x7F000001 40002)"
  "parse_sock ''127.0.0.1:40003'' = Some (SockV4 0x7F000001 40003)"
  by (simp_all add: ip_eval)

lemma test_keys:
  "endpoint_key (SockV4 0x7F000001 p) = SockV4 0x7F000001 p"
  "endpoint_key (SockV6 0xFFFF7F000001 p 0 0) = SockV4 0x7F000001 p"
  "normalize_ip (IpV4 a) = IpV4 a" "normalize_ip (IpV6 0xFFFF7F000001) = IpV4 0x7F000001"
  by (simp_all add: endpoint_key_def normalize_ip_def to_ipv4_mapped_def)

lemma test_registry: udp_registry_matches_ports_and_rejects_ambiguous_pending_associations
  by (simp add: udp_registry_matches_ports_and_rejects_ambiguous_pending_associations_def finds_def test_sources
      Let_def reg_insert_def reg_find_def reg_remove_def reg_default_def accepts_def test_keys test_store_def
      test_association_def)

text \<open>
  The tests of the handshake. \<open>replies\<close> is what the server writes to a client that sends these
  bytes and no more; \<open>accepted\<close> are the clients of a server that accepted one connection.
\<close>

definition start_server_with_timeout :: "string \<Rightarrow> string \<Rightarrow> string \<Rightarrow> u64 option \<Rightarrow> config option" where
  "start_server_with_timeout username password whitelist tcp_timeout =
     (case (wl_parse whitelist, parse_sock ''127.0.0.1:53'') of
        (Inr list, Some dns) \<Rightarrow>
          Some \<lparr>cfg_port = 0, cfg_username = username, cfg_password = password, cfg_whitelist = list,
            cfg_tcp_timeout = tcp_timeout, cfg_udp_timeout = 3, cfg_dns_servers = [dns]\<rparr>
      | _ \<Rightarrow> None)"

definition start_server :: "string \<Rightarrow> string \<Rightarrow> string \<Rightarrow> config option" where
  "start_server username password whitelist = start_server_with_timeout username password whitelist None"

definition replies :: "config \<Rightarrow> u8 list \<Rightarrow> u8 list" where
  "replies cfg bytes = tx (snd (handle_handshake cfg (slice_reader bytes)))"

definition is_served :: "config \<Rightarrow> socket_addr \<Rightarrow> bool" where
  "is_served cfg address =
     (case serve_step cfg False (Accepted address) (serve_start 1) of
        Serving s \<Rightarrow> sv_clients s 0 = Some (1, address)
      | Stopping result u \<Rightarrow> False)"

definition authentication_and_whitelist_reject_unauthorized_clients :: "u16 \<Rightarrow> bool" where
  "authentication_and_whitelist_reject_unauthorized_clients port =
     (let local_client = SockV6 0xFFFF7F000001 port 0 0; greet = (\<lambda>method. [5, 1, method]);
          admin = [1, 5] @ as_bytes ''admin'' in
      (case start_server ''admin'' ''secret'' ''192.0.2.1'' of
         None \<Rightarrow> False | Some cfg \<Rightarrow> \<not> is_served cfg local_client) \<and>
      (case start_server ''admin'' ''secret'' ''127.0.0.1'' of
         None \<Rightarrow> False
       | Some cfg \<Rightarrow>
           is_served cfg local_client \<and>
           replies cfg (greet 0) = [5, 255] \<and>
           replies cfg (greet 2 @ admin @ [3] @ as_bytes ''bad'') = [5, 2] @ [1, 1] \<and>
           (case parse_sock ''0.0.0.0:0'' of
              None \<Rightarrow> False
            | Some a \<Rightarrow>
                (let answer = replies cfg (greet 2 @ admin @ [6] @ as_bytes ''secret'' @ encode_address [5, 2, 0] a) in
                 take 4 answer = [5, 2] @ [1, 0] \<and> length (drop 4 answer) = 10 \<and>
                 drop 4 answer ! 1 = COMMAND_UNSUPPORTED))))"

definition accepts_ipv6_clients :: "u16 \<Rightarrow> bool" where
  "accepts_ipv6_clients port =
     (case start_server [] [] ''::1'' of
        None \<Rightarrow> False
      | Some cfg \<Rightarrow> is_served cfg (SockV6 1 port 0 0) \<and> replies cfg [5, 1, 0] = [5, 0])"

text \<open>The timed test: twelve bytes from the remote side, one every 50 ms, under a timeout of
  250 ms. \<open>max_instant\<close> is the last instant of the clock.\<close>

fun sender :: "nat \<Rightarrow> nat \<Rightarrow> (nat \<times> forward_event) list" where
  "sender now 0 = []"
| "sender now (Suc n) =
     [(now, Downward (Read_done (Inr [120]))), (now, Downward (Write_done (Inr 1))), (now, Changed),
      (now + 49, Timer)] @ sender (now + 50) n"

definition one_way_tcp_transfer_keeps_idle_connection_alive :: "nat \<Rightarrow> bool" where
  "one_way_tcp_transfer_keeps_idle_connection_alive max_instant =
     (case forward_run max_instant 250 (forward_start max_instant 250 0) (sender 0 12) of
        Forwarding t \<Rightarrow> d_written (downward t) = as_bytes ''xxxxxxxxxxxx''
      | _ \<Rightarrow> False)"

lemma test_servers:
  "start_server_with_timeout u p ''192.0.2.1'' t =
     Some \<lparr>cfg_port = 0, cfg_username = u, cfg_password = p,
       cfg_whitelist = \<lparr>wl_addresses = [IpV4 0xC0000201], wl_networks = []\<rparr>,
       cfg_tcp_timeout = t, cfg_udp_timeout = 3, cfg_dns_servers = [SockV4 0x7F000001 53]\<rparr>"
  "start_server_with_timeout u p ''127.0.0.1'' t =
     Some \<lparr>cfg_port = 0, cfg_username = u, cfg_password = p,
       cfg_whitelist = \<lparr>wl_addresses = [IpV4 0x7F000001], wl_networks = []\<rparr>,
       cfg_tcp_timeout = t, cfg_udp_timeout = 3, cfg_dns_servers = [SockV4 0x7F000001 53]\<rparr>"
  "start_server_with_timeout u p ''::1'' t =
     Some \<lparr>cfg_port = 0, cfg_username = u, cfg_password = p,
       cfg_whitelist = \<lparr>wl_addresses = [IpV6 1], wl_networks = []\<rparr>,
       cfg_tcp_timeout = t, cfg_udp_timeout = 3, cfg_dns_servers = [SockV4 0x7F000001 53]\<rparr>"
  by (simp_all add: start_server_with_timeout_def wl_eval)

lemma is_served_iff: "is_served cfg a \<longleftrightarrow> wl_allows (cfg_whitelist cfg) (sock_ip a)"
  by (simp add: is_served_def serve_step_def serve_start_def MAX_TCP_CLIENTS_def)

lemma replies_raise:
  "server_negotiate cfg (slice_reader bs) = (Raise e, c) \<Longrightarrow> replies cfg bs = tx c"
  by (simp add: replies_def handle_handshake_def io_bind_def io_timeout_def set_option_def io_lift_def slice_reader_def)

lemma sender_numeral:
  "sender now (numeral k) =
     [(now, Downward (Read_done (Inr [120]))), (now, Downward (Write_done (Inr 1))), (now, Changed),
      (now + 49, Timer)] @ sender (now + 50) (pred_numeral k)"
  by (simp add: numeral_eq_Suc)

lemma test_idle: "one_way_tcp_transfer_keeps_idle_connection_alive (1000 + n)"
  by (simp add: one_way_tcp_transfer_keeps_idle_connection_alive_def sender_numeral forward_start_def loop_top_def
      forward_step_def copy_step_def after_copy_def join_result_def direction_start_def COPY_BUFFER_SIZE_def Let_def
      as_bytes_def byte_of_char_def)

lemma test_ipv6: "accepts_ipv6_clients port"
proof -
  have "replies \<lparr>cfg_port = 0, cfg_username = [], cfg_password = [], cfg_whitelist = w,
       cfg_tcp_timeout = None, cfg_udp_timeout = 3, cfg_dns_servers = d\<rparr> [5, 1, 0] = [5, 0]" for w d
    by (simp add: replies_def handle_handshake_def io_bind_def io_timeout_def set_option_def io_lift_def
        server_negotiate_def selected_method_def read_exact_def write_all_def io_return_def slice_reader_def
        read_client_request_def read_request_async_def)
  then show ?thesis
    by (simp add: accepts_ipv6_clients_def start_server_def test_servers is_served_iff wl_allows_def wl_is_empty_def
        normalize_def to_ipv4_mapped_def)
qed

definition test_config :: config where
  "test_config =
     \<lparr>cfg_port = 0, cfg_username = ''admin'', cfg_password = ''secret'',
      cfg_whitelist = \<lparr>wl_addresses = [IpV4 0x7F000001], wl_networks = []\<rparr>,
      cfg_tcp_timeout = None, cfg_udp_timeout = 3, cfg_dns_servers = [SockV4 0x7F000001 53]\<rparr>"

lemma test_credentials:
  "valid_credentials (cfg_username test_config) (cfg_password test_config)"
  "cfg_username test_config = ''admin''" "cfg_password test_config = ''secret''"
  "[1, 5] @ as_bytes ''admin'' @ [3] @ as_bytes ''bad'' = credentials (as_bytes ''admin'') (as_bytes ''bad'')"
  "[1, 5] @ as_bytes ''admin'' @ [6] @ as_bytes ''secret'' = auth_message test_config"
  "selected_method test_config = 2" "auth_answer test_config = [5, 2, 1, 0]"
  by (simp_all add: test_config_def valid_credentials_def credentials_def auth_message_def selected_method_def
      auth_answer_def)

lemma test_refused:
  "replies test_config [5, 1, 0] = [5, 255]"
  "replies test_config ([5, 1, 2] @ [1, 5] @ as_bytes ''admin'' @ [3] @ as_bytes ''bad'') = [5, 2, 1, 1]"
proof -
  have "server_negotiate test_config (slice_reader [5, 1, 0]) =
      (Raise (IoError PermissionDenied (Message NoUsableMethod)), wrote ((slice_reader [5, 1, 0])\<lparr>rx := []\<rparr>) [5, 255])"
    by (rule server_negotiate_no_method [of "[0]"])
      (simp_all add: counted_def test_credentials greeting_def room_def)
  then show "replies test_config [5, 1, 0] = [5, 255]"
    by (simp add: replies_raise wrote_def)
  let ?bs = "[5, 1, 2] @ [1, 5] @ as_bytes ''admin'' @ [3] @ as_bytes ''bad''"
  have "server_negotiate test_config (slice_reader ?bs) =
      (Raise (IoError PermissionDenied (Message WrongCredentials)), wrote ((slice_reader ?bs)\<lparr>rx := []\<rparr>) [5, 2, 1, 1])"
    by (rule server_negotiate_wrong [OF test_credentials(1), of "[2]" "as_bytes ''admin''" "as_bytes ''bad''"])
      (simp_all add: test_credentials(2-3) test_credentials(4) [simplified] counted_def greeting_def room_def)
  then show "replies test_config ?bs = [5, 2, 1, 1]"
    by (simp add: replies_raise wrote_def)
qed

lemma test_unsupported:
  "replies test_config ([5, 1, 2] @ [1, 5] @ as_bytes ''admin'' @ [6] @ as_bytes ''secret'' @
       encode_address [5, 2, 0] (SockV4 0 0)) =
     [5, 2, 1, 0] @ encode_address [5, COMMAND_UNSUPPORTED, 0] (SockV4 0 0)"
proof -
  let ?bs = "[5, 1, 2] @ [1, 5] @ as_bytes ''admin'' @ [6] @ as_bytes ''secret'' @ encode_address [5, 2, 0] (SockV4 0 0)"
  let ?c1 = "wrote ((slice_reader ?bs)\<lparr>rx := encode_address [5, 2, 0] (SockV4 0 0)\<rparr>) [5, 2, 1, 0]"
  have 1: "server_negotiate test_config (slice_reader ?bs) = (Return (), ?c1)"
    unfolding server_negotiate_eq_Return [OF test_credentials(1)]
    by (simp add: test_credentials(6,7) flip: test_credentials(5))
      (simp add: room_def counted_def greeting_def wrote_def slice_reader_def exI [of _ "[2]"])
  have 2: "read_request_async ?c1 = (Return (2, target_from (SockV4 0 0)), ?c1\<lparr>rx := []\<rparr>)"
    by (simp add: read_request_async_def read_target_async_def io_bind_def read_exact_def
        io_return_def slice_reader_def v4_of_octets_def port_of_bytes_def be_val_def target_from_def
        encode_address_def v4_octets_def port_bytes_def be_bytes_numeral wrote_def)
  show ?thesis
    using handshake_unsupported [OF _ 1 2, of "SockV4 0 0"]
    by (simp add: replies_def slice_reader_def unspecified_def CONNECT_def UDP_ASSOCIATE_def wrote_def)
qed

lemma test_unauthorized: "authentication_and_whitelist_reject_unauthorized_clients port"
proof -
  have s: "start_server ''admin'' ''secret'' ''127.0.0.1'' = Some test_config"
    by (simp add: start_server_def test_servers test_config_def)
  have "parse_sock ''0.0.0.0:0'' = Some (SockV4 0 0)"
    by (simp add: ip_eval)
  moreover have "\<not> wl_allows \<lparr>wl_addresses = [IpV4 0xC0000201], wl_networks = []\<rparr> (IpV6 0xFFFF7F000001)"
    "wl_allows (cfg_whitelist test_config) (IpV6 0xFFFF7F000001)"
    by (simp_all add: test_config_def wl_allows_def wl_is_empty_def normalize_def to_ipv4_mapped_def)
  moreover have "length (encode_address [5, k, 0] (SockV4 0 0)) = 10" "encode_address [5, k, 0] (SockV4 0 0) ! 1 = k" for k
    by (simp_all add: encode_address_def v4_octets_def port_bytes_def be_bytes_numeral)
  ultimately show ?thesis
    using test_refused test_unsupported
    unfolding authentication_and_whitelist_reject_unauthorized_clients_def s
    by (simp add: start_server_def test_servers is_served_iff)
qed

section \<open>The receiver tests\<close>

text \<open>
  \<open>test_udp_flow\<close> at the instant 0, with the receiver that the tests spawn; \<open>target\<close> has the
  one slot, number 0. \<open>received_at\<close> is the receiver's next step, the top of its loop or what
  its \<open>select!\<close> answers.
\<close>

definition test_udp_flow :: "socket_addr \<Rightarrow> relay" where
  "test_udp_flow destination =
     \<lparr>assocs = (\<lambda>_. (test_association 0)\<lparr>flows := [target_from destination \<mapsto> 0]\<rparr>), reg = reg_default,
      cells = (\<lambda>_. None)(0 := Some (Some \<lparr>f_peer = destination, f_index = 0, f_count = 2, f_active = True, f_stopped = False,
        f_last = 0, f_poisoned = False\<rparr>)),
      next_slot = 1, packets = Map.empty, next_packet = 0,
      receivers = [0 \<mapsto> \<lparr>r_assoc = 0, r_target = target_from destination, r_dest = destination,
        r_buffer = replicate RELAY_BUFFER_SIZE 0, r_replied = False, r_stage = Top\<rparr>]\<rparr>"

definition received_at :: "nat \<Rightarrow> nat \<Rightarrow> nat \<times> receive_event \<Rightarrow> relay \<Rightarrow> relay" where
  "received_at max_instant timeout ev s = fst (receiver_step max_instant timeout None (fst ev) (snd ev) 0 s)"

definition closed_udp_association_stops_unlimited_flow :: "nat \<Rightarrow> socket_addr \<Rightarrow> bool" where
  "closed_udp_association_stops_unlimited_flow max_instant destination =
     (let s = received_at max_instant 0 (0, Flow_stopped) (test_udp_flow destination);
          s = upd_assoc 0 (\<lambda>a. a\<lparr>alive := False, stopped := True\<rparr>) s;
          s = received_at max_instant 0 (0, Association_stopped) s in
      receivers s 0 = None \<and> flows (assocs s 0) = Map.empty)"

text \<open>Outgoing traffic at 200 ms of a flow with a timeout of 300 ms.\<close>

definition outgoing_udp_activity_extends_flow_lifetime :: "nat \<Rightarrow> socket_addr \<Rightarrow> bool" where
  "outgoing_udp_activity_extends_flow_lifetime max_instant destination =
     (let step = received_at max_instant 300;
          s = step (0, Flow_stopped) (test_udp_flow destination);
          s = (case cells s 0 of Some (Some f) \<Rightarrow> set_cell 0 (Some (f\<lparr>f_last := 200\<rparr>)) s | _ \<Rightarrow> s);
          s = step (300, Flow_stopped) (step (300, Deadline_passed) s);
          running = (receivers s 0 \<noteq> None);
          s = step (500, Flow_stopped) (step (500, Deadline_passed) s) in
      running \<and> receivers s 0 = None \<and> flows (assocs s 0) = Map.empty \<and>
      preferred (assocs s 0) (target_from destination) = Some 1)"

lemmas receiver_eval = received_at_def test_udp_flow_def receiver_step_def receive_turn_def receive_top_def receive_event_def
  apply_result_def end_receiver_def test_association_def upd_assoc_def set_cell_def remove_flow_slot_def
  advance_udp_address_def remember_udp_address_def map_len_def MAX_FLOWS_PER_ASSOCIATION_def

lemma test_closed: "closed_udp_association_stops_unlimited_flow max_instant destination"
  by (simp add: closed_udp_association_stops_unlimited_flow_def Let_def receiver_eval del: replicate.simps)

lemma test_outgoing: "outgoing_udp_activity_extends_flow_lifetime (1000 + n) destination"
  by (simp add: outgoing_udp_activity_extends_flow_lifetime_def Let_def receiver_eval del: replicate.simps)

section \<open>client.rs\<close>

definition rejects_incomplete_credentials :: bool where
  "rejects_incomplete_credentials = is_err (client_new ''127.0.0.1:1080'' ''admin'' [])"

text \<open>
  The server of the test: a stream that answers with the method 0 and then success and the
  address of the proxy. What it reads is what the client wrote. \<open>port\<close> is that of the
  client's UDP socket.
\<close>

definition udp_associate_declares_local_port :: "u16 \<Rightarrow> u16 \<Rightarrow> u16 \<Rightarrow> bool" where
  "udp_associate_declares_local_port proxy_port client_port port =
     (let proxy = SockV4 0x7F000001 proxy_port;
          stream = (slice_reader ([5, 0] @ encode_address [5, SUCCESS, 0] proxy))
            \<lparr>c_local := Inr (SockV4 0x7F000001 client_port), c_peer := Inr proxy\<rparr>;
          udp_bind = (\<lambda>bind. Inr \<lparr>us_local = Inr (sock_new (sock_ip bind) port),
            us_connect = (\<lambda>_. Inr ()), us_opt = Inr ()\<rparr>) in
      case (client_new ''127.0.0.1'' [] [], parse_sock ''127.0.0.1:53'') of
        (Inr client, Some a) \<Rightarrow>
          (case client_associate (\<lambda>_ _. Inr []) udp_bind client (target_from a) stream of
             (Return association, stream) \<Rightarrow>
               take 3 (tx stream) = [5, 1, 0] \<and>
               (case unwrap (read_request (slice_reader (drop 3 (tx stream)))) of
                  Some (command, request) \<Rightarrow>
                    command = UDP_ASSOCIATE \<and>
                    map_sum id sock_port (udp_local_addr association) = Inr (t_port request)
                | None \<Rightarrow> False)
           | _ \<Rightarrow> False)
      | _ \<Rightarrow> False)"

lemma test_incomplete: rejects_incomplete_credentials
  by (simp add: rejects_incomplete_credentials_def client_new_def is_err_def)

lemma test_declares: "udp_associate_declares_local_port proxy_port client_port port"
proof -
  let ?proxy = "SockV4 0x7F000001 proxy_port"
  let ?stream = "(slice_reader ([5, 0] @ encode_address [5, SUCCESS, 0] ?proxy))
    \<lparr>c_local := Inr (SockV4 0x7F000001 client_port), c_peer := Inr ?proxy\<rparr>"
  let ?socket = "\<lparr>us_local = Inr (SockV4 0 port), us_connect = (\<lambda>_. Inr ()), us_opt = Inr ()\<rparr>"
  let ?client = "\<lparr>cl_server = ''127.0.0.1'', cl_username = [], cl_password = [],
    cl_tcp_timeout = None, cl_udp_timeout = Some 60\<rparr>"
  let ?bind = "\<lambda>bind. Inr \<lparr>us_local = Inr (sock_new (sock_ip bind) port),
    us_connect = (\<lambda>_. Inr ()), us_opt = Inr ()\<rparr>"
  have "client_associate (\<lambda>_ _. Inr []) ?bind ?client (target_from (SockV4 0x7F000001 53)) ?stream =
    (if SUCCESS = SUCCESS then Return \<lparr>ua_socket = ?socket, ua_target = target_from (SockV4 0x7F000001 53),
       ua_relay = relay_of ?proxy ?proxy\<rparr>
     else Raise (IoError OtherKind (Message (RequestFailed SUCCESS))),
     wrote (?stream\<lparr>rx := []\<rparr>) (client_hello ?client @
       encode_address [5, UDP_ASSOCIATE, 0] (declared (SockV4 0x7F000001 client_port) (SockV4 0 port))))"
    by (rule client_associate_eq)
      (simp_all add: slice_reader_def client_unspecified_def client_expects_def client_method_def)
  moreover have "client_hello ?client = [5, 1, 0]"
    by (simp add: client_hello_def client_method_def greeting_def)
  moreover have "client_new ''127.0.0.1'' [] [] = Inr ?client"
    by (simp add: client_new_def)
  moreover have "parse_sock ''127.0.0.1:53'' = Some (SockV4 0x7F000001 53)"
    by (simp add: ip_eval)
  ultimately show ?thesis
    by (simp add: udp_associate_declares_local_port_def wrote_def slice_reader_def [of "[] @ _"]
        read_request_from [unfolded slice_reader_def] slice_reader_def declared_def client_unspecified_def
        target_from_def udp_local_addr_def)
qed

end
