(* ===== verification/Relay_Tests.thy ===== *)
theory Relay_Tests
  imports Repository_Tests Udp_Peers Associate
begin

text \<open>
  The unit tests that send datagrams through a running server, translated like those of
  Repository_Tests. The other hosts are real in the tests; here they are what the tests make
  of them: a remote socket that sends back what it receives, and a client. Ports that the
  system chooses are arguments. The last section states that all translated tests hold.
\<close>

section \<open>A server, a client and an echo\<close>

abbreviation relay_at ::
  "store \<Rightarrow> registry \<Rightarrow> (nat \<Rightarrow> flow option option) \<Rightarrow> nat \<Rightarrow> (nat \<rightharpoonup> packet_task) \<Rightarrow> nat \<Rightarrow>
     (nat \<rightharpoonup> receiver) \<Rightarrow> relay" where
  "relay_at h r c m ps n rs \<equiv>
     \<lparr>assocs = h, reg = r, cells = c, next_slot = m, packets = ps, next_packet = n, receivers = rs\<rparr>"

abbreviation task_at :: "nat \<Rightarrow> target \<Rightarrow> u8 list \<Rightarrow> nat \<Rightarrow> stage \<Rightarrow> packet_task" where
  "task_at a target payload attempts g \<equiv>
     \<lparr>t_assoc = a, t_target = target, t_payload = payload, t_attempts = attempts, t_stale = 0, t_stage = g\<rparr>"

definition relay_new :: relay where
  "relay_new = relay_at (\<lambda>_. new_association (IpV4 0) 0) reg_default (\<lambda>_. None) 0 Map.empty 0 Map.empty"

text \<open>
  The control connection of the association number 1, at the place 0 of the store: what the
  server writes until it waits for the client, and the relay then; and its end.
\<close>

definition open_control ::
  "config \<Rightarrow> io_error + socket_addr \<Rightarrow> conn \<Rightarrow> relay \<Rightarrow> (u8 list \<times> relay) option" where
  "open_control cfg udp_local c s =
     (case handle_handshake cfg c of
        (Return (Do_associate target), c) \<Rightarrow>
          (case associate udp_local False (\<lambda>_ st. st) 0 1 target (c, assocs s, reg s) of
             (Pending, c, h, r) \<Rightarrow> Some (tx c, s\<lparr>assocs := h, reg := r\<rparr>)
           | _ \<Rightarrow> None)
      | _ \<Rightarrow> None)"

definition close_control :: "relay \<Rightarrow> relay" where
  "close_control s =
     (case associate_close 0 1 (assocs s, reg s) of (h, r) \<Rightarrow> s\<lparr>assocs := h, reg := r\<rparr>)"

definition control_stream :: "socket_addr \<Rightarrow> socket_addr \<Rightarrow> u8 list \<Rightarrow> conn" where
  "control_stream local client bytes =
     (slice_reader bytes)\<lparr>rx_end := Stall, c_local := Inr local, c_peer := Inr client\<rparr>"

text \<open>
  A packet of the client goes through the relay: the relay after it, what the remote socket
  receives, if anything, and what the client gets when the remote socket sends it back. The
  receiver looks at the clock, waits, takes the answer, packs it and sends it.
\<close>

fun to_send :: "nat \<Rightarrow> packet_input \<Rightarrow> nat \<Rightarrow> relay \<Rightarrow> relay" where
  "to_send 0 inp i s = s"
| "to_send (Suc n) inp i s = (if sends s i \<noteq> None then s else to_send n inp i (packet_step inp i s))"

definition answered :: "nat \<Rightarrow> nat \<Rightarrow> nat \<Rightarrow> u8 list \<Rightarrow> nat \<Rightarrow> relay \<Rightarrow> relay \<times> (u8 list \<times> socket_addr) option" where
  "answered max_instant timeout now payload k s =
     (let step = receiver_step max_instant timeout None now;
          s = fst (step Flow_stopped k s);
          s = fst (step (Received_reply payload) k s);
          s = fst (step Flow_stopped k s)
      in step Flow_stopped k s)"

definition echoed ::
  "nat \<Rightarrow> config \<Rightarrow> packet_input \<Rightarrow> socket_addr \<Rightarrow> u8 list \<Rightarrow> relay \<Rightarrow>
     relay \<times> (u8 list \<times> socket_addr) option \<times> (u8 list \<times> socket_addr) option" where
  "echoed max_instant cfg inp client packet s =
     (let i = next_packet s;
          s = to_send 8 inp i (udp_datagram cfg True client packet s) in
      case (packets s i, sends s i) of
        (Some t, Some (payload, to)) \<Rightarrow>
          (case t_stage t of
             Sending k \<Rightarrow>
               (case answered max_instant (unat (cfg_udp_timeout cfg)) (in_now inp) payload k (packet_step inp i s) of
                  (s, answer) \<Rightarrow> (s, Some (payload, to), answer))
           | _ \<Rightarrow> (s, None, None))
      | _ \<Rightarrow> (s, None, None))"

definition test_input :: "ip_addr list \<Rightarrow> packet_input" where
  "test_input ips = \<lparr>in_permit = True, in_oldest = None, in_answer = Inr ips, in_usable = (\<lambda>_. True),
     in_sent = True, in_now = 0\<rparr>"

section \<open>A packet on its way\<close>

lemma to_send_sent: "sends s i \<noteq> None \<Longrightarrow> to_send n inp i s = s"
  by (cases n) simp_all

lemma to_send_step: "sends s i = None \<Longrightarrow> 0 < n \<Longrightarrow> to_send n inp i s = to_send (n - 1) inp i (packet_step inp i s)"
  by (cases n) simp_all

definition new_flow :: "socket_addr \<Rightarrow> flow" where
  "new_flow dest = \<lparr>f_peer = dest, f_index = 0, f_count = 1, f_active = True, f_stopped = False,
     f_last = 0, f_poisoned = False\<rparr>"

lemma new_flow_peer [simp]: "f_peer (new_flow dest) = dest"
  by (simp add: new_flow_def)

definition new_receiver :: "nat \<Rightarrow> target \<Rightarrow> socket_addr \<Rightarrow> u8 list \<Rightarrow> bool \<Rightarrow> receiver" where
  "new_receiver a target dest buffer replied =
     \<lparr>r_assoc = a, r_target = target, r_dest = dest, r_buffer = buffer, r_replied = replied, r_stage = Top\<rparr>"

lemma datagram_task:
  assumes "wl_allows (cfg_whitelist cfg) (sock_ip client)"
    and "parse_datagram (take RELAY_BUFFER_SIZE packet) = Inr (target, payload)"
    and "reg_find client (h, r) = (Some a, h', r')"
  shows "udp_datagram cfg True client packet (relay_at h r c m Map.empty n rs) =
     relay_at h' r' c m [n \<mapsto> task_at a target payload 0 Begin] (Suc n) rs"
  using assms by (simp add: udp_datagram_def)

lemma task_opens_flow:
  assumes "dns_lookup (\<lambda>_. Inr ips) target = Inr [dest]" "alive (h a)" "flows (h a) = Map.empty"
  shows "to_send 8 (test_input ips) i (relay_at h r c m [i \<mapsto> task_at a target payload 0 Begin] n Map.empty) =
     relay_at (h(a := (h a)\<lparr>flows := [target \<mapsto> m]\<rparr>)) r (c(m := Some (Some (new_flow dest)))) (Suc m)
       [i \<mapsto> task_at a target payload 1 (Sending m)] n
       [m \<mapsto> new_receiver a target dest (replicate RELAY_BUFFER_SIZE 0) False]"
  using assms
  by (simp add: to_send_step to_send_sent sends_def packet_step_def choose_slot_def map_len_def MAX_FLOWS_PER_ASSOCIATION_def
      set_stage_def set_cell_def upd_assoc_def initialising_def begin_init_def end_init_def start_index_def
      select_address_def use_flow_def test_input_def new_flow_def new_receiver_def Let_def del: replicate.simps)

lemma cell_same: "c k = Some (Some f) \<Longrightarrow> c(k \<mapsto> Some f) = c"
  by (simp add: fun_upd_idem)

lemma task_finds_flow:
  assumes "alive (h a)" "flows (h a) target = Some k" "c k = Some (Some (new_flow dest))"
  shows "to_send 8 (test_input ips) i (relay_at h r c m [i \<mapsto> task_at a target payload 0 Begin] n rs) =
     relay_at h r c m [i \<mapsto> task_at a target payload 1 (Sending k)] n rs"
  using assms cell_same [of c k, OF assms(3)]
  by (simp add: to_send_step to_send_sent sends_def packet_step_def choose_slot_def set_stage_def set_cell_def
      use_flow_def test_input_def Let_def) (simp add: new_flow_def)

lemma task_sends:
  "c k = Some (Some (new_flow dest)) \<Longrightarrow>
   packet_step (test_input ips) i (relay_at h r c m [i \<mapsto> task_at a target payload 1 (Sending k)] n rs) =
     relay_at h r c m Map.empty n rs"
  by (simp add: packet_step_def finish_send_def test_input_def new_flow_def end_packet_def set_cell_def fun_upd_idem)

text \<open>The receiver begins to wait, takes the answer, packs it and sends it.\<close>

lemma receiver_relays:
  assumes "alive (h a)" "endpoint (h a) = Some client" "c k = Some (Some (new_flow dest))"
    and "rs k = Some (new_receiver a target dest buffer replied)" "length buffer = RELAY_BUFFER_SIZE"
    and "0 < timeout" "timeout \<le> mx" "length payload \<le> 65513"
  obtains buffer' where "length buffer' = RELAY_BUFFER_SIZE"
    and "answered mx timeout 0 payload k (relay_at h r c m ps n rs) =
     (relay_at h r c m ps n (rs(k \<mapsto> new_receiver a target dest buffer' True)),
      Some (encode_datagram dest payload, client))"
proof -
  let ?at = "\<lambda>rc. relay_at h r c m ps n (rs(k \<mapsto> rc))"
  let ?step = "receiver_step mx timeout None 0"
  note same = cell_same [of c k, OF assms(3)]
  obtain b l where b: "receive_into buffer payload = (b, l)"
    by (cases "receive_into buffer payload")
  have p: "length b = RELAY_BUFFER_SIZE" "22 + l \<le> length b" "take l (drop 22 b) = payload"
    using receive_into_parts [OF b] assms(5,8) by (simp_all add: RELAY_BUFFER_SIZE_def)
  obtain b' where b': "pack_reply b l dest = Some (b', encode_datagram dest payload)" "length b' = RELAY_BUFFER_SIZE"
    using pack_reply_eq [OF p(2), of dest] p by auto
  have 1: "fst (?step Flow_stopped k (relay_at h r c m ps n rs)) =
      ?at ((new_receiver a target dest buffer replied)\<lparr>r_stage := Waiting\<rparr>)"
    using assms same by (simp add: receiver_step_defs new_receiver_def set_cell_def) (simp add: new_flow_def)
  have 2: "fst (?step (Received_reply payload) k (?at ((new_receiver a target dest buffer replied)\<lparr>r_stage := Waiting\<rparr>))) =
      ?at ((new_receiver a target dest b True)\<lparr>r_stage := Answering l\<rparr>)"
    using assms same by (simp add: receiver_step_defs receive_event_def new_receiver_def set_cell_def b) (simp add: new_flow_def)
  have 3: "fst (?step Flow_stopped k (?at ((new_receiver a target dest b True)\<lparr>r_stage := Answering l\<rparr>))) =
      ?at ((new_receiver a target dest b' True)\<lparr>r_stage := Replying (encode_datagram dest payload) client\<rparr>)"
    using assms same by (simp add: receiver_step_defs receive_answer_def new_receiver_def set_cell_def b')
  have "?step Flow_stopped k (?at ((new_receiver a target dest b' True)\<lparr>r_stage := Replying (encode_datagram dest payload) client\<rparr>)) =
      (?at (new_receiver a target dest b' True), Some (encode_datagram dest payload, client))"
    using assms same by (simp add: receiver_step_defs answer_sent_def new_receiver_def set_cell_def)
  then show thesis
    by (intro that [OF b'(2)]) (simp only: answered_def Let_def 1 2 3)
qed

lemma echoed_first:
  assumes d: "wl_allows (cfg_whitelist cfg) (sock_ip client)"
      "parse_datagram (take RELAY_BUFFER_SIZE packet) = Inr (target, payload)"
      "reg_find client (h, r) = (Some a, h', r')"
    and a: "alive (h' a)" "endpoint (h' a) = Some client" "flows (h' a) = Map.empty"
    and l: "dns_lookup (\<lambda>_. Inr ips) target = Inr [dest]"
    and t: "0 < unat (cfg_udp_timeout cfg)" "unat (cfg_udp_timeout cfg) \<le> mx" "length payload \<le> 65513"
  obtains buffer where "length buffer = RELAY_BUFFER_SIZE"
    and "echoed mx cfg (test_input ips) client packet (relay_at h r c m Map.empty n Map.empty) =
      (relay_at (h'(a := (h' a)\<lparr>flows := [target \<mapsto> m]\<rparr>)) r' (c(m := Some (Some (new_flow dest)))) (Suc m)
         Map.empty (Suc n) [m \<mapsto> new_receiver a target dest buffer True],
       Some (payload, dest), Some (encode_datagram dest payload, client))"
proof -
  let ?h = "h'(a := (h' a)\<lparr>flows := [target \<mapsto> m]\<rparr>)" and ?c = "c(m := Some (Some (new_flow dest)))"
  let ?rs = "[m \<mapsto> new_receiver a target dest (replicate RELAY_BUFFER_SIZE 0) False]"
  have i: "in_now (test_input ips) = 0" by (simp add: test_input_def)
  have "alive (?h a)" "endpoint (?h a) = Some client" "?c m = Some (Some (new_flow dest))"
    "?rs m = Some (new_receiver a target dest (replicate RELAY_BUFFER_SIZE 0) False)"
    "length (replicate RELAY_BUFFER_SIZE (0 :: u8)) = RELAY_BUFFER_SIZE"
    using a by (simp_all del: replicate.simps)
  from receiver_relays [where h = ?h and c = ?c and rs = ?rs, OF this t] obtain buffer where
    b: "length buffer = RELAY_BUFFER_SIZE"
      "answered mx (unat (cfg_udp_timeout cfg)) 0 payload m (relay_at ?h r' ?c (Suc m) Map.empty (Suc n) ?rs) =
       (relay_at ?h r' ?c (Suc m) Map.empty (Suc n) (?rs(m \<mapsto> new_receiver a target dest buffer True)),
        Some (encode_datagram dest payload, client))"
    by blast
  show thesis
    by (rule that [OF b(1)])
      (simp add: echoed_def Let_def i datagram_task [OF d] task_opens_flow [where h = h', OF l a(1,3)] sends_def
        task_sends b(2) [unfolded fun_upd_upd] del: replicate.simps One_nat_def)
qed


lemma echoed_again:
  assumes d: "wl_allows (cfg_whitelist cfg) (sock_ip client)"
      "parse_datagram (take RELAY_BUFFER_SIZE packet) = Inr (target, payload)"
      "reg_find client (h, r) = (Some a, h', r')"
    and a: "alive (h' a)" "endpoint (h' a) = Some client" "flows (h' a) target = Some k"
    and f: "c k = Some (Some (new_flow dest))"
      "rs k = Some (new_receiver a target dest buffer replied)" "length buffer = RELAY_BUFFER_SIZE"
    and t: "0 < unat (cfg_udp_timeout cfg)" "unat (cfg_udp_timeout cfg) \<le> mx" "length payload \<le> 65513"
  obtains s where "echoed mx cfg (test_input ips) client packet (relay_at h r c m Map.empty n rs) =
      (s, Some (payload, dest), Some (encode_datagram dest payload, client))"
proof -
  have i: "in_now (test_input ips) = 0" by (simp add: test_input_def)
  obtain buffer' where
    "answered mx (unat (cfg_udp_timeout cfg)) 0 payload k (relay_at h' r' c m Map.empty (Suc n) rs) =
       (relay_at h' r' c m Map.empty (Suc n) (rs(k \<mapsto> new_receiver a target dest buffer' True)),
        Some (encode_datagram dest payload, client))"
    using receiver_relays [where h = h' and c = c and rs = rs, OF a(1,2) f t] by blast
  then show thesis
    by (intro that) (simp add: echoed_def Let_def i datagram_task [OF d] task_finds_flow [where h = h' and c = c, OF a(1,3) f(1)]
        sends_def task_sends f(1) del: One_nat_def)
qed

lemma echoed_dropped:
  assumes "reg_find client (h, r) = (None, h, r)"
  shows "echoed mx cfg inp client packet (relay_at h r c m Map.empty n rs) =
    (relay_at h r c m Map.empty n rs, None, None)"
proof -
  let ?s = "relay_at h r c m Map.empty n rs"
  have d: "udp_datagram cfg True client packet ?s = ?s"
    using assms by (auto simp: udp_datagram_def split: sum.splits)
  have "to_send k inp i ?s = ?s" for k i
    by (induction k) (simp_all add: packet_step_def sends_def)
  then show ?thesis
    by (simp add: echoed_def Let_def d)
qed

section \<open>The control connection\<close>

lemma open_control_eq:
  assumes "valid_credentials (cfg_username cfg) (cfg_password cfg)" "is_unspecified (sock_ip req)"
    and "bytes = greeting [selected_method cfg] @ auth_message cfg @ encode_address [5, UDP_ASSOCIATE, 0] req"
    and "associate_register 0 1 (new_association (sock_ip client) (sock_port req)) (assocs s, reg s) = (True, h, r)"
  shows "open_control cfg (Inr udp) (control_stream local client bytes) s =
    Some (auth_answer cfg @ encode_address [5, SUCCESS, 0] (sock_new (normalize_ip (sock_ip local)) (sock_port udp)),
      s\<lparr>assocs := h, reg := r\<rparr>)"
proof -
  let ?c = "control_stream local client bytes" and ?c1 = "wrote ((control_stream local client bytes)\<lparr>rx := []\<rparr>) (auth_answer cfg)"
  have rx: "rx ?c = greeting [selected_method cfg] @ auth_message cfg @ [5, UDP_ASSOCIATE, 0] @ encode_address [] req @ []"
    using encode_address_wire [of "[5, UDP_ASSOCIATE, 0]" req] by (simp add: control_stream_def assms(3))
  have "handle_handshake cfg ?c = (Return (Do_associate (target_from req)), ?c1)"
    unfolding handle_handshake_iff [OF assms(1) dispatched.simps(2)]
    using rx target_wire_from [of req] wf_target_from [of req]
    by (auto simp: room_def control_stream_def slice_reader_def wrote_def counted_def intro!: exI [of _ "[selected_method cfg]"])
  moreover have "associate_relay (Inr udp) (target_from req) ?c1 =
      (Return (sock_new (normalize_ip (sock_ip local)) (sock_port udp), sock_ip client), ?c1)"
    using assms(2) by (simp add: associate_relay_def io_bind_def peer_addr_def local_addr_def io_return_simps target_from_def
        control_stream_def wrote_def)
  ultimately show ?thesis
    using assms(4)
    by (simp add: open_control_def associate_def target_from_def write_reply_async_def write_all_free control_loop_eq
        control_stream_def wrote_def slice_reader_def)
qed

section \<open>The registry of one client\<close>

definition one_entry :: "registry \<Rightarrow> registry" where
  "one_entry r = r\<lparr>entries := [1 \<mapsto> 0]\<rparr>"

lemma first_registration:
  "associate_register 0 1 (new_association ip port) (h, reg_default) =
    (True, h(0 := new_association ip port),
     if port = 0 then one_entry (reg_default\<lparr>pending := [normalize_ip ip \<mapsto> 1]\<rparr>)
     else one_entry (reg_default\<lparr>endpoints := [sock_new (normalize_ip ip) port \<mapsto> 1]\<rparr>))"
  by (simp add: associate_register_def reg_insert_def reg_default_def new_association_def one_entry_def Let_def)

definition bound_registry :: "socket_addr \<Rightarrow> registry" where
  "bound_registry client = one_entry (reg_default\<lparr>endpoints := [endpoint_key client \<mapsto> 1]\<rparr>)"

definition bound_association :: "socket_addr \<Rightarrow> u16 \<Rightarrow> association" where
  "bound_association client port = (new_association (sock_ip client) port)\<lparr>endpoint := Some client\<rparr>"

lemma first_lookup:
  assumes "associate_register 0 1 (new_association (sock_ip client) port) (h, reg_default) = (True, h', r)"
    and "port = 0 \<or> port = sock_port client"
  shows "reg_find client (h', r) = (Some 0, h'(0 := bound_association client port), bound_registry client)"
  using assms unfolding first_registration
  by (auto simp: reg_find_def one_entry_def reg_default_def accepts_def new_association_def bound_registry_def
      bound_association_def endpoint_key_def Let_def)

lemma next_lookup:
  assumes "port = 0 \<or> port = sock_port client" "h 0 = (bound_association client port)\<lparr>flows := fs\<rparr>"
  shows "reg_find client (h, bound_registry client) = (Some 0, h, bound_registry client)"
proof -
  have "h(0 := h 0) = h" by simp
  then show ?thesis
    using assms by (auto simp: reg_find_def one_entry_def accepts_def bound_association_def new_association_def
        bound_registry_def reg_default_def Let_def)
qed

lemma last_lookup:
  assumes "h 0 = (bound_association client 0)\<lparr>flows := fs\<rparr>"
  obtains h' r' where "close_control (relay_at h (bound_registry client) c m ps n rs) = relay_at h' r' c m ps n rs"
    and "reg_find client (h', r') = (None, h', r')"
  using assms
  by (simp add: close_control_def associate_close_def Let_def reg_remove_def bound_registry_def one_entry_def
      bound_association_def new_association_def reg_default_def reg_find_def)

lemma no_lookup: "reg_find client (h, reg_default) = (None, h, reg_default)"
  by (simp add: reg_find_def reg_default_def Let_def)

section \<open>The tests\<close>

text \<open>
  \<open>udp_requires_live_association_and_relays_replies\<close>: a packet without an association gets no
  answer and reaches nobody; with one it is sent and answered; when the control connection is
  closed it reaches nobody again. The server sees its clients at IPv4-mapped addresses.
\<close>

definition udp_requires_live_association_and_relays_replies :: "nat \<Rightarrow> u16 \<Rightarrow> u16 \<Rightarrow> u16 \<Rightarrow> u16 \<Rightarrow> bool" where
  "udp_requires_live_association_and_relays_replies max_instant proxy_port control_port client_port remote_port \<longleftrightarrow>
     (case (start_server [] [] ''127.0.0.1'', parse_sock ''0.0.0.0:0'') of
        (Some cfg, Some any) \<Rightarrow>
          (let destination = SockV4 0x7F000001 remote_port;
               client = SockV6 0xFFFF7F000001 client_port 0 0;
               packet = encode_datagram destination (as_bytes ''udp-ok'');
               exchange = echoed max_instant cfg (test_input []) client packet;
               (s, probed, answered) = exchange relay_new;
               control = control_stream (SockV6 0xFFFF7F000001 proxy_port 0 0) (SockV6 0xFFFF7F000001 control_port 0 0)
                 ([5, 1, 0] @ encode_address [5, UDP_ASSOCIATE, 0] any) in
           probed = None \<and> answered = None \<and>
           (case open_control cfg (Inr (SockV6 0 proxy_port 0 0)) control s of
              None \<Rightarrow> False
            | Some (written, s) \<Rightarrow>
                (let reply = drop 2 written;
                     (s, received, response) = exchange s;
                     (s, after, _) = exchange (close_control s) in
                 take 2 written = [5, 0] \<and> length reply = 10 \<and> reply ! 1 = SUCCESS \<and>
                 port_of_bytes (drop 8 reply) = proxy_port \<and>
                 received = Some (as_bytes ''udp-ok'', destination) \<and>
                 (case response of
                    None \<Rightarrow> False
                  | Some (bytes, to) \<Rightarrow>
                      to = client \<and>
                      parse_datagram bytes =
                        Inr (\<lparr>t_host = Ip (sock_ip destination), t_port = sock_port destination\<rparr>, as_bytes ''udp-ok'')) \<and>
                 after = None)))
      | _ \<Rightarrow> False)"

definition udp_relay_supports_ipv6 :: "nat \<Rightarrow> u16 \<Rightarrow> u16 \<Rightarrow> u16 \<Rightarrow> u16 \<Rightarrow> bool" where
  "udp_relay_supports_ipv6 max_instant proxy_port control_port client_port remote_port \<longleftrightarrow>
     (case start_server [] [] ''::1'' of
        None \<Rightarrow> False
      | Some cfg \<Rightarrow>
          (let destination = SockV6 1 remote_port 0 0;
               client = SockV6 1 client_port 0 0;
               request = [5, UDP_ASSOCIATE, 0, 4] @ replicate 18 0;
               control = control_stream (SockV6 1 proxy_port 0 0) (SockV6 1 control_port 0 0) ([5, 1, 0] @ request) in
           case open_control cfg (Inr (SockV6 0 proxy_port 0 0)) control relay_new of
             None \<Rightarrow> False
           | Some (written, s) \<Rightarrow>
               (let reply = drop 2 written;
                    (s, _, response) = echoed max_instant cfg (test_input []) client
                      (encode_datagram destination (as_bytes ''v6-ok'')) s in
                take 2 written = [5, 0] \<and> length reply = 22 \<and> reply ! 1 = SUCCESS \<and>
                port_of_bytes (drop 20 reply) = proxy_port \<and>
                (case response of
                   None \<Rightarrow> False
                 | Some (bytes, to) \<Rightarrow>
                     to = client \<and> map_sum id snd (parse_datagram bytes) = Inr (as_bytes ''v6-ok'')))))"

text \<open>
  The test of the client against the server. The two ends of the control connection are
  joined: the server answers to what the client wrote, with the bytes the client read. The
  packet is the one that \<open>send\<close> hands to the socket. \<open>lookup\<close> is the resolver's answer for
  the name of the target, which is the address in text form.
\<close>

definition client_start_server :: "config option" where
  "client_start_server = start_server ''admin'' ''secret'' ''127.0.0.1''"

definition client_exchanges :: "nat \<Rightarrow> config \<Rightarrow> udp_association \<Rightarrow> socket_addr \<Rightarrow> socket_addr \<Rightarrow> relay \<Rightarrow> relay \<times> bool" where
  "client_exchanges max_instant cfg association client destination s =
     (let packet = snd (append_datagram_to [] (ua_target association) (as_bytes ''hello''));
          socket_send = (\<lambda>bytes. if bytes = packet then Inr (length bytes) else Inl (IoError OtherKind (Message EmptyDatagram)));
          (s, _, response) = echoed max_instant cfg (test_input [IpV4 0x7F000001]) client packet s in
      (s, udp_send socket_send association (as_bytes ''hello'') = Inr 5 \<and>
       (case response of
          None \<Rightarrow> False
        | Some (bytes, to) \<Rightarrow>
            to = client \<and>
            (case udp_recv (Inr bytes) (replicate 100 0) of
               (Inr (n, source), payload) \<Rightarrow> take n payload = as_bytes ''hello'' \<and> source = target_from destination
             | _ \<Rightarrow> False))))"

definition client_associates_and_exchanges_udp :: "nat \<Rightarrow> u16 \<Rightarrow> u16 \<Rightarrow> u16 \<Rightarrow> u16 \<Rightarrow> bool" where
  "client_associates_and_exchanges_udp max_instant proxy_port control_port client_port remote_port \<longleftrightarrow>
     (let destination = SockV4 0x7F000001 remote_port;
          target = \<lparr>t_host = Domain ''127.0.0.1'', t_port = sock_port destination\<rparr>;
          answers = [5, 2, 1, 0] @ encode_address [5, SUCCESS, 0] (SockV4 0x7F000001 proxy_port);
          stream = (slice_reader answers)
            \<lparr>c_local := Inr (SockV4 0x7F000001 control_port), c_peer := Inr (SockV4 0x7F000001 proxy_port)\<rparr>;
          udp_bind = (\<lambda>bind. Inr \<lparr>us_local = Inr (sock_new (sock_ip bind) client_port),
            us_connect = (\<lambda>_. Inr ()), us_opt = Inr ()\<rparr>);
          source = SockV6 0xFFFF7F000001 client_port 0 0 in
      case (client_start_server, client_new ''127.0.0.1'' ''admin'' ''secret'') of
        (Some cfg, Inr client) \<Rightarrow>
          (case client_associate (\<lambda>_ _. Inr []) udp_bind client target stream of
             (Return association, stream) \<Rightarrow>
               (case open_control cfg (Inr (SockV6 0 proxy_port 0 0))
                   (control_stream (SockV6 0xFFFF7F000001 proxy_port 0 0) (SockV6 0xFFFF7F000001 control_port 0 0) (tx stream))
                   relay_new of
                  None \<Rightarrow> False
                | Some (written, s) \<Rightarrow>
                    (let exchange = client_exchanges max_instant cfg association source destination;
                         (s, first) = exchange s; (s, second) = exchange s in
                     written = answers \<and> first \<and> second))
           | _ \<Rightarrow> False)
      | _ \<Rightarrow> False)"


section \<open>They pass\<close>

lemma test_packet:
  assumes "payload \<noteq> []" "length payload \<le> 1000"
  shows "parse_datagram (encode_datagram a payload) = Inr (target_from a, payload)"
    and "parse_datagram (take RELAY_BUFFER_SIZE (encode_datagram a payload)) = Inr (target_from a, payload)"
    and "dns_lookup f (target_from a) = Inr [sock_new (sock_ip a) (sock_port a)]"
proof -
  have "length (encode_datagram a payload) \<le> RELAY_BUFFER_SIZE"
    using assms(2) length_encode_address [of a] datagram_header_len_le [of a]
    by (simp add: encode_datagram_wire RELAY_BUFFER_SIZE_def)
  then show "parse_datagram (encode_datagram a payload) = Inr (target_from a, payload)"
    "parse_datagram (take RELAY_BUFFER_SIZE (encode_datagram a payload)) = Inr (target_from a, payload)"
    using assms(1) by (simp_all add: parse_datagram_iff encode_datagram_from)
qed (simp add: dns_lookup_def target_from_def)

lemma test_reply:
  "length (encode_address [5, k, 0] (SockV4 a p)) = 10" "encode_address [5, k, 0] (SockV4 a p) ! 1 = k"
  "port_of_bytes (drop 8 (encode_address [5, k, 0] (SockV4 a p))) = p"
  "length (encode_address [5, k, 0] (SockV6 b p f g)) = 22" "encode_address [5, k, 0] (SockV6 b p f g) ! 1 = k"
  "port_of_bytes (drop 20 (encode_address [5, k, 0] (SockV6 b p f g))) = p"
  by (simp_all add: encode_address_def)

lemma test_answers:
  assumes "start_server [] [] w = Some cfg"
  shows "valid_credentials (cfg_username cfg) (cfg_password cfg)"
    and "greeting [selected_method cfg] @ auth_message cfg @ bs = [5, 1, 0] @ bs" and "auth_answer cfg = [5, 0]"
    and "unat (cfg_udp_timeout cfg) = 3"
proof -
  have c: "cfg_username cfg = []" "cfg_password cfg = []" "cfg_udp_timeout cfg = 3"
    using assms by (auto simp: start_server_def start_server_with_timeout_def split: sum.splits option.splits)
  then show "valid_credentials (cfg_username cfg) (cfg_password cfg)" "auth_answer cfg = [5, 0]"
    "greeting [selected_method cfg] @ auth_message cfg @ bs = [5, 1, 0] @ bs" "unat (cfg_udp_timeout cfg) = 3"
    by (simp_all add: valid_credentials_def auth_answer_def selected_method_def greeting_def auth_message_def)
qed

lemma test_ok: "as_bytes ''udp-ok'' \<noteq> []" "length (as_bytes ''udp-ok'') \<le> 1000"
  "as_bytes ''v6-ok'' \<noteq> []" "length (as_bytes ''v6-ok'') \<le> 1000"
  by (simp_all add: as_bytes_def)

text \<open>A client without a password opens its control connection and has one packet relayed.\<close>

lemma relayed_once:
  assumes cfg: "start_server [] [] w = Some cfg" and wl: "wl_allows (cfg_whitelist cfg) (sock_ip client)"
    and "sock_ip control = sock_ip client" "is_unspecified (sock_ip req)" "sock_port req = 0"
    and pay: "payload \<noteq> []" "length payload \<le> 1000" and dest: "sock_new (sock_ip dest) (sock_port dest) = dest"
    and "3 \<le> mx"
  obtains s h c m n rs fs where
    "open_control cfg (Inr udp) (control_stream local control ([5, 1, 0] @ encode_address [5, UDP_ASSOCIATE, 0] req)) relay_new =
       Some ([5, 0] @ encode_address [5, SUCCESS, 0] (sock_new (normalize_ip (sock_ip local)) (sock_port udp)), s)"
    and "echoed mx cfg (test_input []) client (encode_datagram dest payload) s =
      (relay_at h (bound_registry client) c m Map.empty n rs, Some (payload, dest), Some (encode_datagram dest payload, client))"
    and "h 0 = (bound_association client 0)\<lparr>flows := fs\<rparr>"
proof -
  let ?h = "(\<lambda>_. new_association (IpV4 0) 0)(0 := new_association (sock_ip client) 0)"
  let ?h' = "?h(0 := bound_association client 0)"
  define r where "r = one_entry (reg_default\<lparr>pending := [normalize_ip (sock_ip client) \<mapsto> 1]\<rparr>)"
  have reg: "associate_register 0 1 (new_association (sock_ip client) 0) (assocs relay_new, reg relay_new) = (True, ?h, r)"
    by (simp add: first_registration relay_new_def r_def)
  then have open_s: "open_control cfg (Inr udp)
      (control_stream local control ([5, 1, 0] @ encode_address [5, UDP_ASSOCIATE, 0] req)) relay_new =
    Some ([5, 0] @ encode_address [5, SUCCESS, 0] (sock_new (normalize_ip (sock_ip local)) (sock_port udp)),
      relay_at ?h r (\<lambda>_. None) 0 Map.empty 0 Map.empty)"
    using assms(3-5) test_answers [OF cfg] by (subst open_control_eq [of cfg req]) (simp_all add: relay_new_def)
  have f: "reg_find client (?h, r) = (Some 0, ?h', bound_registry client)"
    using reg by (intro first_lookup) (simp_all add: relay_new_def)
  have a: "alive (?h' 0)" "endpoint (?h' 0) = Some client" "flows (?h' 0) = Map.empty"
    by (simp_all add: bound_association_def new_association_def)
  have l: "dns_lookup (\<lambda>_. Inr []) (target_from dest) = Inr [dest]"
    using test_packet(3) [OF pay, of _ dest] dest by simp
  have t: "0 < unat (cfg_udp_timeout cfg)" "unat (cfg_udp_timeout cfg) \<le> mx" "length payload \<le> 65513"
    using test_answers(4) [OF cfg] assms(7,9) by simp_all
  obtain buffer where "length buffer = RELAY_BUFFER_SIZE" and
    "echoed mx cfg (test_input []) client (encode_datagram dest payload) (relay_at ?h r (\<lambda>_. None) 0 Map.empty 0 Map.empty) =
      (relay_at (?h'(0 := (?h' 0)\<lparr>flows := [target_from dest \<mapsto> 0]\<rparr>)) (bound_registry client)
         ((\<lambda>_. None)(0 := Some (Some (new_flow dest)))) (Suc 0)
         Map.empty (Suc 0) [0 \<mapsto> new_receiver 0 (target_from dest) dest buffer True],
       Some (payload, dest), Some (encode_datagram dest payload, client))"
    by (rule echoed_first [where h' = ?h' and a = 0 and c = "\<lambda>_. None" and m = 0 and n = 0, OF wl test_packet(2) [OF pay] f a l t]) (use that in simp)
  note echo = this(2)
  show thesis
    by (rule that [where fs = "[target_from dest \<mapsto> 0]", OF open_s echo]) simp
qed

lemma test_requires:
  "udp_requires_live_association_and_relays_replies (1000 + n) proxy_port control_port client_port remote_port"
proof -
  let ?dest = "SockV4 0x7F000001 remote_port" and ?client = "SockV6 0xFFFF7F000001 client_port 0 0"
  let ?packet = "encode_datagram ?dest (as_bytes ''udp-ok'')"
  have any: "parse_sock ''0.0.0.0:0'' = Some (SockV4 0 0)"
    by (simp add: ip_eval)
  obtain cfg where cfg: "start_server [] [] ''127.0.0.1'' = Some cfg"
    and wl: "wl_allows (cfg_whitelist cfg) (sock_ip ?client)"
    by (simp add: start_server_def test_servers wl_allows_def wl_is_empty_def normalize_def to_ipv4_mapped_def)
  obtain s h c m k rs fs where run:
    "open_control cfg (Inr (SockV6 0 proxy_port 0 0)) (control_stream (SockV6 0xFFFF7F000001 proxy_port 0 0)
       (SockV6 0xFFFF7F000001 control_port 0 0) ([5, 1, 0] @ encode_address [5, UDP_ASSOCIATE, 0] (SockV4 0 0))) relay_new =
       Some ([5, 0] @ encode_address [5, SUCCESS, 0] (SockV4 0x7F000001 proxy_port), s)"
    "echoed (1000 + n) cfg (test_input []) ?client ?packet s =
      (relay_at h (bound_registry ?client) c m Map.empty k rs, Some (as_bytes ''udp-ok'', ?dest), Some (?packet, ?client))"
    "h 0 = (bound_association ?client 0)\<lparr>flows := fs\<rparr>"
    using relayed_once [OF cfg wl _ _ _ test_ok(1,2), of "SockV6 0xFFFF7F000001 control_port 0 0" "SockV4 0 0" ?dest "1000 + n"
        "SockV6 0 proxy_port 0 0" "SockV6 0xFFFF7F000001 proxy_port 0 0"]
    by (simp add: test_keys) blast
  have before: "echoed (1000 + n) cfg (test_input []) ?client ?packet relay_new = (relay_new, None, None)"
    unfolding relay_new_def by (rule echoed_dropped [OF no_lookup])
  obtain h' r' where close: "close_control (relay_at h (bound_registry ?client) c m Map.empty k rs) = relay_at h' r' c m Map.empty k rs"
    and "reg_find ?client (h', r') = (None, h', r')"
    using last_lookup [of h, OF run(3)] by blast
  from echoed_dropped [OF this(2)] show ?thesis
    unfolding udp_requires_live_association_and_relays_replies_def
    by (simp add: cfg any before run(1) [simplified] run(2) close test_reply [unfolded One_nat_def] test_packet(1) [OF test_ok(1,2)] target_from_def Let_def)
qed

lemma test_relay_ipv6:
  "udp_relay_supports_ipv6 (1000 + n) proxy_port control_port client_port remote_port"
proof -
  let ?dest = "SockV6 1 remote_port 0 0" and ?client = "SockV6 1 client_port 0 0"
  let ?packet = "encode_datagram ?dest (as_bytes ''v6-ok'')"
  obtain cfg where cfg: "start_server [] [] ''::1'' = Some cfg"
    and wl: "wl_allows (cfg_whitelist cfg) (sock_ip ?client)"
    by (simp add: start_server_def test_servers wl_allows_def wl_is_empty_def normalize_def to_ipv4_mapped_def)
  have "replicate 18 (0 :: u8) = [0, 0, 0, 0, 0, 0, 0, 0, 0, 0, 0, 0, 0, 0, 0, 0, 0, 0]"
    by (simp add: numeral_eq_Suc)
  then have req: "[5, UDP_ASSOCIATE, 0, 4] @ replicate 18 0 = encode_address [5, UDP_ASSOCIATE, 0] (SockV6 0 0 0 0)"
    by (simp add: encode_address_def v6_octets_def port_bytes_def be_bytes_numeral)
  obtain s h c m k rs fs where run:
    "open_control cfg (Inr (SockV6 0 proxy_port 0 0)) (control_stream (SockV6 1 proxy_port 0 0)
       (SockV6 1 control_port 0 0) ([5, 1, 0] @ encode_address [5, UDP_ASSOCIATE, 0] (SockV6 0 0 0 0))) relay_new =
       Some ([5, 0] @ encode_address [5, SUCCESS, 0] (SockV6 1 proxy_port 0 0), s)"
    "echoed (1000 + n) cfg (test_input []) ?client ?packet s =
      (relay_at h (bound_registry ?client) c m Map.empty k rs, Some (as_bytes ''v6-ok'', ?dest), Some (?packet, ?client))"
    "h 0 = (bound_association ?client 0)\<lparr>flows := fs\<rparr>"
    using relayed_once [OF cfg wl _ _ _ test_ok(3,4), of "SockV6 1 control_port 0 0" "SockV6 0 0 0 0" ?dest "1000 + n"
        "SockV6 0 proxy_port 0 0" "SockV6 1 proxy_port 0 0"]
    by (simp add: normalize_ip_def to_ipv4_mapped_def) blast
  show ?thesis
    unfolding udp_relay_supports_ipv6_def req
    by (simp add: cfg run(1) [simplified] run(2) test_reply [unfolded One_nat_def] test_packet(1) [OF test_ok(3,4)] Let_def)
qed


lemma test_hello: "as_bytes ''hello'' \<noteq> []" "length (as_bytes ''hello'') = 5"
  by (simp_all add: as_bytes_def)

lemma appended:
  assumes "wf_target t"
  shows "\<exists>packet. append_datagram_to [] t payload = (Inr (), packet) \<and> encode_datagram_to t payload = Inr packet"
proof -
  obtain bs where "target_wire t = Some bs"
    using tgt.wire_wf [OF assms] by blast
  then have "encode_datagram_to t payload = Inr ([0, 0, 0] @ bs @ payload)"
    by (simp add: encode_datagram_to_wire)
  then show ?thesis
    by (auto simp: encode_datagram_to_def split: prod.splits sum.splits)
qed

text \<open>The packet of the client's \<open>send\<close>, and what \<open>recv\<close> makes of the answer.\<close>

lemma client_exchanges_eq:
  assumes "wf_target (ua_target ua)" "packet = snd (append_datagram_to [] (ua_target ua) (as_bytes ''hello''))"
    and "echoed mx cfg (test_input [IpV4 0x7F000001]) client packet s =
      (s', Some (as_bytes ''hello'', dest), Some (encode_datagram dest (as_bytes ''hello''), client))"
  shows "client_exchanges mx cfg ua client dest s = (s', True)"
proof -
  have app: "append_datagram_to [] (ua_target ua) (as_bytes ''hello'') = (Inr (), packet)"
    using appended [OF assms(1), of "as_bytes ''hello''"] assms(2) by auto
  have "length (encode_datagram dest (as_bytes ''hello'')) \<le> UDP_BUFFER_SIZE"
    using length_encode_address [of dest] datagram_header_len_le [of dest]
    by (simp add: encode_datagram_wire UDP_BUFFER_SIZE_def test_hello)
  then have "udp_recv (Inr (encode_datagram dest (as_bytes ''hello''))) (replicate 100 0) =
      (Inr (5, target_from dest), as_bytes ''hello'' @ replicate 95 0)"
    using test_packet(1) [OF test_hello(1), of dest]
    by (simp add: udp_recv_def test_hello del: replicate.simps)
  then show ?thesis
    using assms(3) unfolding client_exchanges_def app
    by (simp add: udp_send_def app test_hello del: replicate.simps)
qed


text \<open>The two ends of the control connection.\<close>

lemma client_associates:
  fixes proxy_port control_port client_port :: u16
  defines "answers \<equiv> [5, 2, 1, 0] @ encode_address [5, SUCCESS, 0] (SockV4 0x7F000001 proxy_port)"
    and "socket \<equiv> \<lparr>us_local = Inr (SockV4 0 client_port), us_connect = (\<lambda>_. Inr ()), us_opt = Inr ()\<rparr>"
  assumes "client_new ''127.0.0.1'' ''admin'' ''secret'' = Inr client"
  obtains stream association where
    "client_associate (\<lambda>_ _. Inr [])
       (\<lambda>bind. Inr \<lparr>us_local = Inr (sock_new (sock_ip bind) client_port), us_connect = (\<lambda>_. Inr ()), us_opt = Inr ()\<rparr>)
       client target ((slice_reader answers)
         \<lparr>c_local := Inr (SockV4 0x7F000001 control_port), c_peer := Inr (SockV4 0x7F000001 proxy_port)\<rparr>) =
      (Return association, stream)"
    and "ua_target association = target"
    and "tx stream = greeting [selected_method test_config] @ auth_message test_config @
      encode_address [5, UDP_ASSOCIATE, 0] (SockV4 0 client_port)"
proof -
  let ?c = "(slice_reader answers)
    \<lparr>c_local := Inr (SockV4 0x7F000001 control_port), c_peer := Inr (SockV4 0x7F000001 proxy_port)\<rparr>"
  have same: "same_credentials client test_config"
    using assms(3) by (auto simp: client_new_Inr same_credentials_def test_credentials)
  have "client_associate (\<lambda>_ _. Inr [])
       (\<lambda>bind. Inr \<lparr>us_local = Inr (sock_new (sock_ip bind) client_port), us_connect = (\<lambda>_. Inr ()), us_opt = Inr ()\<rparr>)
       client target ?c =
    (if SUCCESS = SUCCESS then Return \<lparr>ua_socket = socket, ua_target = target,
        ua_relay = relay_of (SockV4 0x7F000001 proxy_port) (SockV4 0x7F000001 proxy_port)\<rparr>
     else Raise (IoError OtherKind (Message (RequestFailed SUCCESS))),
     wrote (?c\<lparr>rx := []\<rparr>) (client_hello client @ encode_address [5, UDP_ASSOCIATE, 0]
       (declared (SockV4 0x7F000001 control_port) (SockV4 0 client_port))))"
    by (rule client_associate_eq)
      (simp_all add: slice_reader_def client_unspecified_def socket_def answers_def matching [OF same] test_credentials)
  from this [unfolded simp_thms if_True] show thesis
    by (rule that) (simp_all add: matching [OF same] wrote_def declared_def client_unspecified_def)
qed

lemma test_hello_packet:
  assumes "ua_target ua = \<lparr>t_host = Domain ''127.0.0.1'', t_port = port\<rparr>"
  shows "wf_target (ua_target ua)"
    and "parse_datagram (take RELAY_BUFFER_SIZE (snd (append_datagram_to [] (ua_target ua) (as_bytes ''hello'')))) =
      Inr (ua_target ua, as_bytes ''hello'')"
    and "dns_lookup (\<lambda>_. Inr [ip]) (ua_target ua) = Inr [sock_new ip port]"
proof -
  show wf: "wf_target (ua_target ua)"
    by (simp add: assms wf_target_def wf_host_def wf_str_ascii byte_of_char_def)
  obtain packet where p: "append_datagram_to [] (ua_target ua) (as_bytes ''hello'') = (Inr (), packet)"
    "encode_datagram_to (ua_target ua) (as_bytes ''hello'') = Inr packet"
    using appended [OF wf] by blast
  then have "length packet = 21"
    by (auto simp: encode_datagram_to_wire target_wire_def host_wire_def assms test_hello)
  then show "parse_datagram (take RELAY_BUFFER_SIZE (snd (append_datagram_to [] (ua_target ua) (as_bytes ''hello'')))) =
      Inr (ua_target ua, as_bytes ''hello'')"
    using wf p test_hello(1) by (simp add: parse_datagram_iff RELAY_BUFFER_SIZE_def)
qed (simp add: assms dns_lookup_def)

text \<open>Two exchanges of an association over one flow.\<close>

lemma test_two_exchanges:
  assumes reg: "associate_register 0 1 (new_association (sock_ip source) port)
      ((\<lambda>_. new_association (IpV4 0) 0), reg_default) = (True, h, r)"
    and port: "port = 0 \<or> port = sock_port source" and wl: "wl_allows (cfg_whitelist cfg) (sock_ip source)"
    and target: "ua_target ua = \<lparr>t_host = Domain ''127.0.0.1'', t_port = remote_port\<rparr>"
    and time: "unat (cfg_udp_timeout cfg) = 3" "3 \<le> mx"
  obtains s s' where
    "client_exchanges mx cfg ua source (SockV4 0x7F000001 remote_port) (relay_at h r (\<lambda>_. None) 0 Map.empty 0 Map.empty) = (s, True)"
    and "client_exchanges mx cfg ua source (SockV4 0x7F000001 remote_port) s = (s', True)"
proof -
  let ?dest = "SockV4 0x7F000001 remote_port" and ?hello = "as_bytes ''hello''"
  let ?packet = "snd (append_datagram_to [] (ua_target ua) ?hello)"
  let ?bound = "bound_association source port"
  let ?h1 = "h(0 := ?bound)" and ?h2 = "h(0 := ?bound, 0 := ((h(0 := ?bound)) 0)\<lparr>flows := [ua_target ua \<mapsto> 0]\<rparr>)"
  let ?c = "(\<lambda>_. None)(0 := Some (Some (new_flow ?dest)))"
  note packet = test_hello_packet [OF target]
  have t: "0 < unat (cfg_udp_timeout cfg)" "unat (cfg_udp_timeout cfg) \<le> mx" "length ?hello \<le> 65513"
    using time by (simp_all add: test_hello)
  have f: "reg_find source (h, r) = (Some 0, ?h1, bound_registry source)"
    using reg port by (rule first_lookup)
  have l: "dns_lookup (\<lambda>_. Inr [IpV4 0x7F000001]) (ua_target ua) = Inr [?dest]"
    using packet(3) [of "IpV4 0x7F000001"] by simp
  have a: "alive (?h1 0)" "endpoint (?h1 0) = Some source" "flows (?h1 0) = Map.empty"
    by (simp_all add: bound_association_def new_association_def)
  obtain buffer where b: "length buffer = RELAY_BUFFER_SIZE" and
    "echoed mx cfg (test_input [IpV4 0x7F000001]) source ?packet (relay_at h r (\<lambda>_. None) 0 Map.empty 0 Map.empty) =
      (relay_at ?h2 (bound_registry source) ?c (Suc 0) Map.empty (Suc 0) [0 \<mapsto> new_receiver 0 (ua_target ua) ?dest buffer True],
       Some (?hello, ?dest), Some (encode_datagram ?dest ?hello, source))"
    by (rule echoed_first [where h' = ?h1 and a = 0 and c = "\<lambda>_. None" and m = 0 and n = 0, OF wl packet(2) f a l t])
      (use that in simp)
  note first = client_exchanges_eq [OF packet(1) refl this(2)]
  have f': "reg_find source (?h2, bound_registry source) = (Some 0, ?h2, bound_registry source)"
    using port by (rule next_lookup) simp
  have a': "alive (?h2 0)" "endpoint (?h2 0) = Some source" "flows (?h2 0) (ua_target ua) = Some 0"
    by (simp_all add: bound_association_def new_association_def)
  obtain s' where "echoed mx cfg (test_input [IpV4 0x7F000001]) source ?packet
      (relay_at ?h2 (bound_registry source) ?c (Suc 0) Map.empty (Suc 0) [0 \<mapsto> new_receiver 0 (ua_target ua) ?dest buffer True]) =
      (s', Some (?hello, ?dest), Some (encode_datagram ?dest ?hello, source))"
    by (rule echoed_again [where h' = ?h2 and h = ?h2 and a = 0 and k = 0 and c = ?c and m = "Suc 0" and n = "Suc 0"
          and rs = "[0 \<mapsto> new_receiver 0 (ua_target ua) ?dest buffer True]",
          OF wl packet(2) f' a' _ _ b t]) (use that in simp_all)
  from client_exchanges_eq [OF packet(1) refl this] show thesis
    by (rule that [OF first])
qed

lemma test_exchanges:
  "client_associates_and_exchanges_udp (1000 + n) proxy_port control_port client_port remote_port"
proof -
  let ?dest = "SockV4 0x7F000001 remote_port" and ?source = "SockV6 0xFFFF7F000001 client_port 0 0"
  let ?target = "\<lparr>t_host = Domain ''127.0.0.1'', t_port = remote_port\<rparr>"
  let ?answers = "[5, 2, 1, 0] @ encode_address [5, SUCCESS, 0] (SockV4 0x7F000001 proxy_port)"
  let ?h = "(\<lambda>_. new_association (IpV4 0) 0)(0 := new_association (sock_ip ?source) client_port)"
  have cfg: "client_start_server = Some test_config"
    by (simp add: client_start_server_def start_server_def test_servers test_config_def)
  have wl: "wl_allows (cfg_whitelist test_config) (sock_ip ?source)"
    by (simp add: test_config_def wl_allows_def wl_is_empty_def normalize_def to_ipv4_mapped_def)
  obtain client where client: "client_new ''127.0.0.1'' ''admin'' ''secret'' = Inr client"
    by (simp add: client_new_def)
  obtain association stream where run:
    "client_associate (\<lambda>_ _. Inr [])
       (\<lambda>bind. Inr \<lparr>us_local = Inr (sock_new (sock_ip bind) client_port), us_connect = (\<lambda>_. Inr ()), us_opt = Inr ()\<rparr>)
       client ?target ((slice_reader ?answers)
         \<lparr>c_local := Inr (SockV4 0x7F000001 control_port), c_peer := Inr (SockV4 0x7F000001 proxy_port)\<rparr>) =
      (Return association, stream)"
    "ua_target association = ?target"
    "tx stream = greeting [selected_method test_config] @ auth_message test_config @
      encode_address [5, UDP_ASSOCIATE, 0] (SockV4 0 client_port)"
    using client_associates [OF client] by blast
  obtain r where reg: "associate_register 0 1 (new_association (sock_ip ?source) client_port)
      ((\<lambda>_. new_association (IpV4 0) 0), reg_default) = (True, ?h, r)"
    using first_registration by blast
  have control: "open_control test_config (Inr (SockV6 0 proxy_port 0 0))
      (control_stream (SockV6 0xFFFF7F000001 proxy_port 0 0) (SockV6 0xFFFF7F000001 control_port 0 0) (tx stream)) relay_new =
    Some (?answers, relay_at ?h r (\<lambda>_. None) 0 Map.empty 0 Map.empty)"
    using reg test_credentials(7)
    by (subst open_control_eq [OF test_credentials(1) _ run(3)]) (simp_all add: relay_new_def test_keys)
  have "unat (cfg_udp_timeout test_config) = 3"
    by (simp add: test_config_def)
  then obtain s s' where
    "client_exchanges (1000 + n) test_config association ?source ?dest (relay_at ?h r (\<lambda>_. None) 0 Map.empty 0 Map.empty) = (s, True)"
    "client_exchanges (1000 + n) test_config association ?source ?dest s = (s', True)"
    using test_two_exchanges [where mx = "1000 + n", OF reg _ wl run(2)] by simp blast
  then show ?thesis
    unfolding client_associates_and_exchanges_udp_def
    by (simp add: cfg client run(1) [simplified] control [simplified] Let_def)
qed

section \<open>The tests hold\<close>

text \<open>22 of the repository's 25 unit tests, translated, hold of the model: the wire format of the requests,
  replies and datagrams of protocol.rs, the whitelists, command lines and files of config.rs,
  the order of the addresses and the races of happy_eyeballs.rs, the registry, the handshakes,
  the idle timeout and the receivers of server.rs, the client's credentials and declared
  port, and the datagrams that clients exchange with a remote socket through the server.
  Where the system chooses a port, an error or the end of the clock, for every choice.\<close>

theorem repository_tests_hold:
  "requests_accept_all_address_types \<and> datagrams_round_trip_and_reject_invalid_headers \<and>
   client_request_and_reply_preserve_domain_target \<and>
   whitelist_matches_addresses_and_networks \<and> zero_bit_prefix_matches_entire_family \<and>
   parses_legacy_arguments \<and> loads_config_file_and_applies_command_line_overrides \<and>
   rejects_invalid_config_files \<and>
   test_interleave_addresses \<and> test_race_connect_single_success port \<and>
   test_race_connect_fallback_to_second_on_failure refusal port \<and>
   udp_registry_matches_ports_and_rejects_ambiguous_pending_associations \<and>
   authentication_and_whitelist_reject_unauthorized_clients port \<and> accepts_ipv6_clients port \<and>
   one_way_tcp_transfer_keeps_idle_connection_alive (1000 + n) \<and>
   closed_udp_association_stops_unlimited_flow max_instant remote \<and>
   outgoing_udp_activity_extends_flow_lifetime (1000 + n) remote \<and>
   rejects_incomplete_credentials \<and> udp_associate_declares_local_port proxy_port port udp_port \<and>
   udp_requires_live_association_and_relays_replies (1000 + n) proxy_port port udp_port remote_port \<and>
   udp_relay_supports_ipv6 (1000 + n) proxy_port port udp_port remote_port \<and>
   client_associates_and_exchanges_udp (1000 + n) proxy_port port udp_port remote_port"
  by (simp only: test_requests test_datagrams test_domain_target test_whitelist test_zero_bits test_legacy
      test_file test_invalid_files test_interleave test_single test_fallback test_registry test_unauthorized
      test_ipv6 test_idle test_closed test_outgoing test_incomplete test_declares
      test_requires test_relay_ipv6 test_exchanges simp_thms)

end
