(* ===== verification/Spec2Isabelle.thy ===== *)
theory Spec2Isabelle
  imports System_Guarantees Udp_Sending Relay_Tests
begin

text \<open>
  A verification library for \<open>brume\<close>, a SOCKS5 proxy server with a client library
  (\<open>src/src\<close>). The server speaks the SOCKS5 handshake on a TCP connection and then relays
  TCP streams (CONNECT) or, while the connection stays open, UDP datagrams (UDP ASSOCIATE).

  \<^bold>\<open>The parts.\<close> In the order of the imports, with the sources they model:

  \<^item> Prelude, Net_Addr, Io, Rust_Str: shared lemmas, the address types of the standard
    library, errors and byte streams, and the string functions the parsers use. Two locales
    that many components share are in Prelude: \<open>invariant_system\<close> (a step relation with an
    invariant) and \<open>bounded_resource\<close> (a set of permits or entries that a step keeps,
    extends below its limit, or trades).
  \<^item> Protocol (\<open>protocol.rs\<close>): the wire format, blocking and asynchronous, and the datagram
    encoders; round trips in both directions.
  \<^item> Ip_Parse, Whitelist, Config (\<open>config.rs\<close>): the whitelist as a set of 128-bit prefixes,
    the command line and the configuration file.
  \<^item> Happy_Eyeballs (\<open>happy_eyeballs.rs\<close>): the interleaving of the addresses and the race as
    a state machine over the events its \<open>select!\<close> waits for.
  \<^item> Dns (\<open>dns.rs\<close>): the lookup around the resolver library, which is a parameter; the
    interface \<open>resolver\<close> is what its clients rely on.
  \<^item> Client (\<open>client.rs\<close>): the client library.
  \<^item> Server_Handshake (\<open>negotiate\<close> and the first half of \<open>handle_client\<close> in \<open>server.rs\<close>).
  \<^item> Registry (\<open>AssociationRegistry\<close>, \<open>Association\<close>): the registry that all tasks share,
    as a step relation \<open>reg_step\<close> with an invariant and a refinement of an abstract table of
    sessions.
  \<^item> Associate (\<open>associate\<close>): the control connection of an association.
  \<^item> Tcp_Relay (\<open>connect\<close>, \<open>forward_bidirectional\<close>, \<open>copy_direction\<close>).
  \<^item> Handler (\<open>handle_client\<close>): handshake, connect and associate composed.
  \<^item> Udp_Relay (\<open>udp_loop\<close>, \<open>handle_udp_packet\<close>, \<open>receive_remote\<close>): the state shared by the
    packet tasks and the receivers, and their steps between two points where another task
    can come in; \<open>udp_step\<close> interleaves them. A receiver looks at the clock, waits, accepts an
    answer, packs it and sends it, each in a step of its own. A flow's mutex can be poisoned by a panic, and
    whoever locks it then panics too. Udp_Flows proves the invariants, Udp_Guarantees draws
    the conclusions and has a run on which they can be seen. A flow's socket is the address
    it is connected to: Udp_Peers shows that it always fits the target and the association of
    whoever uses the flow, and Udp_Sending follows a datagram from the start of its task to
    the send.
  \<^item> Server (\<open>bind\<close>, \<open>local_addr\<close>, \<open>run\<close>, \<open>run_async\<close>, and \<open>main.rs\<close>): the accept loop and
    the shutdown.
  \<^item> Udp_Loop (\<open>udp_loop\<close>): the loop around the handling of one datagram, its permits and its
    ends, and what they mean for the result of the server.
  \<^item> System: the running server as one transition system \<open>sys_step\<close>, in which the accept loop,
    any number of handlers with their associations, the datagram loop, the packet tasks and
    the receivers take turns; its invariant ties the registry, the tasks and the connections
    together. The phases of a handler are ordered, and every step goes forward. System_Answers
    follows an answer from the look at \<open>alive\<close> that accepts it to the send, which may come
    when the client has left. System_Guarantees draws the conclusions about the whole server.
  \<^item> Repository_Tests, Relay_Tests: 22 of the repository's 25 unit tests, translated and proved
    of the model.

  This theory has the properties that span the client and the server.

  \<^bold>\<open>How the model corresponds to the code.\<close> Structs are records, enums datatypes, fallible
  functions return a sum with the error on the left, machine integers have their width, and
  hash maps are partial maps. A stream operation is a function from the stream to its
  outcome and the new stream; \<open>Pending\<close> is an operation that never completes, and a timeout
  turns it into an error. Shared memory (\<open>Arc\<close>, \<open>Mutex\<close>) is an explicit store. A step
  ends at every \<open>await\<close>, and where a lock is released whose content a later decision or send
  rests on: an answer is accepted, packed and sent in three steps. A load of \<open>alive\<close> and the
  locked section right after it are one step, and so are the clean-up at the end of a
  receiver and of a failed send (\<open>advance_udp_address\<close>, then \<open>remove_flow_slot\<close>), which take
  their locks in a row. What the other tasks do between two steps are
  the other steps of the relation, or the argument \<open>env\<close> of \<open>associate\<close> and \<open>run_async\<close>. What comes from
  outside (the operating system, the resolver, the clock, the order of \<open>select!\<close>) is an
  argument or an event. The key that a hash map evicts, \<open>keys().next()\<close>, is any key.

  \<^bold>\<open>What the properties show.\<close>

  \<^item> Access: only a client that greets properly and presents the configured credentials gets
    anything done, only whitelisted addresses get in, and an association is for its own
    client's datagrams alone, from one source for its whole life. In the whole server
    (\<open>datagrams_authenticated\<close>, \<open>answers_to_clients\<close>) a datagram starts a packet task only for a
    client that is connected, admitted and authenticated at that moment, and every answer that
    leaves was accepted at a moment when its client was; it can leave after the client has.
    Of an association that was given up nothing is sent any more but what had
    passed its look at \<open>alive\<close> by then (\<open>closed_for_good\<close>).
  \<^item> Transparency: requests, replies and datagrams are read as they were written; the TCP
    relay delivers what it reads, in order, and the UDP answers reach the client that asked.
    A UDP payload is sent to its own target and nowhere else (\<open>payloads_reach_target\<close>),
    from the client's \<open>send\<close> on (\<open>udp_payload_end_to_end\<close>).
  \<^item> Resources: the numbers of handlers, packet tasks, flows and slots are bounded, ids are
    distinct, and no flow slot is leaked however the tasks interleave. The registry lists
    exactly what the connected handlers hold.
  \<^item> Progress: races, handshakes and packet tasks end; a datagram that was admitted is sent
    within eight steps when the target resolves (\<open>datagrams_are_sent\<close>); a transfer is closed exactly when no chunk was delivered
    completely for the whole timeout, even if parts of one were (\<open>partial_writes_time_out\<close>); a failed UDP address is left for the next one; closed associations
    give their slots back; a server that succeeds was shut down, and
    every association registered by then was stopped (\<open>success_means_shutdown\<close>). Input cannot end the datagram loop, and
    from every state of the server all clients can leave, which empties the registry.
  \<^item> Composition: a run of the whole server is a run of its parts, so what holds of them holds
    in it, and \<open>associate\<close> as it is written is a path of it.

  \<^bold>\<open>Bounds.\<close> \<open>udp_step\<close> is indexed by \<open>max_instant\<close>, the last instant the platform can
  represent, and by \<open>horizon\<close>, a bound on the clock during the run; the no-leak theorems ask
  that the horizon plus the timeout is representable. \<open>overflowing_timeout_leaks\<close> in
  Udp_Guarantees shows that this is needed: a larger timeout makes the receiver panic and
  leave its slot in the map, after which the packet tasks for it panic at the poisoned mutex. The
  theorems on the whole server ask that fewer than \<open>2 ^ 64\<close> clients were accepted, so that the
  ids, which wrap around, are distinct. There is no fuel: loops are recursive functions with a measure,
  or runs over a list of events.

  \<^bold>\<open>Not modelled.\<close> The hickory resolver, tokio's scheduler and sockets, and
  \<open>copy_bidirectional\<close> (used without a TCP timeout) are parameters. Not modelled at all are
  log and help texts, the benchmarks and the installer, and three unit tests: two whose data goes
  through \<open>copy_bidirectional\<close>, and the one of the resolver library. Memory orderings are taken to be sequentially consistent, and
  the last operations of \<open>associate\<close>, which do not wait for anything, are one step in Associate
  and two, marking and removal, in System.
\<close>

section \<open>The whole of a request\<close>

text \<open>C13: A CONNECT end to end. The client's bytes make the server connect to the client's target,
  without a byte left over; the server connects to one of the addresses its resolver gave for
  that target, on the target's port, and the client's \<open>connect\<close> returns with success if and only if it did, and
  otherwise fails with the status that the server's error stands for.\<close>

theorem connect_session:
  assumes "valid_credentials (cfg_username cfg) (cfg_password cfg)"
    and "client_new server (cfg_username cfg) (cfg_password cfg) = Inr cl"
    and "wf_target t" and "c_opt cs = Inr ()" and "tx_room cs = None"
    and "c_opt ss = Inr ()" and "tx_room ss = None" and "c_local ss = Inr local"
    and "c1 = wrote (ss\<lparr>rx := []\<rparr>) (auth_answer cfg)"
    and "server_connect lookup_ip evs (Inr ()) (Inr bound) t c1 = (out, c2)"
    and "rx cs = drop (length (tx ss)) (tx c2)"
    and "client_connect cl t cs = (result, cs')"
    and "rx ss = drop (length (tx cs)) (tx cs')"
  shows "handle_handshake cfg ss = (Return (Do_connect t), c1) \<and>
    (case connect_outcome lookup_ip evs t of
       Inl e \<Rightarrow> out = Raise e \<and>
         result = Raise (IoError OtherKind (Message (RequestFailed (connect_status e))))
     | Inr remote \<Rightarrow> out = Return remote \<and> result = Return () \<and>
         (\<exists>addresses. dns_lookup lookup_ip t = Inr addresses \<and> remote \<in> set addresses) \<and>
         sock_port remote = t_port t)"
proof -
  have io: "c_local c1 = Inr local" "tx_room c1 = None" "tx c1 = tx ss @ auth_answer cfg"
    using assms(7,8) by (simp_all add: assms(9) wrote_def)
  note conn = server_connect_eq [OF io(1,2) refl refl, of lookup_ip evs bound t, unfolded assms(10)]
  obtain status a where sa: "c2 = wrote c1 (encode_address [5, status, 0] a)"
    and out: "case connect_outcome lookup_ip evs t of
       Inl e \<Rightarrow> out = Raise e \<and> status = connect_status e
     | Inr remote \<Rightarrow> out = Return remote \<and> status = SUCCESS"
    using conn by (cases "connect_outcome lookup_ip evs t") auto
  have "rx cs = auth_answer cfg @ encode_address [5, status, 0] a"
    by (simp add: assms(11) sa io(3))
  from connect_end_to_end [OF assms(1-5) this assms(12,6,7,13)]
  have hs: "handle_handshake cfg ss = (Return (Do_connect t), c1)"
    and res: "result = (if status = SUCCESS then Return ()
              else Raise (IoError OtherKind (Message (RequestFailed status))))"
    by (simp_all add: assms(9))
  show ?thesis
    using hs out res connect_status_fails connect_outcome_Inr [of lookup_ip evs t] dns.lookup_port
    by (cases "connect_outcome lookup_ip evs t") auto
qed

theorem connect_session_witness:
  "let t = target_from (SockV4 0x7F000001 80); bound = SockV4 9 9;
       cs = slice_reader (auth_answer demo_config @ encode_address [5, SUCCESS, 0] bound);
       ss = (slice_reader (tx (snd (client_connect demo_client t cs))))\<lparr>c_local := Inr (SockV4 1 1080)\<rparr>;
       c1 = wrote (ss\<lparr>rx := []\<rparr>) (auth_answer demo_config) in
   handle_handshake demo_config ss = (Return (Do_connect t), c1) \<and>
   fst (server_connect (\<lambda>_. Inr []) [Joined 0 Connected] (Inr ()) (Inr bound) t c1) = Return (SockV4 0x7F000001 80) \<and>
   fst (client_connect demo_client t cs) = Return ()"
proof -
  let ?t = "target_from (SockV4 0x7F000001 80)" and ?bound = "SockV4 9 9"
  let ?cs = "slice_reader (auth_answer demo_config @ encode_address [5, SUCCESS, 0] ?bound)"
  let ?ss = "(slice_reader (tx (snd (client_connect demo_client ?t ?cs))))\<lparr>c_local := Inr (SockV4 1 1080)\<rparr>"
  let ?c1 = "wrote (?ss\<lparr>rx := []\<rparr>) (auth_answer demo_config)"
  have o: "connect_outcome (\<lambda>_. Inr []) [Joined 0 Connected] ?t = Inr (SockV4 0x7F000001 80)"
    by (simp add: connect_outcome_def dns_lookup_def target_from_def happy_eyeballs_connect_def)
  have c2: "server_connect (\<lambda>_. Inr []) [Joined 0 Connected] (Inr ()) (Inr ?bound) ?t ?c1 =
      (Return (SockV4 0x7F000001 80), wrote ?c1 (encode_address [5, SUCCESS, 0] ?bound))"
    by (subst server_connect_eq) (simp_all add: o wrote_def slice_reader_def)
  have "handle_handshake demo_config ?ss = (Return (Do_connect ?t), ?c1) \<and>
    (case connect_outcome (\<lambda>_. Inr []) [Joined 0 Connected] ?t of
       Inl e \<Rightarrow> Return (SockV4 0x7F000001 80) = Raise e \<and> fst (client_connect demo_client ?t ?cs) =
         Raise (IoError OtherKind (Message (RequestFailed (connect_status e))))
     | Inr remote \<Rightarrow> Return (SockV4 0x7F000001 80) = Return remote \<and>
         fst (client_connect demo_client ?t ?cs) = Return () \<and>
         (\<exists>addresses. dns_lookup (\<lambda>_. Inr []) ?t = Inr addresses \<and> remote \<in> set addresses) \<and>
         sock_port remote = t_port ?t)"
    by (rule connect_session [OF demo_valid demo_client_new wf_target_from _ _ _ _ _ refl c2 _ surjective_pairing])
      (simp_all add: slice_reader_def)
  then show ?thesis
    unfolding Let_def c2 o by simp
qed

text \<open>What the client's \<open>send\<close> builds is parsed as the client's target and payload.\<close>

lemma sent_packet_parses:
  assumes "wf_target t" "payload \<noteq> []" "append_datagram_to [] t payload = (Inr (), packet)" "length packet \<le> 65535"
  shows "parse_datagram (take 65535 packet) = Inr (t, payload)"
proof -
  have "encode_datagram_to t payload = Inr packet"
    by (simp add: encode_datagram_to_def assms(3))
  then show ?thesis
    using assms(1,2,4) by (simp add: parse_datagram_iff)
qed

text \<open>C15: A payload end to end. In every reachable state of the relay, the packet that the client's
  \<open>send\<close> builds for a payload that is not empty, arriving from the source that a live
  association owns, leads within eight steps of its task to a send of exactly this payload
  to an address for exactly the client's target: on the target's port, and at its address if
  it has one. A permit and room for the flow have to be left, and some resolved address has
  to be usable.\<close>

theorem udp_payload_end_to_end:
  assumes "udp_start s0" and "(udp_step cfg mx hz)\<^sup>*\<^sup>* s0 s" and "hz + unat (cfg_udp_timeout cfg) \<le> mx"
    and "card (dom (packets s)) < MAX_UDP_PACKET_TASKS" and "wl_allows (cfg_whitelist cfg) (sock_ip source)"
    and "entries (reg s) i = Some a" and "alive (assocs s a)"
    and "owner (sessions (assocs s, reg s)) source i"
    and "wf_target (ua_target ua)" and "payload \<noteq> []"
    and "append_datagram_to [] (ua_target ua) payload = (Inr (), packet)" and "length packet \<le> 65535"
    and "flows (assocs s a) (ua_target ua) = None \<Longrightarrow>
      card (dom (flows (assocs s a))) < MAX_FLOWS_PER_ASSOCIATION"
    and "\<And>k. flows (assocs s a) (ua_target ua) = Some k \<Longrightarrow> cells s k \<noteq> Some None \<and> \<not> initialising s k"
    and "in_permit inp" and "dns_lookup (\<lambda>_. in_answer inp) (ua_target ua) = Inr addresses"
    and "\<exists>x \<in> set addresses. in_usable inp x"
  shows "\<exists>n \<le> 8. \<exists>b. sends ((packet_step inp (next_packet s) ^^ n) (udp_datagram cfg True source packet s))
      (next_packet s) = Some (payload, b) \<and> peer_for (ua_target ua) b"
proof -
  let ?s = "udp_datagram cfg True source packet s" and ?i = "next_packet s"
  have ids: "task_ids s" and reg: "reg_inv (assocs s, reg s)"
    using udp_steps_task_ids [OF assms(1,2)] udp_steps_registry [OF assms(1,2)] by simp_all
  have new: "packets s ?i = None"
    using ids by (simp add: task_ids_def)
  have step: "udp_step cfg mx hz s ?s"
    using assms(4) by (rule udp_receive)
  then have steps: "(udp_step cfg mx hz)\<^sup>*\<^sup>* s0 ?s"
    using assms(2) by simp
  obtain t where t: "packets ?s ?i = Some t" "t_assoc t = a" "t_target t = ua_target ua" "t_payload t = payload"
    using udp_datagram_task_iff [OF reg new, of cfg True source packet a "ua_target ua" payload]
      sent_packet_parses [OF assms(9-12)] assms(5-8) by blast
  have fresh: "t_stage t = Begin"
    using udp_step_new_task [OF step new t(1)] by simp
  have live: "alive (assocs ?s a)"
    using udp_datagram_effects(2) [of cfg True source packet s a] assms(7) by (simp add: face_def)
  obtain n b where n: "n \<le> 8" "sends ((packet_step inp ?i ^^ n) ?s) ?i = Some (payload, b)"
    and b: "case open_flow ?s a (ua_target ua) of Some f \<Rightarrow> b = f_peer f | None \<Rightarrow> b \<in> set addresses \<and> in_usable inp b"
    using begin_sends [OF assms(1) steps assms(3) t(1) fresh, of inp addresses] live assms(13-17)
    by (auto simp: t(2-4) udp_datagram_flows udp_datagram_initialising [OF ids])
  have "flow_peers ?s"
    using relay_peers.reachable_inv [OF assms(1) steps] by (simp add: peers_inv_def)
  from sent_to_peer [where usable = "in_usable inp", OF this assms(16) b] n show ?thesis by blast
qed

lemma demo_udp_target: "ua_target demo_udp = demo_target"
  by (simp add: demo_udp_def demo_target_def target_from_def)

theorem udp_payload_end_to_end_witness:
  "\<exists>n \<le> 8. \<exists>b. sends ((packet_step demo_input (next_packet demo_registered) ^^ n)
        (udp_datagram cfg_default True (SockV4 7 5) [0, 0, 0, 1, 8, 8, 8, 8, 0, 53, 1] demo_registered))
      (next_packet demo_registered) = Some ([1], b) \<and> peer_for (ua_target demo_udp) b"
proof (rule udp_payload_end_to_end [OF demo_relay_start, where mx = 1000 and hz = 10])
  show "(udp_step cfg_default 1000 10)\<^sup>*\<^sup>* demo_relay demo_registered"
    using demo_registers by simp
  show "entries (reg demo_registered) 1 = Some 0" "alive (assocs demo_registered 0)"
    by (simp_all add: demo_registered_def demo_state_def demo_association_def)
  show "owner (sessions (assocs demo_registered, reg demo_registered)) (SockV4 7 5) 1"
    by (simp add: demo_registered_def owner_def sessions_def session_of_def bound_port_def demo_state_def
        demo_association_def normalize_ip_def Let_def ran_def)
  show "wf_target (ua_target demo_udp)"
    by (simp add: demo_udp_def wf_target_from)
  show "wl_allows (cfg_whitelist cfg_default) (sock_ip (SockV4 7 5))"
    by (simp add: cfg_default_def wl_default_def wl_allows_def)
  have "encode_datagram_to (ua_target demo_udp) [1] = Inr [0, 0, 0, 1, 8, 8, 8, 8, 0, 53, 1]"
    by (simp add: encode_datagram_to_wire demo_udp_def target_wire_from encode_address_def v4_octets_def
        port_bytes_def be_bytes_numeral)
  then show "append_datagram_to [] (ua_target demo_udp) [1] = (Inr (), [0, 0, 0, 1, 8, 8, 8, 8, 0, 53, 1])"
    by (simp add: encode_datagram_to_def split: prod.splits sum.splits)
  show "dns_lookup (\<lambda>_. in_answer demo_input) (ua_target demo_udp) = Inr [SockV4 0x08080808 53]"
    by (simp add: demo_udp_target dns_lookup_def demo_target_def)
qed (simp_all add: demo_registered_def demo_relay_def demo_state_def demo_association_def demo_input_def cfg_default_def
    MAX_UDP_PACKET_TASKS_def MAX_FLOWS_PER_ASSOCIATION_def)

text \<open>C28: An answer end to end. In every reachable state of the relay, an answer of at most 65513 bytes
  that reaches a waiting receiver of a live association is accepted; whatever the other tasks
  do before the receiver's next step, and before the one after it, that step packs the answer
  for the association's client, this one sends it there, and the client's \<open>recv\<close> delivers
  exactly these bytes, as coming from the destination of the flow.\<close>

theorem udp_answer_end_to_end:
  assumes "udp_start s0" and "(udp_step cfg mx hz)\<^sup>*\<^sup>* s0 s"
    and "hz + unat (cfg_udp_timeout cfg) \<le> mx" and "receivers s k = Some r"
    and "r_stage r = Waiting" and "alive (assocs s (r_assoc r))"
    and "s' = fst (receiver_step mx (unat (cfg_udp_timeout cfg)) oldest1 now1 (Received_reply d) k s)"
    and "relay_moves cfg mx hz s s'" and "(udp_step cfg mx hz)\<^sup>*\<^sup>* s' t" and "receivers t k = receivers s' k"
    and "endpoint (assocs t (r_assoc r)) = Some to"
    and "t' = fst (receiver_step mx (unat (cfg_udp_timeout cfg)) oldest2 now2 ev2 k t)"
    and "relay_moves cfg mx hz t t'" and "(udp_step cfg mx hz)\<^sup>*\<^sup>* t' u" and "receivers u k = receivers t' k"
    and "d \<noteq> []" and "length d \<le> 65513" and "length d \<le> length buffer"
  shows "\<exists>packet.
    snd (receiver_step mx (unat (cfg_udp_timeout cfg)) oldest3 now3 ev3 k u) = Some (packet, to) \<and>
    udp_recv (Inr packet) buffer = (Inr (length d, target_from (r_dest r)), d @ drop (length d) buffer)"
proof (intro exI conjI)
  have inv: "relay_inv hz v" if "(udp_step cfg mx hz)\<^sup>*\<^sup>* s0 v" for v
    using relay_system.reachable_inv [of s0 hz cfg mx v] assms(1,3) that by blast
  have steps: "(udp_step cfg mx hz)\<^sup>*\<^sup>* s0 t" "(udp_step cfg mx hz)\<^sup>*\<^sup>* s0 u"
    using assms(2) udp_task [OF assms(8)] assms(9) udp_task [OF assms(13)] assms(14)
    by (meson rtranclp.rtrancl_into_rtrancl rtranclp_trans)+
  obtain r1 n where 1: "receivers s' k = Some r1" "r_stage r1 = Answering n" "r_assoc r1 = r_assoc r"
    "r_dest r1 = r_dest r" "take n (drop 22 (r_buffer r1)) = d"
    by (rule answer_accepted [OF inv [OF assms(2)] assms(4-6), of mx _ oldest1 now1 d])
      (use assms(7,17) in auto)
  obtain r3 where 3: "receivers t' k = Some r3" "r_stage r3 = Replying (encode_datagram (r_dest r) d) to"
    by (rule answer_addressed [OF inv [OF steps(1)], of k r1 n to mx _ oldest2 now2 ev2])
      (use 1 assms(10-12) in auto)
  show "snd (receiver_step mx (unat (cfg_udp_timeout cfg)) oldest3 now3 ev3 k u) =
      Some (encode_datagram (r_dest r) d, to)"
    using answer_leaves [OF inv [OF steps(2)], of k r3] 3 assms(15) by (simp add: answer_sent_def)
  have "length (encode_datagram (r_dest r) d) \<le> UDP_BUFFER_SIZE"
    using length_encode_address [of "r_dest r"] datagram_header_len_le [of "r_dest r"] assms(17)
    by (simp add: encode_datagram_wire UDP_BUFFER_SIZE_def)
  moreover have "parse_datagram (encode_datagram (r_dest r) d) = Inr (target_from (r_dest r), d)"
    using assms(16) by (simp add: parse_datagram_iff encode_datagram_from)
  ultimately show "udp_recv (Inr (encode_datagram (r_dest r) d)) buffer =
      (Inr (length d, target_from (r_dest r)), d @ drop (length d) buffer)"
    using assms(18) by (simp add: udp_recv_def)
qed

theorem udp_answer_end_to_end_witness:
  "\<exists>packet.
    snd (receiver_step 1000 (unat (cfg_udp_timeout cfg_default)) None 3 Receive_failed 0 demo_replying) =
      Some (packet, SockV4 7 5) \<and>
    udp_recv (Inr packet) [0, 0, 7] =
      (Inr (length [9, 8 :: u8], target_from (r_dest (demo_receiver\<lparr>r_stage := Waiting\<rparr>))),
       [9, 8] @ drop (length [9, 8 :: u8]) [0, 0, 7])"
proof (rule udp_answer_end_to_end [OF demo_relay_start demo_waiting_steps _ demo_waiting_receiver, where
      d = "[9, 8]" and t = demo_answering and u = demo_replying])
  show "alive (assocs demo_waiting (r_assoc (demo_receiver\<lparr>r_stage := Waiting\<rparr>)))"
    "endpoint (assocs demo_answering (r_assoc (demo_receiver\<lparr>r_stage := Waiting\<rparr>))) = Some (SockV4 7 5)"
    by (simp_all add: demo_waiting_client demo_answering_assocs demo_receiver_def)
  show "relay_moves cfg_default 1000 10 demo_waiting demo_answering"
    "relay_moves cfg_default 1000 10 demo_answering demo_replying"
    by (rule demo_accepts_answer demo_packs_answer)+
  show "demo_answering = fst (receiver_step 1000 (unat (cfg_udp_timeout cfg_default)) None 3 (Received_reply [9, 8]) 0 demo_waiting)"
    "demo_replying = fst (receiver_step 1000 (unat (cfg_udp_timeout cfg_default)) None 3 Receive_failed 0 demo_answering)"
    by (rule demo_answering_def demo_replying_def)+
qed (simp_all add: cfg_default_def)

end
